(* ===== verification/Prelude.thy ===== *)
theory Prelude imports Main
begin

text \<open>
  The shared vocabulary of the development.

  An asynchronous TypeScript function of the service is a \<^emph>\<open>program\<close>: a function from
  the state it shares with the rest of the system to an outcome and the state it leaves. The
  outcome is a value (\<open>Ok\<close>, the promise resolves), an exception (\<open>Throw\<close>, the promise
  rejects) or \<open>Crash\<close> (the process dies: no \<open>catch\<close> and no \<open>finally\<close> block runs).
  \<open>await\<close>, \<open>try_catch\<close> and \<open>try_finally\<close> are the control structures the source
  uses.

  Two ways of reasoning about programs are set up here once. The locale \<open>step_contract\<close>
  holds for any reflexive and transitive relation between states: a relation that every
  primitive call keeps is kept by every program built from them. \<open>establishes\<close> relates the
  states before and after a run that resolves, and is what a transaction body is judged by.
\<close>

named_theorems step_rules \<open>rules that show a program keeps a step relation\<close>
named_theorems wp_rules \<open>rules for runs that resolve\<close>
named_theorems run_simps \<open>equations that run a program\<close>

section \<open>Programs\<close>

datatype ('e, 'a) outcome = Ok 'a | Throw 'e | Crash

type_synonym ('s, 'e, 'a) program = "'s \<Rightarrow> ('e, 'a) outcome \<times> 's"

definition ret :: "'a \<Rightarrow> ('s, 'e, 'a) program" where
  "ret a = (\<lambda>s. (Ok a, s))"

definition throw :: "'e \<Rightarrow> ('s, 'e, 'a) program" where
  "throw e = (\<lambda>s. (Throw e, s))"

definition get_state :: "('s, 'e, 's) program" where
  "get_state = (\<lambda>s. (Ok s, s))"

definition modify :: "('s \<Rightarrow> 's) \<Rightarrow> ('s, 'e, unit) program" where
  "modify f = (\<lambda>s. (Ok (), f s))"

definition await :: "('s, 'e, 'a) program \<Rightarrow> ('a \<Rightarrow> ('s, 'e, 'b) program) \<Rightarrow> ('s, 'e, 'b) program" where
  "await m k = (\<lambda>s. case m s of
     (Ok a, s') \<Rightarrow> k a s' | (Throw e, s') \<Rightarrow> (Throw e, s') | (Crash, s') \<Rightarrow> (Crash, s'))"

definition try_catch :: "('s, 'e, 'a) program \<Rightarrow> ('e \<Rightarrow> ('s, 'e, 'a) program) \<Rightarrow> ('s, 'e, 'a) program" where
  "try_catch m h = (\<lambda>s. case m s of
     (Ok a, s') \<Rightarrow> (Ok a, s') | (Throw e, s') \<Rightarrow> h e s' | (Crash, s') \<Rightarrow> (Crash, s'))"

text \<open>
  A \<open>finally\<close> block runs after a resolved and after a rejected body; an exception it raises
  replaces the body's outcome, as in the language.
\<close>

definition try_finally :: "('s, 'e, 'a) program \<Rightarrow> ('s, 'e, unit) program \<Rightarrow> ('s, 'e, 'a) program" where
  "try_finally m f = (\<lambda>s. case m s of
     (Crash, s') \<Rightarrow> (Crash, s')
   | (r, s') \<Rightarrow> (case f s' of
        (Ok _, s'') \<Rightarrow> (r, s'') | (Throw e, s'') \<Rightarrow> (Throw e, s'') | (Crash, s'') \<Rightarrow> (Crash, s'')))"

definition run_if :: "bool \<Rightarrow> ('s, 'e, unit) program \<Rightarrow> ('s, 'e, unit) program" where
  "run_if b m = (if b then m else ret ())"

fun for_each :: "'x list \<Rightarrow> ('x \<Rightarrow> ('s, 'e, unit) program) \<Rightarrow> ('s, 'e, unit) program" where
  "for_each [] body = ret ()"
| "for_each (x # xs) body = await (body x) (\<lambda>_. for_each xs body)"

text \<open>A synchronous method of an object that lives in a local variable: the object it leaves.\<close>

definition call_method :: "('o, 'e, unit) program \<Rightarrow> 'o \<Rightarrow> ('s, 'e, 'o) program" where
  "call_method m o1 = (\<lambda>s. case m o1 of
     (Ok _, o2) \<Rightarrow> (Ok o2, s) | (Throw e, _) \<Rightarrow> (Throw e, s) | (Crash, _) \<Rightarrow> (Crash, s))"

lemma ret_run [run_simps]: "ret a s = (Ok a, s)" by (simp add: ret_def)
lemma throw_run [run_simps]: "throw e s = (Throw e, s)" by (simp add: throw_def)
lemma get_state_run [run_simps]: "get_state s = (Ok s, s)" by (simp add: get_state_def)
lemma modify_run [run_simps]: "modify f s = (Ok (), f s)" by (simp add: modify_def)
lemma run_if_run [run_simps]: "run_if b m s = (if b then m s else (Ok (), s))"
  by (simp add: run_if_def ret_def)

lemma await_run [run_simps]:
  "m s = (Ok a, s') \<Longrightarrow> await m k s = k a s'"
  "m s = (Throw e, s') \<Longrightarrow> await m k s = (Throw e, s')"
  "m s = (Crash, s') \<Longrightarrow> await m k s = (Crash, s')"
  by (simp_all add: await_def)

lemma try_catch_run [run_simps]:
  "m s = (Ok a, s') \<Longrightarrow> try_catch m h s = (Ok a, s')"
  "m s = (Throw e, s') \<Longrightarrow> try_catch m h s = h e s'"
  "m s = (Crash, s') \<Longrightarrow> try_catch m h s = (Crash, s')"
  by (simp_all add: try_catch_def)

lemma await_assoc: "await (await m k) l = await m (\<lambda>a. await (k a) l)"
  by (auto simp: await_def fun_eq_iff split: prod.splits outcome.splits)

lemma await_ret [simp]: "await (ret a) k = k a"
  by (simp add: await_def ret_def fun_eq_iff)

section \<open>Step relations\<close>

definition obeys :: "('s \<Rightarrow> 's \<Rightarrow> bool) \<Rightarrow> ('s, 'e, 'a) program \<Rightarrow> bool" where
  "obeys R m \<longleftrightarrow> (\<forall>s. R s (snd (m s)))"

lemma obeysI: "(\<And>s r s'. m s = (r, s') \<Longrightarrow> R s s') \<Longrightarrow> obeys R m"
  by (metis obeys_def prod.collapse)

lemma obeysD: "obeys R m \<Longrightarrow> m s = (r, s') \<Longrightarrow> R s s'"
  by (metis obeys_def snd_conv)

locale step_contract =
  fixes R :: "'s \<Rightarrow> 's \<Rightarrow> bool"
  assumes refl: "R s s"
    and trans: "R s t \<Longrightarrow> R t u \<Longrightarrow> R s u"
begin

lemma obeys_ret: "obeys R (ret a)"
  by (simp add: obeys_def ret_def refl)

lemma obeys_throw: "obeys R (throw e)"
  by (simp add: obeys_def throw_def refl)

lemma obeys_get_state: "obeys R get_state"
  by (simp add: obeys_def get_state_def refl)

lemma obeys_await: "obeys R m \<Longrightarrow> (\<And>a. obeys R (k a)) \<Longrightarrow> obeys R (await m k)"
  unfolding obeys_def await_def
  by (auto split: prod.split outcome.split) (metis snd_conv trans)+

lemma obeys_try_catch: "obeys R m \<Longrightarrow> (\<And>e. obeys R (h e)) \<Longrightarrow> obeys R (try_catch m h)"
  unfolding obeys_def try_catch_def
  by (auto split: prod.split outcome.split) (metis snd_conv trans)+

lemma obeys_try_finally: "obeys R m \<Longrightarrow> obeys R f \<Longrightarrow> obeys R (try_finally m f)"
  unfolding obeys_def try_finally_def
  by (auto split: prod.split outcome.split) (metis snd_conv trans)+

lemma obeys_run_if: "obeys R m \<Longrightarrow> obeys R (run_if b m)"
  by (simp add: run_if_def obeys_ret)

lemma obeys_for_each: "(\<And>x. obeys R (body x)) \<Longrightarrow> obeys R (for_each xs body)"
  by (induction xs) (simp_all add: obeys_ret obeys_await)

lemma obeys_call_method: "obeys R (call_method m o1)"
  unfolding obeys_def call_method_def by (auto split: prod.split outcome.split simp: refl)

lemma obeys_if: "obeys R m \<Longrightarrow> obeys R n \<Longrightarrow> obeys R (if b then m else n)"
  by simp

lemma obeys_case_option:
  "obeys R m \<Longrightarrow> (\<And>x. obeys R (f x)) \<Longrightarrow> obeys R (case z of None \<Rightarrow> m | Some x \<Rightarrow> f x)"
  by (cases z) simp_all

lemmas obeys_control = obeys_ret obeys_throw obeys_get_state obeys_await obeys_try_catch
  obeys_try_finally obeys_run_if obeys_for_each obeys_call_method obeys_if obeys_case_option

end

text \<open>Keeping an invariant is the instance whose relation is implication.\<close>

definition invariant_step :: "('s \<Rightarrow> bool) \<Rightarrow> 's \<Rightarrow> 's \<Rightarrow> bool" where
  "invariant_step I s t \<longleftrightarrow> (I s \<longrightarrow> I t)"

interpretation invariant_contract: step_contract "invariant_step I"
  by unfold_locales (auto simp: invariant_step_def)

section \<open>Runs that resolve\<close>

definition establishes :: "('s \<Rightarrow> bool) \<Rightarrow> ('s, 'e, 'a) program \<Rightarrow> ('a \<Rightarrow> 's \<Rightarrow> bool) \<Rightarrow> bool" where
  "establishes P m Q \<longleftrightarrow> (\<forall>s a s'. P s \<longrightarrow> m s = (Ok a, s') \<longrightarrow> Q a s')"

lemma establishesD: "establishes P m Q \<Longrightarrow> P s \<Longrightarrow> m s = (Ok a, s') \<Longrightarrow> Q a s'"
  by (simp add: establishes_def)

lemma establishes_ret [wp_rules]: "(\<And>s. P s \<Longrightarrow> Q a s) \<Longrightarrow> establishes P (ret a) Q"
  by (simp add: establishes_def ret_def)

lemma establishes_throw [wp_rules]: "establishes P (throw e) Q"
  by (simp add: establishes_def throw_def)

lemma establishes_get_state [wp_rules]: "(\<And>s. P s \<Longrightarrow> Q s s) \<Longrightarrow> establishes P get_state Q"
  by (simp add: establishes_def get_state_def)

lemma establishes_modify [wp_rules]: "(\<And>s. P s \<Longrightarrow> Q () (f s)) \<Longrightarrow> establishes P (modify f) Q"
  by (simp add: establishes_def modify_def)

lemma establishes_await:
  "establishes P m Q \<Longrightarrow> (\<And>a. establishes (Q a) (k a) R) \<Longrightarrow> establishes P (await m k) R"
  unfolding establishes_def await_def by (fastforce split: prod.splits outcome.splits)

lemma establishes_run_if [wp_rules]:
  "(b \<Longrightarrow> establishes P m Q) \<Longrightarrow> (\<And>s. \<not> b \<Longrightarrow> P s \<Longrightarrow> Q () s) \<Longrightarrow> establishes P (run_if b m) Q"
  by (cases b) (auto simp: run_if_def intro: establishes_ret)

lemma establishes_call_method [wp_rules]:
  "(\<And>s o2. P s \<Longrightarrow> m o1 = (Ok (), o2) \<Longrightarrow> Q o2 s) \<Longrightarrow> establishes P (call_method m o1) Q"
  unfolding establishes_def call_method_def by (auto split: prod.splits outcome.splits)

lemma establishes_weaken:
  "establishes P m Q \<Longrightarrow> (\<And>s. P' s \<Longrightarrow> P s) \<Longrightarrow> (\<And>a s. Q a s \<Longrightarrow> Q' a s) \<Longrightarrow> establishes P' m Q'"
  unfolding establishes_def by blast

section \<open>Runs of any outcome\<close>

text \<open>\<open>outcomes P m Q\<close>: started where \<open>P\<close> holds, \<open>m\<close> ends, resolved, rejected or
  crashed, where \<open>Q\<close> holds of the outcome and the state.\<close>

definition outcomes :: "('s \<Rightarrow> bool) \<Rightarrow> ('s, 'e, 'a) program \<Rightarrow> (('e, 'a) outcome \<Rightarrow> 's \<Rightarrow> bool) \<Rightarrow> bool" where
  "outcomes P m Q \<longleftrightarrow> (\<forall>s r s'. P s \<longrightarrow> m s = (r, s') \<longrightarrow> Q r s')"

lemma outcomesI: "(\<And>s r s'. P s \<Longrightarrow> m s = (r, s') \<Longrightarrow> Q r s') \<Longrightarrow> outcomes P m Q"
  by (simp add: outcomes_def)

lemma outcomesD: "outcomes P m Q \<Longrightarrow> P s \<Longrightarrow> m s = (r, s') \<Longrightarrow> Q r s'"
  by (simp add: outcomes_def)

lemma outcomes_ret: "(\<And>s. P s \<Longrightarrow> Q (Ok a) s) \<Longrightarrow> outcomes P (ret a) Q"
  by (simp add: outcomes_def ret_def)

lemma outcomes_throw: "(\<And>s. P s \<Longrightarrow> Q (Throw e) s) \<Longrightarrow> outcomes P (throw e) Q"
  by (simp add: outcomes_def throw_def)

lemma outcomes_await:
  assumes "outcomes P m M" "\<And>a. outcomes (M (Ok a)) (k a) Q"
    "\<And>e s. M (Throw e) s \<Longrightarrow> Q (Throw e) s" "\<And>s. M Crash s \<Longrightarrow> Q Crash s"
  shows "outcomes P (await m k) Q"
proof (rule outcomesI)
  fix s r s' assume "P s" and run: "await m k s = (r, s')"
  obtain r1 s1 where m: "m s = (r1, s1)" by fastforce
  then have "M r1 s1" using assms(1) \<open>P s\<close> by (blast dest: outcomesD)
  then show "Q r s'" using run m assms(2-) by (cases r1) (auto simp: await_run dest: outcomesD)
qed

lemma outcomes_try_catch:
  assumes "outcomes P m M" "\<And>e. outcomes (M (Throw e)) (h e) Q"
    "\<And>a s. M (Ok a) s \<Longrightarrow> Q (Ok a) s" "\<And>s. M Crash s \<Longrightarrow> Q Crash s"
  shows "outcomes P (try_catch m h) Q"
proof (rule outcomesI)
  fix s r s' assume "P s" and run: "try_catch m h s = (r, s')"
  obtain r1 s1 where m: "m s = (r1, s1)" by fastforce
  then have "M r1 s1" using assms(1) \<open>P s\<close> by (blast dest: outcomesD)
  then show "Q r s'" using run m assms(2-) by (cases r1) (auto simp: try_catch_run dest: outcomesD)
qed

text \<open>A \<open>finally\<close> block that only rejects or keeps what the body established.\<close>

lemma outcomes_try_finally:
  assumes "outcomes P m Q" "\<And>r. outcomes (Q r) f (\<lambda>r' s. Q r s \<and> (\<forall>e. r' = Throw e \<longrightarrow> Q (Throw e) s) \<and> Q Crash s)"
  shows "outcomes P (try_finally m f) Q"
proof (rule outcomesI)
  fix s r s' assume "P s" and run: "try_finally m f s = (r, s')"
  obtain r1 s1 where m: "m s = (r1, s1)" by fastforce
  obtain r2 s2 where f: "f s1 = (r2, s2)" by fastforce
  have q: "Q r1 s1" using assms(1) \<open>P s\<close> m by (blast dest: outcomesD)
  have "Q r1 s2 \<and> (\<forall>e. r2 = Throw e \<longrightarrow> Q (Throw e) s2) \<and> Q Crash s2"
    using outcomesD[OF assms(2) q f] .
  then show "Q r s'" using run m f q unfolding try_finally_def
    by (cases r1; cases r2) auto
qed

lemma outcomes_run_if:
  "(b \<Longrightarrow> outcomes P m Q) \<Longrightarrow> (\<And>s. \<not> b \<Longrightarrow> P s \<Longrightarrow> Q (Ok ()) s) \<Longrightarrow> outcomes P (run_if b m) Q"
  by (cases b) (auto simp: run_if_def intro: outcomes_ret)

lemma outcomes_weaken:
  "outcomes P m Q \<Longrightarrow> (\<And>s. P' s \<Longrightarrow> P s) \<Longrightarrow> (\<And>r s. Q r s \<Longrightarrow> Q' r s) \<Longrightarrow> outcomes P' m Q'"
  unfolding outcomes_def by blast

lemma outcomes_keep: "obeys (invariant_step I) m \<Longrightarrow> outcomes I m (\<lambda>_. I)"
  unfolding outcomes_def obeys_def invariant_step_def by (metis snd_conv)

lemma outcomes_by_state: "(\<And>s. P s \<Longrightarrow> outcomes (\<lambda>t. t = s) m Q) \<Longrightarrow> outcomes P m Q"
  unfolding outcomes_def by blast

section \<open>Inversion of runs\<close>

named_theorems run_inv \<open>what a resolved run went through\<close>

lemma await_Ok [run_inv]:
  "await m k s = (Ok b, s') \<longleftrightarrow> (\<exists>a s1. m s = (Ok a, s1) \<and> k a s1 = (Ok b, s'))"
  by (auto simp: await_def split: prod.splits outcome.splits)

lemma ret_Ok [run_inv]: "ret a s = (Ok b, s') \<longleftrightarrow> b = a \<and> s' = s"
  by (auto simp: ret_def)

lemma throw_Ok [run_inv]: "throw e s = (Ok b, s') \<longleftrightarrow> False"
  by (simp add: throw_def)

lemma modify_Ok [run_inv]: "modify f s = (Ok b, s') \<longleftrightarrow> s' = f s"
  by (auto simp: modify_def)

lemma get_state_Ok [run_inv]: "get_state s = (Ok b, s') \<longleftrightarrow> b = s \<and> s' = s"
  by (auto simp: get_state_def)

lemma run_if_Ok [run_inv]:
  "run_if c m s = (Ok b, s') \<longleftrightarrow> (if c then m s = (Ok b, s') else s' = s)"
  by (auto simp: run_if_def ret_def)

lemma call_method_Ok [run_inv]:
  "call_method m x s = (Ok y, s') \<longleftrightarrow> s' = s \<and> m x = (Ok (), y)"
  by (auto simp: call_method_def split: prod.splits outcome.splits)

end
