(* ===== verification/JsNumber.thy ===== *)
theory JsNumber imports Complex_Main
begin

text \<open>
  JavaScript's number type, as far as the services use it: IEEE 754 binary64 values, addition,
  subtraction and comparison, and the conversion to decimal text.

  A finite number is the rational it denotes; rounding to the nearest double (ties to the even
  significand, gradual underflow, overflow to an infinity) is the executable function
  \<open>round_double\<close>. \<open>decimal_string\<close> is the value of the text that \<open>Number::toString\<close>
  prints: the shortest decimal that reads back as the same double. The database driver sends
  this text, so it decides what a money column stores. The fallback of \<open>shortest_decimal\<close> (the
  exact value) is never reached, 17 digits being enough for every double; either way the text
  reads back as the number (\<open>decimal_string_roundtrip\<close>).

  The lemmas give what the money properties need: rounding is monotone, symmetric and
  idempotent, its error is at most half a unit in the last place, and sums and differences of
  cent amounts up to ten trillion print as text that is nearest to the exact cents
  (\<open>cents_arithmetic\<close>). Negative zero is identified with zero: nothing in the source
  tells them apart.
\<close>

section \<open>Rounding to the nearest double\<close>

text \<open>The floor of a rational literal, for evaluating closed terms.\<close>

lemma floor_rat_literal [simp]:
  "\<lfloor>numeral a / numeral b :: rat\<rfloor> = numeral a div numeral b"
  "\<lfloor>1 / numeral b :: rat\<rfloor> = 1 div numeral b"
  "\<lfloor>- numeral a / numeral b :: rat\<rfloor> = - numeral a div numeral b"
  "\<lfloor>- 1 / numeral b :: rat\<rfloor> = - 1 div numeral b"
  "\<lfloor>- (numeral a / numeral b) :: rat\<rfloor> = - numeral a div numeral b"
  "\<lfloor>- (1 / numeral b) :: rat\<rfloor> = - 1 div numeral b"
  by (metis floor_divide_of_int_eq minus_divide_left of_int_1 of_int_minus of_int_neg_numeral of_int_numeral)+

definition round_half_even :: "rat \<Rightarrow> int" where
  "round_half_even q = (let f = \<lfloor>q\<rfloor>; d = q - of_int f in
     if d < 1 / 2 then f else if 1 / 2 < d then f + 1 else if even f then f else f + 1)"

lemma ceiling_half_less: "1 < (z::rat) \<Longrightarrow> z \<le> y / 2 \<Longrightarrow> \<lceil>z\<rceil> < \<lceil>y\<rceil>"
  by linarith

function ilog :: "rat \<Rightarrow> rat \<Rightarrow> int" where
  "ilog b x = (if b < 2 \<or> x \<le> 0 then 0
     else if b \<le> x then ilog b (x / b) + 1
     else if x < 1 then ilog b (x * b) - 1
     else 0)"
  by pat_completeness auto
termination
proof (relation "measure (\<lambda>(b, x). if 1 \<le> x then nat \<lfloor>x\<rfloor> else nat (\<lceil>1 / x\<rceil> + \<lceil>b\<rceil>))", goal_cases)
  case 1 show ?case by simp
next
  case (2 b x)
  then have b: "2 \<le> b" and x: "b \<le> x" by auto
  have "b * (x / 2) \<ge> 2 * (x / 2)" using b x by (intro mult_right_mono) auto
  then have "x / b \<le> x / 2" using b by (simp add: field_simps)
  then have "\<lfloor>x / b\<rfloor> < \<lfloor>x\<rfloor>" using b x by linarith
  moreover have "1 \<le> x / b" using b x by simp
  ultimately show ?case using b x by simp
next
  case (3 b x)
  then have b: "2 \<le> b" and x: "0 < x" "x < 1" by auto
  have y: "1 < 1 / x" using x by simp
  show ?case
  proof (cases "1 \<le> x * b")
    case True
    have "x * b < b" using x b by simp
    then have "\<lfloor>x * b\<rfloor> < \<lceil>1 / x\<rceil> + \<lceil>b\<rceil>" using y by linarith
    moreover have "0 < \<lceil>1 / x\<rceil> + \<lceil>b\<rceil>" using y b by linarith
    ultimately show ?thesis using True x by simp
  next
    case False
    have "1 / (x * b) = (1 / x) / b" by simp
    moreover have "(1 / x) / b \<le> (1 / x) / 2" using b x by (intro divide_left_mono) auto
    ultimately have le: "1 / (x * b) \<le> (1 / x) / 2" by simp
    have "1 < 1 / (x * b)" using False x b by (simp add: field_simps)
    then have "\<lceil>1 / (x * b)\<rceil> < \<lceil>1 / x\<rceil>" using le by (rule ceiling_half_less)
    moreover have "0 < \<lceil>1 / (x * b)\<rceil> + \<lceil>b\<rceil>" using \<open>1 < 1 / (x * b)\<close> b by linarith
    ultimately show ?thesis using False x by simp
  qed
qed

declare ilog.simps [simp del]

lemma ilog_bounds:
  assumes "2 \<le> b" "0 < x"
  shows "b powi (ilog b x) \<le> x \<and> x < b powi (ilog b x + 1)"
  using assms
proof (induction b x rule: ilog.induct)
  case (1 b x)
  have b0: "b \<noteq> 0" "0 < b" using "1.prems" by auto
  consider "b \<le> x" | "x < 1" | "x < b" "1 \<le> x" by linarith
  then show ?case
  proof cases
    case 1
    let ?l = "ilog b (x / b)"
    have e: "ilog b x = ?l + 1" using 1 "1.prems" by (subst ilog.simps) auto
    have ih: "b powi ?l \<le> x / b \<and> x / b < b powi (?l + 1)"
      using "1.IH"(1) 1 "1.prems" by auto
    have "b powi (?l + 1) = b powi ?l * b" by (rule power_int_add_1) (use b0 in auto)
    moreover have "b powi (?l + 1 + 1) = b powi (?l + 1) * b" by (rule power_int_add_1) (use b0 in auto)
    ultimately show ?thesis using ih b0 unfolding e by (simp add: pos_le_divide_eq pos_divide_less_eq)
  next
    case 2
    let ?l = "ilog b (x * b)"
    have nb: "\<not> b \<le> x" using 2 "1.prems" by linarith
    have e: "ilog b x = ?l - 1" using 2 nb "1.prems" by (subst ilog.simps) auto
    have ih: "b powi ?l \<le> x * b \<and> x * b < b powi (?l + 1)"
      using "1.IH"(2) 2 nb "1.prems" by auto
    have "b powi (?l - 1) * b = b powi ?l" "b powi (?l - 1 + 1) * b = b powi (?l + 1)"
      using b0 by (simp_all add: power_int_diff power_int_add)
    then show ?thesis using ih b0 unfolding e
      by (metis mult_le_cancel_right_pos mult_less_cancel_right_pos)
  next
    case 3
    have e: "ilog b x = 0" using 3 "1.prems" by (subst ilog.simps) auto
    show ?thesis using 3 unfolding e by simp
  qed
qed

lemma powi_less_cancel: "2 \<le> b \<Longrightarrow> (b::rat) powi i < b powi j \<Longrightarrow> i < j"
  by (metis leD linorder_not_less power_int_increasing one_le_numeral order_trans)

lemma ilog_mono: "2 \<le> b \<Longrightarrow> 0 < x \<Longrightarrow> x \<le> y \<Longrightarrow> ilog b x \<le> ilog b y"
proof -
  assume a: "2 \<le> b" "0 < x" "x \<le> y"
  have "b powi ilog b x \<le> x" "y < b powi (ilog b y + 1)"
    using ilog_bounds[of b x] ilog_bounds[of b y] a by auto
  then have "b powi ilog b x < b powi (ilog b y + 1)" using a by linarith
  then have "ilog b x < ilog b y + 1" by (rule powi_less_cancel[OF a(1)])
  then show ?thesis by simp
qed

lemma ilog_eqI: "2 \<le> b \<Longrightarrow> b powi e \<le> x \<Longrightarrow> x < b powi (e + 1) \<Longrightarrow> ilog b x = e"
proof -
  assume a: "2 \<le> b" "b powi e \<le> x" "x < b powi (e + 1)"
  have "0 < b powi e" using a by simp
  then have x: "0 < x" using a by linarith
  note l = ilog_bounds[OF a(1) x]
  have "b powi e < b powi (ilog b x + 1)" "b powi ilog b x < b powi (e + 1)" using a l by linarith+
  then have "e < ilog b x + 1" "ilog b x < e + 1" using powi_less_cancel[OF a(1)] by blast+
  then show ?thesis by simp
qed

lemma round_half_even_of_int [simp]: "round_half_even (of_int n) = n"
  by (simp add: round_half_even_def)

lemma round_half_even_error: "\<bar>of_int (round_half_even q) - q\<bar> \<le> 1 / 2"
  using floor_correct[of q] unfolding round_half_even_def Let_def by (auto simp: abs_le_iff)

lemma round_half_even_mono: "p \<le> q \<Longrightarrow> round_half_even p \<le> round_half_even q"
proof -
  assume pq: "p \<le> q"
  have ff: "\<lfloor>p\<rfloor> \<le> \<lfloor>q\<rfloor>" using pq by (rule floor_mono)
  show ?thesis
  proof (cases "\<lfloor>p\<rfloor> = \<lfloor>q\<rfloor>")
    case True
    with pq show ?thesis unfolding round_half_even_def Let_def by auto
  next
    case False
    with ff have "\<lfloor>p\<rfloor> + 1 \<le> \<lfloor>q\<rfloor>" by simp
    then show ?thesis unfolding round_half_even_def Let_def by auto
  qed
qed

lemma round_half_even_minus: "round_half_even (- q) = - round_half_even q"
proof (cases "q \<in> \<int>")
  case True
  then obtain n where "q = of_int n" by (auto elim: Ints_cases)
  then show ?thesis by (metis of_int_minus round_half_even_of_int)
next
  case False
  then have f: "\<lfloor>- q\<rfloor> = - \<lfloor>q\<rfloor> - 1"
    by (metis Ints_of_int ceiling_altdef floor_minus minus_add_distrib uminus_add_conv_diff add.commute)
  show ?thesis unfolding round_half_even_def Let_def f by auto
qed


text \<open>The exponent of the unit in the last place, and the nearest double.\<close>

definition ulp_exp :: "rat \<Rightarrow> int" where
  "ulp_exp x = max (ilog 2 \<bar>x\<bar> - 52) (- 1074)"

definition round_double :: "rat \<Rightarrow> rat" where
  "round_double x = (if x = 0 then 0
     else of_int (round_half_even (x / 2 powi ulp_exp x)) * 2 powi ulp_exp x)"

lemma ulp_exp_minus [simp]: "ulp_exp (- x) = ulp_exp x"
  by (simp add: ulp_exp_def)

lemma round_double_0 [simp]: "round_double 0 = 0"
  by (simp add: round_double_def)

lemma round_double_minus: "round_double (- x) = - round_double x"
  by (simp add: round_double_def round_half_even_minus)

lemma round_double_error: "\<bar>round_double x - x\<bar> \<le> 2 powi ulp_exp x / 2"
proof (cases "x = 0")
  case False
  let ?u = "2 powi ulp_exp x :: rat"
  have u: "0 < ?u" by simp
  have "round_double x - x = (of_int (round_half_even (x / ?u)) - x / ?u) * ?u"
    using False u by (simp add: round_double_def left_diff_distrib)
  then have "\<bar>round_double x - x\<bar> = \<bar>of_int (round_half_even (x / ?u)) - x / ?u\<bar> * ?u"
    using u by (simp add: abs_mult)
  also have "\<dots> \<le> 1 / 2 * ?u"
    by (rule mult_right_mono[OF round_half_even_error]) (use u in simp)
  finally show ?thesis by simp
qed simp

lemma scaled_bound:
  assumes "0 < x"
  shows "x < 2 powi (ulp_exp x + 53)"
proof -
  have "x < 2 powi (ilog 2 x + 1)" using ilog_bounds[of 2 x] assms by simp
  also have "\<dots> \<le> 2 powi (ulp_exp x + 53)"
    by (rule power_int_increasing) (use assms in \<open>auto simp: ulp_exp_def\<close>)
  finally show ?thesis .
qed

lemma powi_shift: "b \<noteq> 0 \<Longrightarrow> k \<le> e \<Longrightarrow> (b::rat) powi e = b ^ nat (e - k) * b powi k"
proof -
  assume "b \<noteq> 0" "k \<le> e"
  then have "b powi e = b powi (e - k) * b powi k" by (simp add: power_int_diff)
  also have "b powi (e - k) = b ^ nat (e - k)" using \<open>k \<le> e\<close> by (simp add: power_int_def)
  finally show ?thesis .
qed

lemma powi_split: "k \<le> e \<Longrightarrow> (2::rat) powi e = of_int (2 ^ nat (e - k)) * 2 powi k"
  using powi_shift[of 2 k e] by simp

lemma round_double_le_pow:
  assumes "0 < x" "x \<le> 2 powi e" "ulp_exp x \<le> e"
  shows "round_double x \<le> 2 powi e"
proof -
  let ?u = "2 powi ulp_exp x :: rat" and ?n = "2 ^ nat (e - ulp_exp x) :: int"
  have u: "0 < ?u" by simp
  have e: "(2::rat) powi e = of_int ?n * ?u" by (rule powi_split[OF assms(3)])
  have "x / ?u \<le> of_int ?n" using assms(2) u unfolding e by (simp add: pos_divide_le_eq)
  then have "round_half_even (x / ?u) \<le> ?n"
    by (metis round_half_even_mono round_half_even_of_int)
  then have "of_int (round_half_even (x / ?u)) * ?u \<le> of_int ?n * ?u"
    by (intro mult_right_mono) (simp_all only: of_int_le_iff, use u in simp)
  then show ?thesis using assms(1) unfolding round_double_def e by simp
qed

lemma round_double_ge_pow:
  assumes "0 < x" "2 powi e \<le> x" "ulp_exp x \<le> e"
  shows "2 powi e \<le> round_double x"
proof -
  let ?u = "2 powi ulp_exp x :: rat" and ?n = "2 ^ nat (e - ulp_exp x) :: int"
  have u: "0 < ?u" by simp
  have e: "(2::rat) powi e = of_int ?n * ?u" by (rule powi_split[OF assms(3)])
  have "of_int ?n \<le> x / ?u" using assms(2) u unfolding e by (simp add: pos_le_divide_eq)
  then have "?n \<le> round_half_even (x / ?u)"
    by (metis round_half_even_mono round_half_even_of_int)
  then have "of_int ?n * ?u \<le> of_int (round_half_even (x / ?u)) * ?u"
    by (intro mult_right_mono) (simp_all only: of_int_le_iff, use u in simp)
  then show ?thesis using assms(1) unfolding round_double_def e by simp
qed

lemma round_double_mono_pos:
  assumes "0 < x" "x \<le> y"
  shows "round_double x \<le> round_double y"
proof (cases "ulp_exp x = ulp_exp y")
  case True
  let ?u = "2 powi ulp_exp y :: rat"
  have "x / ?u \<le> y / ?u" using assms(2) by (intro divide_right_mono) auto
  then have "round_half_even (x / ?u) \<le> round_half_even (y / ?u)" by (rule round_half_even_mono)
  then show ?thesis using assms by (simp add: round_double_def True)
next
  case False
  have l: "ilog 2 x \<le> ilog 2 y" using assms by (intro ilog_mono) auto
  have y: "0 < y" using assms by simp
  have lt: "ulp_exp x < ulp_exp y" "ilog 2 x < ilog 2 y" "ulp_exp y \<le> ilog 2 y"
    using False l assms y by (auto simp: ulp_exp_def max_def split: if_splits)
  have "x \<le> 2 powi (ilog 2 x + 1)" using ilog_bounds[of 2 x] assms by auto
  also have "\<dots> \<le> 2 powi ilog 2 y" by (rule power_int_increasing) (use lt in auto)
  finally have "round_double x \<le> 2 powi ilog 2 y"
    using assms lt by (intro round_double_le_pow) auto
  also have "\<dots> \<le> round_double y"
    using y lt ilog_bounds[of 2 y] by (intro round_double_ge_pow) auto
  finally show ?thesis .
qed

lemma round_double_nonneg: "0 \<le> x \<Longrightarrow> 0 \<le> round_double x"
proof -
  assume "0 \<le> x"
  then have "(0::rat) \<le> x / 2 powi ulp_exp x" by simp
  then have "0 \<le> round_half_even (x / 2 powi ulp_exp x)"
    by (metis of_int_0 round_half_even_mono round_half_even_of_int)
  then show ?thesis by (simp add: round_double_def)
qed

lemma round_double_mono: "x \<le> y \<Longrightarrow> round_double x \<le> round_double y"
proof -
  assume xy: "x \<le> y"
  consider "0 < x" | "x \<le> 0" "0 \<le> y" | "y < 0" by linarith
  then show ?thesis
  proof cases
    case 1 then show ?thesis using xy by (rule round_double_mono_pos)
  next
    case 2
    have "0 \<le> round_double (- x)" "0 \<le> round_double y" using 2 by (auto intro: round_double_nonneg)
    then show ?thesis by (simp add: round_double_minus)
  next
    case 3
    then have "round_double (- y) \<le> round_double (- x)" using xy by (intro round_double_mono_pos) auto
    then show ?thesis by (simp add: round_double_minus)
  qed
qed

lemma round_double_grid:
  assumes "\<bar>m\<bar> < 2 ^ 53" "- 1074 \<le> e"
  shows "round_double (of_int m * 2 powi e) = of_int m * 2 powi e"
proof (cases "m = 0")
  case False
  let ?x = "of_int m * 2 powi e :: rat"
  have pos: "0 < \<bar>?x\<bar>" using False by simp
  have "\<bar>?x\<bar> < 2 ^ 53 * 2 powi e"
    using assms(1) by (simp add: abs_mult)
  also have "\<dots> = 2 powi (e + 53)" by (simp add: power_int_add)
  finally have "\<bar>?x\<bar> < 2 powi (e + 53)" .
  moreover have "2 powi ilog 2 \<bar>?x\<bar> \<le> \<bar>?x\<bar>" using ilog_bounds[of 2 "\<bar>?x\<bar>"] pos by simp
  ultimately have "ilog 2 \<bar>?x\<bar> < e + 53" by (intro powi_less_cancel[of 2]) auto
  then have u: "ulp_exp ?x \<le> e" using assms(2) by (simp add: ulp_exp_def)
  have "?x = of_int (m * 2 ^ nat (e - ulp_exp ?x)) * 2 powi ulp_exp ?x"
    by (subst powi_split[OF u]) simp
  then have q: "?x / 2 powi ulp_exp ?x = of_int (m * 2 ^ nat (e - ulp_exp ?x))"
    by (metis nonzero_mult_div_cancel_right power_int_not_zero zero_neq_numeral)
  show ?thesis
    unfolding round_double_def q round_half_even_of_int
    using \<open>?x = of_int (m * 2 ^ nat (e - ulp_exp ?x)) * 2 powi ulp_exp ?x\<close> False by simp
qed simp

lemma round_double_grid_le:
  assumes "\<bar>m\<bar> \<le> 2 ^ 53" "- 1074 \<le> e"
  shows "round_double (of_int m * 2 powi e) = of_int m * 2 powi e"
proof (cases "\<bar>m\<bar> = 2 ^ 53")
  case True
  then consider "m = 2 ^ 52 * 2" | "m = - (2 ^ 52) * 2" by (auto simp: abs_if split: if_splits)
  then obtain k :: int where k: "\<bar>k\<bar> < 2 ^ 53" "m = k * 2"
    by cases (auto intro: that[of "2 ^ 52"] that[of "- (2 ^ 52)"])
  have "of_int m * 2 powi e = of_int k * (2::rat) powi (e + 1)"
    by (simp add: k(2) power_int_add)
  then show ?thesis using round_double_grid[OF k(1), of "e + 1"] assms(2) by simp
qed (use assms round_double_grid in auto)

lemma round_double_idem [simp]: "round_double (round_double x) = round_double x"
proof (cases "x = 0")
  case False
  let ?u = "2 powi ulp_exp x :: rat" and ?m = "round_half_even (x / 2 powi ulp_exp x)"
  have u: "0 < ?u" by simp
  have "\<bar>x\<bar> < 2 ^ 53 * ?u"
    using scaled_bound[of "\<bar>x\<bar>"] False by (simp add: power_int_add ulp_exp_def mult.commute)
  then have "\<bar>x / ?u\<bar> < of_int (2 ^ 53)" using u by (simp add: pos_divide_less_eq)
  then have "x / ?u \<le> of_int (2 ^ 53)" "of_int (- (2 ^ 53)) \<le> x / ?u" by linarith+
  then have "?m \<le> 2 ^ 53" "- (2 ^ 53) \<le> ?m"
    by (metis round_half_even_mono round_half_even_of_int)+
  then have "round_double (of_int ?m * ?u) = of_int ?m * ?u"
    by (intro round_double_grid_le) (auto simp: ulp_exp_def)
  then show ?thesis using False by (simp add: round_double_def)
qed simp

lemma round_double_of_int: "\<bar>n\<bar> \<le> 2 ^ 53 \<Longrightarrow> round_double (of_int n) = of_int n"
  using round_double_grid_le[of n 0] by simp

lemma round_double_error_below:
  assumes "\<bar>x\<bar> < 2 powi e" "- 1021 \<le> e"
  shows "\<bar>round_double x - x\<bar> \<le> 2 powi (e - 54)"
proof (cases "x = 0")
  case False
  then have p: "0 < \<bar>x\<bar>" by simp
  have "2 powi ilog 2 \<bar>x\<bar> \<le> \<bar>x\<bar>" using ilog_bounds[of 2 "\<bar>x\<bar>"] p by simp
  also have "\<dots> < 2 powi e" by (rule assms(1))
  finally have "ilog 2 \<bar>x\<bar> < e" by (rule powi_less_cancel[rotated]) simp
  then have "ulp_exp x \<le> e - 53" using assms(2) by (simp add: ulp_exp_def)
  then have "(2::rat) powi ulp_exp x \<le> 2 powi (e - 54 + 1)" by (intro power_int_increasing) auto
  also have "\<dots> = 2 powi (e - 54) * 2" by (rule power_int_add_1) simp
  finally show ?thesis using round_double_error[of x] by simp
qed simp

lemma round_double_below: "round_double x < 2 powi e \<Longrightarrow> 0 \<le> e \<Longrightarrow> e \<le> 1000 \<Longrightarrow> x < 2 powi e"
proof (rule ccontr)
  assume a: "round_double x < 2 powi e" "0 \<le> e" "e \<le> 1000" "\<not> x < 2 powi e"
  have "round_double (of_int 1 * 2 powi e) = of_int 1 * 2 powi e"
    using a by (intro round_double_grid) auto
  moreover have "round_double (2 powi e) \<le> round_double x" using a by (intro round_double_mono) auto
  ultimately show False using a by simp
qed

section \<open>Decimal text\<close>

definition decimal_candidate :: "rat \<Rightarrow> rat \<Rightarrow> rat option" where
  "decimal_candidate step x =
    (let m = \<lfloor>x / step\<rfloor>; lo = of_int m * step; hi = of_int (m + 1) * step
     in if round_double lo = x \<and> (round_double hi \<noteq> x \<or> x - lo \<le> hi - x) then Some lo
        else if round_double hi = x then Some hi else None)"

fun shortest_decimal :: "nat \<Rightarrow> rat \<Rightarrow> rat \<Rightarrow> rat" where
  "shortest_decimal 0 step x = x"
| "shortest_decimal (Suc n) step x =
    (case decimal_candidate step x of Some d \<Rightarrow> d | None \<Rightarrow> shortest_decimal n (step / 10) x)"

definition decimal_string :: "rat \<Rightarrow> rat" where
  "decimal_string x = (if x = 0 then 0
     else if x < 0 then - shortest_decimal 17 (10 powi ilog 10 (- x)) (- x)
     else shortest_decimal 17 (10 powi ilog 10 x) x)"

lemma shortest_decimal_roundtrip:
  "round_double x = x \<Longrightarrow> round_double (shortest_decimal n step x) = x"
  by (induction n step x rule: shortest_decimal.induct)
     (auto simp: decimal_candidate_def Let_def split: option.splits if_splits)

lemma decimal_string_roundtrip: "round_double x = x \<Longrightarrow> round_double (decimal_string x) = x"
  by (auto simp: decimal_string_def round_double_minus shortest_decimal_roundtrip
      intro: shortest_decimal_roundtrip)


lemma round_double_abs_below:
  assumes "\<bar>round_double x\<bar> < 2 powi e" "0 \<le> e" "e \<le> 1000"
  shows "\<bar>x\<bar> < 2 powi e"
proof -
  have "round_double x < 2 powi e" "round_double (- x) < 2 powi e"
    using assms(1) by (auto simp: round_double_minus abs_less_iff)
  then have "x < 2 powi e" "- x < 2 powi e" using round_double_below assms(2,3) by blast+
  then show ?thesis by (simp add: abs_less_iff)
qed

lemma round_half_even_unique: "\<bar>q - of_int m\<bar> < 1 / 2 \<Longrightarrow> round_half_even q = m"
proof -
  assume "\<bar>q - of_int m\<bar> < 1 / 2"
  then have "\<bar>of_int (round_half_even q) - of_int m\<bar> < (1::rat)"
    using round_half_even_error[of q] by linarith
  then have "\<bar>round_half_even q - m\<bar> < 1" by linarith
  then show ?thesis by simp
qed

lemma floor_or_ceiling:
  fixes x step :: rat
  assumes "0 < step" "\<bar>x - of_int m * step\<bar> < step"
  shows "m = \<lfloor>x / step\<rfloor> \<or> m = \<lfloor>x / step\<rfloor> + 1"
proof -
  have "x - of_int m * step = (x / step - of_int m) * step"
    using assms(1) by (simp add: left_diff_distrib)
  then have "\<bar>x / step - of_int m\<bar> * step < 1 * step"
    using assms by (simp add: abs_mult)
  then have "\<bar>x / step - of_int m\<bar> < 1" using assms(1) by (simp only: mult_less_cancel_right_pos)
  then show ?thesis by linarith
qed

lemma decimal_candidate_Some:
  "decimal_candidate step x = Some d \<Longrightarrow> round_double d = x \<and> (\<exists>m. d = of_int m * step)"
  unfolding decimal_candidate_def Let_def by (metis option.distinct(1) option.inject)

lemma decimal_candidate_None:
  assumes "decimal_candidate step x = None" "0 < step" "\<bar>x - of_int m * step\<bar> < step"
  shows "round_double (of_int m * step) \<noteq> x"
proof -
  have "round_double (of_int \<lfloor>x / step\<rfloor> * step) \<noteq> x" "round_double (of_int (\<lfloor>x / step\<rfloor> + 1) * step) \<noteq> x"
    using assms(1) unfolding decimal_candidate_def Let_def by (metis option.distinct(1))+
  then show ?thesis using floor_or_ceiling[OF assms(2,3)] by metis
qed

lemma shortest_decimal_unique:
  assumes "round_double (of_int m * 10 powi g) = x"
    and near: "\<bar>x - of_int m * 10 powi g\<bar> < 10 powi g"
    and only: "\<And>m'. round_double (of_int m' * 10 powi g) = x \<Longrightarrow> m' = m"
    and "g \<le> e" "nat (e - g) < n"
  shows "shortest_decimal n (10 powi e) x = of_int m * 10 powi g"
  using assms(4,5)
proof (induction n arbitrary: e)
  case 0
  then show ?case by simp
next
  case (Suc n)
  show ?case
  proof (cases "decimal_candidate (10 powi e) x")
    case None
    have "e \<noteq> g" using decimal_candidate_None[OF None, of m] near assms(1) by auto
    then have "shortest_decimal n (10 powi (e - 1)) x = of_int m * 10 powi g"
      using Suc.prems by (intro Suc.IH) auto
    moreover have "(10::rat) powi e / 10 = 10 powi (e - 1)" by (simp add: power_int_diff)
    ultimately show ?thesis using None by simp
  next
    case (Some d)
    then obtain k where d: "round_double d = x" "d = of_int k * 10 powi e"
      using decimal_candidate_Some by blast
    have "(10::rat) powi e = 10 ^ nat (e - g) * 10 powi g"
      using Suc.prems(1) by (intro powi_shift) auto
    then have "d = of_int (k * 10 ^ nat (e - g)) * 10 powi g" using d(2) by simp
    then have "k * 10 ^ nat (e - g) = m" using only d(1) by metis
    then show ?thesis using Some \<open>d = of_int (k * 10 ^ nat (e - g)) * 10 powi g\<close> by simp
  qed
qed


lemma round_cent_ge: "1 / 100 \<le> round_double (1 / 100)"
proof -
  have l: "ilog 2 (1 / 100) = - 7" by (rule ilog_eqI) (simp_all add: power_int_minus)
  have "round_half_even (1 / 100 / 2 powi (- 59)) = 5764607523034235"
    by (rule round_half_even_unique) (simp add: power_int_minus)
  then show ?thesis by (simp add: round_double_def ulp_exp_def l power_int_minus)
qed

section \<open>Cent amounts\<close>

lemma abs_chain: "\<bar>x - y\<bar> \<le> e \<Longrightarrow> \<bar>y - z\<bar> \<le> f \<Longrightarrow> \<bar>x - z\<bar> \<le> e + (f::rat)"
  by linarith

lemma power_44: "(2::rat) powi 44 = 17592186044416"
  by simp

lemma cents_near:
  assumes "\<bar>k\<bar> \<le> 10 ^ 15"
  shows "\<bar>round_double (of_int k / 100) - of_int k / 100\<bar> \<le> 1 / 1024"
proof -
  have "\<bar>of_int k / 100\<bar> \<le> (10000000000000 :: rat)" using assms by (simp add: abs_le_iff)
  then have "\<bar>of_int k / 100\<bar> < (2::rat) powi 44" by simp
  from round_double_error_below[OF this] show ?thesis by (simp add: power_int_minus)
qed

lemma cents_unique:
  assumes "0 \<le> k" "k \<le> 10 ^ 15" "round_double (of_int m / 100) = round_double (of_int k / 100)"
  shows "m = k"
proof -
  have k: "of_int k / 100 \<le> (10000000000000 :: rat)" using assms(2) by simp
  have nn: "0 \<le> round_double (of_int k / 100)" using assms(1) by (intro round_double_nonneg) auto
  have "\<bar>round_double (of_int k / 100) - of_int k / 100\<bar> \<le> 1 / 1024" using assms by (intro cents_near) auto
  moreover have "\<bar>round_double (of_int m / 100) - of_int m / 100\<bar> \<le> 2 powi (44 - 54)"
  proof (rule round_double_error_below)
    have "\<bar>round_double (of_int m / 100)\<bar> < (2::rat) powi 44"
      using calculation k nn
      unfolding assms(3) abs_le_iff power_44 by linarith
    then show "\<bar>of_int m / 100\<bar> < (2::rat) powi 44" by (rule round_double_abs_below) auto
  qed simp
  then have "\<bar>of_int m / 100 - round_double (of_int k / 100)\<bar> \<le> 1 / 1024"
    by (simp add: assms(3) power_int_minus abs_minus_commute)
  ultimately have "\<bar>of_int m / 100 - of_int k / 100\<bar> \<le> (1 / 1024 + 1 / 1024 :: rat)"
    by (blast intro: abs_chain)
  then have "\<bar>of_int (m - k)\<bar> < (1::rat)" unfolding of_int_diff abs_le_iff abs_less_iff by linarith
  then show ?thesis by linarith
qed

lemma decimal_string_cents:
  assumes "0 \<le> k" "k \<le> 10 ^ 15"
  shows "decimal_string (round_double (of_int k / 100)) = of_int k / 100"
proof (cases "k = 0")
  case False
  let ?x = "round_double (of_int k / 100)"
  have near: "\<bar>?x - of_int k / 100\<bar> \<le> 1 / 1024" using assms by (intro cents_near) auto
  have "1 / 100 \<le> (of_int k / 100 :: rat)" using False assms by simp
  then have x: "1 / 100 \<le> ?x" using round_cent_ge round_double_mono by (meson order_trans)
  have k: "of_int k / 100 \<le> (10000000000000 :: rat)" using assms(2) by simp
  have b: "10 powi ilog 10 ?x \<le> ?x" "?x < 10 powi (ilog 10 ?x + 1)"
    using ilog_bounds[of 10 ?x] x by auto
  have "(10::rat) powi (- 2) < 10 powi (ilog 10 ?x + 1)" using b x by (simp add: power_int_minus)
  then have lo: "- 2 \<le> ilog 10 ?x" using powi_less_cancel[of 10] by fastforce
  have "?x < 100000000000000" using near k unfolding abs_le_iff by linarith
  then have "?x < 10 powi 14" by simp
  then have "(10::rat) powi (ilog 10 ?x) < 10 powi 14" using b by linarith
  then have hi: "ilog 10 ?x < 14" by (rule powi_less_cancel[rotated]) simp
  have "shortest_decimal 17 (10 powi ilog 10 ?x) ?x = of_int k * 10 powi (- 2)"
    by (rule shortest_decimal_unique)
       (use lo hi near cents_unique[OF assms] in \<open>auto simp: power_int_minus field_simps\<close>)
  then show ?thesis using x by (simp add: decimal_string_def power_int_minus)
qed (simp add: decimal_string_def)

lemma cents_arithmetic:
  assumes "round_double x = x" "round_double y = y" "\<bar>x - of_int j / 100\<bar> \<le> 1 / 1024" "\<bar>y - of_int k / 100\<bar> \<le> 1 / 1024"
    "0 \<le> j + k" "j + k \<le> 10 ^ 15 - 10"
  shows "\<bar>decimal_string (round_double (x + y)) - of_int (j + k) / 100\<bar> < 1 / 200"
proof -
  let ?s = "round_double (x + y)"
  have jk: "0 \<le> (of_int (j + k) / 100 :: rat)" "of_int (j + k) / 100 < (10000000000000 :: rat)"
    using assms(5,6) unfolding of_int_add[symmetric] by simp_all
  have sum: "\<bar>x + y - of_int (j + k) / 100\<bar> \<le> 2 / 1024" using assms(3,4) unfolding of_int_add add_divide_distrib abs_le_iff by linarith
  have "\<bar>x + y\<bar> < 2 powi 44" using sum jk unfolding abs_le_iff abs_less_iff power_44 by linarith
  then have e1: "\<bar>?s - (x + y)\<bar> \<le> 1 / 1024"
    using round_double_error_below[of "x + y" 44] by (simp add: power_int_minus)
  have rt: "round_double (decimal_string ?s) = ?s" by (rule decimal_string_roundtrip) simp
  have total: "\<bar>?s - of_int (j + k) / 100\<bar> \<le> 1 / 1024 + 2 / 1024" by (rule abs_chain[OF e1 sum])
  then have "\<bar>?s\<bar> < 2 powi 44" using jk unfolding abs_le_iff abs_less_iff power_44 by linarith
  then have "\<bar>decimal_string ?s\<bar> < 2 powi 44"
    using round_double_abs_below[of "decimal_string ?s" 44] rt by simp
  then have "\<bar>decimal_string ?s - ?s\<bar> \<le> 1 / 1024"
    using round_double_error_below[of "decimal_string ?s" 44] rt by (simp add: power_int_minus abs_minus_commute)
  then have "\<bar>decimal_string ?s - of_int (j + k) / 100\<bar> \<le> 1 / 1024 + (1 / 1024 + 2 / 1024)"
    using total by (rule abs_chain)
  then show ?thesis by simp
qed

section \<open>Numbers and their operators\<close>

datatype number = Fin rat | PosInf | NegInf | NaN

definition to_number :: "rat \<Rightarrow> number" where
  "to_number x = (let r = round_double x in
     if 2 ^ 1024 \<le> r then PosInf else if r \<le> - (2 ^ 1024) then NegInf else Fin r)"

fun js_add :: "number \<Rightarrow> number \<Rightarrow> number" where
  "js_add NaN b = NaN"
| "js_add a NaN = NaN"
| "js_add PosInf NegInf = NaN"
| "js_add NegInf PosInf = NaN"
| "js_add PosInf b = PosInf"
| "js_add a PosInf = PosInf"
| "js_add NegInf b = NegInf"
| "js_add a NegInf = NegInf"
| "js_add (Fin x) (Fin y) = to_number (x + y)"

fun js_neg :: "number \<Rightarrow> number" where
  "js_neg NaN = NaN"
| "js_neg PosInf = NegInf"
| "js_neg NegInf = PosInf"
| "js_neg (Fin x) = Fin (- x)"

definition js_sub :: "number \<Rightarrow> number \<Rightarrow> number" where
  "js_sub a b = js_add a (js_neg b)"

text \<open>Every comparison with NaN is false, also \<open>NaN === NaN\<close>.\<close>

fun js_less :: "number \<Rightarrow> number \<Rightarrow> bool" where
  "js_less NaN b = False"
| "js_less a NaN = False"
| "js_less PosInf b = False"
| "js_less a PosInf = True"
| "js_less a NegInf = False"
| "js_less NegInf b = True"
| "js_less (Fin x) (Fin y) = (x < y)"

definition js_equal :: "number \<Rightarrow> number \<Rightarrow> bool" where
  "js_equal a b \<longleftrightarrow> a \<noteq> NaN \<and> a = b"

definition js_less_eq :: "number \<Rightarrow> number \<Rightarrow> bool" where
  "js_less_eq a b \<longleftrightarrow> js_less a b \<or> js_equal a b"

text \<open>A number is falsy when it is zero or NaN.\<close>

definition js_truthy :: "number \<Rightarrow> bool" where
  "js_truthy a \<longleftrightarrow> a \<noteq> Fin 0 \<and> a \<noteq> NaN"

text \<open>The finite values a variable of the program can hold, and the values that are not negative.\<close>

fun is_double :: "number \<Rightarrow> bool" where
  "is_double (Fin x) \<longleftrightarrow> round_double x = x \<and> \<bar>x\<bar> < 2 ^ 1024"
| "is_double _ \<longleftrightarrow> True"

fun nonneg :: "number \<Rightarrow> bool" where
  "nonneg (Fin x) \<longleftrightarrow> 0 \<le> x"
| "nonneg PosInf \<longleftrightarrow> True"
| "nonneg _ \<longleftrightarrow> False"

lemma js_less_eq_Fin [simp]: "js_less_eq (Fin x) (Fin y) \<longleftrightarrow> x \<le> y"
  by (auto simp: js_less_eq_def js_equal_def)

lemma js_sub_Fin [simp]: "js_sub (Fin x) (Fin y) = to_number (x - y)"
  by (simp add: js_sub_def)

lemma js_compare_NaN [simp]:
  "\<not> js_less_eq NaN b" "\<not> js_less_eq a NaN" "\<not> js_less a NaN" "js_sub NaN b = NaN" "js_add a NaN = NaN"
  by (cases a; simp add: js_less_eq_def js_equal_def js_sub_def; cases a; simp)+

lemma to_number_nonneg: "0 \<le> x \<Longrightarrow> nonneg (to_number x)"
proof -
  assume "0 \<le> x"
  then have "0 \<le> round_double x" by (rule round_double_nonneg)
  moreover have "- (2 ^ 1024) < (0::rat)" by simp
  ultimately have "\<not> round_double x \<le> - (2 ^ 1024)" by linarith
  then show ?thesis using \<open>0 \<le> round_double x\<close> by (simp add: to_number_def Let_def)
qed

lemma to_number_is_double: "is_double (to_number x)"
  by (auto simp: to_number_def Let_def abs_less_iff)

lemma to_number_double: "round_double x = x \<Longrightarrow> \<bar>x\<bar> < 2 ^ 1024 \<Longrightarrow> to_number x = Fin x"
  by (auto simp: to_number_def Let_def abs_less_iff)

lemma to_number_small: "\<bar>x\<bar> < 2 powi 44 \<Longrightarrow> to_number x = Fin (round_double x)"
proof -
  assume x: "\<bar>x\<bar> < 2 powi 44"
  have "\<bar>round_double x - x\<bar> \<le> 2 powi (44 - 54)" by (rule round_double_error_below[OF x]) simp
  then have "\<bar>round_double x - 0\<bar> \<le> 1 / 1024 + 2 powi 44"
    using x by (intro abs_chain[where y = x]) (auto simp: power_int_minus)
  moreover have "1 / 1024 + 2 powi 44 < (2 ^ 1024 :: rat)" by simp
  ultimately have "\<bar>round_double x\<bar> < 2 ^ 1024" by simp
  then show ?thesis by (auto simp: to_number_def Let_def abs_less_iff)
qed

lemma js_add_nonneg: "nonneg a \<Longrightarrow> nonneg b \<Longrightarrow> nonneg (js_add a b)"
  by (cases a; cases b) (auto intro: to_number_nonneg)

lemma js_sub_nonneg: "nonneg a \<Longrightarrow> \<not> js_less a (Fin y) \<Longrightarrow> nonneg (js_sub a (Fin y))"
  by (cases a) (auto simp: js_sub_def intro: to_number_nonneg)

end
