(* ===== verification/JsText.thy ===== *)
theory JsText imports JsNumber
begin

text \<open>
  Printing numbers: \<open>String(x)\<close> (also what a template literal does) and \<open>x.toFixed(2)\<close>,
  which the error messages of the wallet domain use and the saga stores as failure reasons.
\<close>

fun nat_text :: "nat \<Rightarrow> string" where
  "nat_text n = (if n < 10 then [''0123456789'' ! n]
     else nat_text (n div 10) @ [''0123456789'' ! (n mod 10)])"

declare nat_text.simps [simp del]

lemma nat_text_digit [simp]: "n < 10 \<Longrightarrow> nat_text n = [''0123456789'' ! n]"
  by (subst nat_text.simps) simp

lemma nat_text_digits [simp]:
  "10 \<le> n \<Longrightarrow> nat_text n = nat_text (n div 10) @ [''0123456789'' ! (n mod 10)]"
  by (subst nat_text.simps) simp

lemma nat_text_nonempty [simp]: "nat_text n \<noteq> []"
  by (cases "n < 10") simp_all

lemma nat_text_set: "set (nat_text n) \<subseteq> set ''0123456789''"
proof (induction n rule: nat_text.induct)
  case (1 n)
  have d: "k < 10 \<Longrightarrow> ''0123456789'' ! k \<in> set ''0123456789''" for k by (rule nth_mem) simp
  have one: "x \<in> S \<Longrightarrow> set [x] \<subseteq> S" for x and S :: "char set" by simp
  show ?case
  proof (cases "n < 10")
    case True
    show ?thesis unfolding nat_text_digit[OF True] by (rule one[OF d[OF True]])
  next
    case False
    then have e: "nat_text n = nat_text (n div 10) @ [''0123456789'' ! (n mod 10)]" by simp
    have "set (nat_text (n div 10)) \<subseteq> set ''0123456789''" using 1 False by blast
    then show ?thesis unfolding e set_append using one[OF d[of "n mod 10"]] by (metis Un_least mod_less_divisor zero_less_numeral)
  qed
qed

text \<open>Reading the digits from the left gives the number back, however a digit is read.\<close>

lemma nat_text_value:
  assumes "\<And>k. k < 10 \<Longrightarrow> val (''0123456789'' ! k) = k"
  shows "foldl (\<lambda>v c. 10 * v + val c) 0 (nat_text n) = n"
proof (induction n rule: nat_text.induct)
  case (1 n)
  then show ?case using assms by (cases "n < 10") simp_all
qed

definition two_digits :: "nat \<Rightarrow> string" where
  "two_digits n = [''0123456789'' ! (n div 10 mod 10), ''0123456789'' ! (n mod 10)]"

text \<open>
  The significand and its number of digits: the fewest digits whose value is the decimal text's.
\<close>

fun significand :: "nat \<Rightarrow> nat \<Rightarrow> rat \<Rightarrow> nat \<times> nat" where
  "significand 0 k m = (nat \<lfloor>m\<rfloor>, k)"
| "significand (Suc fuel) k m =
     (if m = of_int \<lfloor>m\<rfloor> then (nat \<lfloor>m\<rfloor>, k) else significand fuel (k + 1) (m * 10))"

definition positive_text :: "rat \<Rightarrow> string" where
  "positive_text x =
    (let d = decimal_string x; n = ilog 10 d + 1;
         (s, k) = significand 20 1 (d / 10 powi (n - 1)); digits = nat_text s
     in if int k \<le> n \<and> n \<le> 21 then digits @ replicate (nat (n - int k)) CHR ''0''
        else if 0 < n \<and> n \<le> 21 then take (nat n) digits @ ''.'' @ drop (nat n) digits
        else if - 6 < n \<and> n \<le> 0 then ''0.'' @ replicate (nat (- n)) CHR ''0'' @ digits
        else take 1 digits @ (if k = 1 then [] else ''.'' @ drop 1 digits) @ ''e'' @
          (if n - 1 < 0 then ''-'' else ''+'') @ nat_text (nat \<bar>n - 1\<bar>))"

fun number_text :: "number \<Rightarrow> string" where
  "number_text NaN = ''NaN''"
| "number_text PosInf = ''Infinity''"
| "number_text NegInf = ''-Infinity''"
| "number_text (Fin x) = (if x = 0 then ''0''
     else if x < 0 then ''-'' @ positive_text (- x) else positive_text x)"

text \<open>
  \<open>toFixed(2)\<close>: the integer number of hundredths nearest to the exact value, the larger of
  two equally near ones; a value of at least \<open>10^21\<close> prints as \<open>String\<close> does.
\<close>

fun to_fixed2 :: "number \<Rightarrow> string" where
  "to_fixed2 (Fin x) =
    (if 10 ^ 21 \<le> \<bar>x\<bar> then number_text (Fin x)
     else let n = nat \<lfloor>100 * \<bar>x\<bar> + 1 / 2\<rfloor>
       in (if x < 0 then ''-'' else []) @ nat_text (n div 100) @ ''.'' @ two_digits (n mod 100))"
| "to_fixed2 x = number_text x"

lemma to_fixed2_example: "to_fixed2 (Fin (12345 / 100)) = ''123.45''"
  by (simp add: Let_def two_digits_def)

end
