(* ===== verification/DomainExceptions.thy ===== *)
theory DomainExceptions imports JsText
begin

text \<open>
  The errors a handler can end with: the domain exceptions of
  \<open>src/domain/exceptions\<close>, the framework's HTTP exceptions, \<open>new Error(message)\<close>, and
  what a driver or a service throws (\<open>DriverError\<close>: the fields \<open>code\<close>, \<open>name\<close> and
  \<open>message\<close> the code looks at).
\<close>

datatype error =
    InsufficientFundsError number number
  | WalletNotActiveError string
  | WithdrawalLimitExceededError number number
  | InvalidAmountError number string
  | WalletClosedError
  | NonZeroBalanceError number
  | CurrencyMismatchError string string string string
  | NotFoundException string
  | BadRequestException string
  | ConflictException string
  | PlainError string
  | DriverError string string string

definition currency_mismatch_message :: "string \<Rightarrow> string \<Rightarrow> string \<Rightarrow> string \<Rightarrow> string" where
  "currency_mismatch_message fromCurrency toCurrency fromWalletId toWalletId =
     ''Currency mismatch: Cannot transfer from '' @ fromCurrency @ '' wallet ('' @ fromWalletId @
     '') to '' @ toCurrency @ '' wallet ('' @ toWalletId @ ''). '' @
     ''Cross-currency transfers are not supported.''"

fun error_message :: "error \<Rightarrow> string" where
  "error_message (InsufficientFundsError currentBalance requestedAmount) =
     ''Insufficient funds: balance='' @ to_fixed2 currentBalance @ '', requested='' @ to_fixed2 requestedAmount"
| "error_message (WalletNotActiveError currentStatus) =
     ''Wallet is not active. Current status: '' @ currentStatus"
| "error_message (WithdrawalLimitExceededError requestedAmount dailyLimit) =
     ''Withdrawal limit exceeded: requested='' @ to_fixed2 requestedAmount @ '', daily limit='' @ to_fixed2 dailyLimit"
| "error_message (InvalidAmountError amount operation) =
     operation @ '' amount must be positive, got: '' @ number_text amount"
| "error_message WalletClosedError = ''Cannot perform operations on a closed wallet''"
| "error_message (NonZeroBalanceError balance) =
     ''Cannot close wallet with non-zero balance: '' @ to_fixed2 balance"
| "error_message (CurrencyMismatchError fromCurrency toCurrency fromWalletId toWalletId) =
     currency_mismatch_message fromCurrency toCurrency fromWalletId toWalletId"
| "error_message (NotFoundException m) = m"
| "error_message (BadRequestException m) = m"
| "error_message (ConflictException m) = m"
| "error_message (PlainError m) = m"
| "error_message (DriverError c n m) = m"

text \<open>\<open>instanceof DomainException\<close>: what \<open>WalletExceptionFilter\<close> catches.\<close>

fun is_domain_exception :: "error \<Rightarrow> bool" where
  "is_domain_exception (InsufficientFundsError b r) = True"
| "is_domain_exception (WalletNotActiveError s) = True"
| "is_domain_exception (WithdrawalLimitExceededError r l) = True"
| "is_domain_exception (InvalidAmountError a p) = True"
| "is_domain_exception WalletClosedError = True"
| "is_domain_exception (NonZeroBalanceError b) = True"
| "is_domain_exception (CurrencyMismatchError a b c d) = True"
| "is_domain_exception _ = False"

end
