(* ===== verification/Wallet.thy ===== *)
theory Wallet imports Prelude DomainExceptions
begin

text \<open>
  The wallet entity, \<open>src/modules/wallet/entities/wallet.entity.ts\<close>. The entity is a
  mutable object: each method is a program whose state is the object, so what a method changed
  before it threw is part of its result. \<open>new Date()\<close> is an argument (milliseconds since the
  epoch); \<open>wallet_withdraw\<close> takes the two readings the source makes.

  The invariant of the entity is that its balance is never negative, whatever the order of the
  operations; the lemmas after it describe the daily limit, the status and \<open>canDebit\<close>.
\<close>

section \<open>State\<close>

datatype wallet_status = ACTIVE | FROZEN | CLOSED

fun status_text :: "wallet_status \<Rightarrow> string" where
  "status_text ACTIVE = ''ACTIVE''"
| "status_text FROZEN = ''FROZEN''"
| "status_text CLOSED = ''CLOSED''"

text \<open>
  \<open>lastWithdrawalDate\<close> is null, a \<open>Date\<close> (after a withdrawal on this object) or a text
  \<open>YYYY-MM-DD\<close> (as the \<open>date\<close> column is read). The text is represented by its day number.
\<close>

datatype js_date = NoDate | DateObject int | DateText int

record wallet =
  wallet_id :: string
  balance :: number
  currency :: string
  status :: wallet_status
  dailyWithdrawalLimit :: "number option"
  dailyWithdrawalTotal :: number
  lastWithdrawalDate :: js_date
  version :: int
  createdAt :: "int option"
  updatedAt :: "int option"

definition new_wallet :: "string \<Rightarrow> string \<Rightarrow> wallet" where
  "new_wallet i cur = \<lparr>wallet_id = i, balance = Fin 0, currency = cur, status = ACTIVE,
     dailyWithdrawalLimit = None, dailyWithdrawalTotal = Fin 0, lastWithdrawalDate = NoDate,
     version = 0, createdAt = None, updatedAt = None\<rparr>"

section \<open>Operations\<close>

definition ensureWalletActive :: "(wallet, error, unit) program" where
  "ensureWalletActive = await get_state (\<lambda>w.
     if status w \<noteq> ACTIVE then throw (WalletNotActiveError (status_text (status w))) else ret ())"

definition validatePositiveAmount :: "number \<Rightarrow> string \<Rightarrow> (wallet, error, unit) program" where
  "validatePositiveAmount amount operation =
     (if js_less_eq amount (Fin 0) then throw (InvalidAmountError amount operation) else ret ())"

definition ms_per_day :: int where
  "ms_per_day = 24 * 60 * 60 * 1000"

text \<open>\<open>toISOString().split('T')[0]\<close>: the UTC day.\<close>

definition getTodayDate :: "int \<Rightarrow> int" where
  "getTodayDate now = now div ms_per_day"

fun last_date :: "js_date \<Rightarrow> int option" where
  "last_date (DateObject t) = Some (getTodayDate t)"
| "last_date (DateText d) = Some d"
| "last_date NoDate = None"

definition resetDailyLimitIfNewDay :: "int \<Rightarrow> (wallet, error, unit) program" where
  "resetDailyLimitIfNewDay now = modify (\<lambda>w.
     if last_date (lastWithdrawalDate w) \<noteq> Some (getTodayDate now)
     then w\<lparr>dailyWithdrawalTotal := Fin 0\<rparr> else w)"

definition validateDailyLimit :: "number \<Rightarrow> (wallet, error, unit) program" where
  "validateDailyLimit amount = await get_state (\<lambda>w.
     case dailyWithdrawalLimit w of
       None \<Rightarrow> ret ()
     | Some limit \<Rightarrow>
         let totalAfterWithdrawal = js_add (dailyWithdrawalTotal w) amount in
         if js_less limit totalAfterWithdrawal
         then throw (WithdrawalLimitExceededError amount limit) else ret ())"

definition trackWithdrawal :: "int \<Rightarrow> number \<Rightarrow> (wallet, error, unit) program" where
  "trackWithdrawal now amount = modify (\<lambda>w.
     w\<lparr>dailyWithdrawalTotal := js_add (dailyWithdrawalTotal w) amount,
       lastWithdrawalDate := DateObject now\<rparr>)"

definition wallet_deposit :: "number \<Rightarrow> (wallet, error, unit) program" where
  "wallet_deposit amount =
     await (validatePositiveAmount amount ''Deposit'') (\<lambda>_.
     await ensureWalletActive (\<lambda>_.
     modify (\<lambda>w. w\<lparr>balance := js_add (balance w) amount\<rparr>)))"

definition wallet_withdraw :: "int \<Rightarrow> int \<Rightarrow> number \<Rightarrow> (wallet, error, unit) program" where
  "wallet_withdraw today now amount =
     await (validatePositiveAmount amount ''Withdrawal'') (\<lambda>_.
     await ensureWalletActive (\<lambda>_.
     await (resetDailyLimitIfNewDay today) (\<lambda>_.
     await (validateDailyLimit amount) (\<lambda>_.
     await get_state (\<lambda>w.
     if js_less (balance w) amount then throw (InsufficientFundsError (balance w) amount)
     else await (modify (\<lambda>w. w\<lparr>balance := js_sub (balance w) amount\<rparr>)) (\<lambda>_.
          trackWithdrawal now amount))))))"

definition wallet_credit :: "number \<Rightarrow> (wallet, error, unit) program" where
  "wallet_credit amount =
     await (validatePositiveAmount amount ''Credit'') (\<lambda>_.
     await ensureWalletActive (\<lambda>_.
     modify (\<lambda>w. w\<lparr>balance := js_add (balance w) amount\<rparr>)))"

definition canDebit :: "number \<Rightarrow> wallet \<Rightarrow> bool" where
  "canDebit amount w \<longleftrightarrow>
     status w = ACTIVE \<and> js_less_eq amount (balance w) \<and> js_less (Fin 0) amount \<and>
     (case dailyWithdrawalLimit w of None \<Rightarrow> True | Some limit \<Rightarrow> js_less_eq amount limit)"

definition wallet_freeze :: "(wallet, error, unit) program" where
  "wallet_freeze = await get_state (\<lambda>w.
     if status w = CLOSED then throw WalletClosedError
     else modify (\<lambda>w. w\<lparr>status := FROZEN\<rparr>))"

definition wallet_unfreeze :: "(wallet, error, unit) program" where
  "wallet_unfreeze = modify (\<lambda>w. if status w = FROZEN then w\<lparr>status := ACTIVE\<rparr> else w)"

definition wallet_close :: "(wallet, error, unit) program" where
  "wallet_close = await get_state (\<lambda>w.
     if \<not> js_equal (balance w) (Fin 0) then throw (NonZeroBalanceError (balance w))
     else modify (\<lambda>w. w\<lparr>status := CLOSED\<rparr>))"

definition wallet_setDailyWithdrawalLimit :: "number option \<Rightarrow> (wallet, error, unit) program" where
  "wallet_setDailyWithdrawalLimit limit =
     (case limit of
        Some l \<Rightarrow> if js_less_eq l (Fin 0) then throw (InvalidAmountError l ''Daily withdrawal limit'')
          else modify (\<lambda>w. w\<lparr>dailyWithdrawalLimit := Some l\<rparr>)
      | None \<Rightarrow> modify (\<lambda>w. w\<lparr>dailyWithdrawalLimit := None\<rparr>))"

definition isActive :: "wallet \<Rightarrow> bool" where
  "isActive w \<longleftrightarrow> status w = ACTIVE"

section \<open>Running an operation\<close>

abbreviation on_day :: "int \<Rightarrow> wallet \<Rightarrow> wallet" where
  "on_day today w \<equiv> (if last_date (lastWithdrawalDate w) \<noteq> Some (getTodayDate today)
     then w\<lparr>dailyWithdrawalTotal := Fin 0\<rparr> else w)"

lemma wallet_deposit_run [run_simps]:
  "wallet_deposit a w =
     (if js_less_eq a (Fin 0) then (Throw (InvalidAmountError a ''Deposit''), w)
      else if status w \<noteq> ACTIVE then (Throw (WalletNotActiveError (status_text (status w))), w)
      else (Ok (), w\<lparr>balance := js_add (balance w) a\<rparr>))"
  by (simp add: wallet_deposit_def validatePositiveAmount_def ensureWalletActive_def
      await_def ret_def throw_def get_state_def modify_def)

lemma wallet_credit_run [run_simps]:
  "wallet_credit a w =
     (if js_less_eq a (Fin 0) then (Throw (InvalidAmountError a ''Credit''), w)
      else if status w \<noteq> ACTIVE then (Throw (WalletNotActiveError (status_text (status w))), w)
      else (Ok (), w\<lparr>balance := js_add (balance w) a\<rparr>))"
  by (simp add: wallet_credit_def validatePositiveAmount_def ensureWalletActive_def
      await_def ret_def throw_def get_state_def modify_def)

lemma wallet_withdraw_run [run_simps]:
  "wallet_withdraw t n a w =
     (if js_less_eq a (Fin 0) then (Throw (InvalidAmountError a ''Withdrawal''), w)
      else if status w \<noteq> ACTIVE then (Throw (WalletNotActiveError (status_text (status w))), w)
      else case dailyWithdrawalLimit w of
        Some l \<Rightarrow> if js_less l (js_add (dailyWithdrawalTotal (on_day t w)) a)
          then (Throw (WithdrawalLimitExceededError a l), on_day t w)
          else if js_less (balance w) a
          then (Throw (InsufficientFundsError (balance w) a), on_day t w)
          else (Ok (), (on_day t w)\<lparr>balance := js_sub (balance w) a,
             dailyWithdrawalTotal := js_add (dailyWithdrawalTotal (on_day t w)) a,
             lastWithdrawalDate := DateObject n\<rparr>)
      | None \<Rightarrow> if js_less (balance w) a
          then (Throw (InsufficientFundsError (balance w) a), on_day t w)
          else (Ok (), (on_day t w)\<lparr>balance := js_sub (balance w) a,
             dailyWithdrawalTotal := js_add (dailyWithdrawalTotal (on_day t w)) a,
             lastWithdrawalDate := DateObject n\<rparr>))"
  by (simp add: wallet_withdraw_def validatePositiveAmount_def ensureWalletActive_def
      resetDailyLimitIfNewDay_def validateDailyLimit_def trackWithdrawal_def Let_def
      await_def ret_def throw_def get_state_def modify_def split: option.split)

lemma wallet_freeze_run [run_simps]:
  "wallet_freeze w = (if status w = CLOSED then (Throw WalletClosedError, w)
     else (Ok (), w\<lparr>status := FROZEN\<rparr>))"
  by (simp add: wallet_freeze_def await_def throw_def get_state_def modify_def)

lemma wallet_unfreeze_run [run_simps]:
  "wallet_unfreeze w = (Ok (), if status w = FROZEN then w\<lparr>status := ACTIVE\<rparr> else w)"
  by (simp add: wallet_unfreeze_def modify_def)

lemma wallet_close_run [run_simps]:
  "wallet_close w = (if js_equal (balance w) (Fin 0) then (Ok (), w\<lparr>status := CLOSED\<rparr>)
     else (Throw (NonZeroBalanceError (balance w)), w))"
  by (simp add: wallet_close_def await_def throw_def get_state_def modify_def)

lemma wallet_setDailyWithdrawalLimit_run [run_simps]:
  "wallet_setDailyWithdrawalLimit limit w =
     (case limit of
        Some l \<Rightarrow> if js_less_eq l (Fin 0) then (Throw (InvalidAmountError l ''Daily withdrawal limit''), w)
          else (Ok (), w\<lparr>dailyWithdrawalLimit := Some l\<rparr>)
      | None \<Rightarrow> (Ok (), w\<lparr>dailyWithdrawalLimit := None\<rparr>))"
  by (simp add: wallet_setDailyWithdrawalLimit_def throw_def modify_def split: option.split)

text \<open>
  A sequence of calls on one object, by a caller that catches every exception. The second and
  third component of a withdrawal are the clock readings of \<open>getTodayDate\<close> and
  \<open>trackWithdrawal\<close>.
\<close>

datatype wallet_op =
    OpDeposit number
  | OpWithdraw int int number
  | OpCredit number
  | OpFreeze
  | OpUnfreeze
  | OpClose
  | OpSetLimit "number option"

fun run_op :: "wallet_op \<Rightarrow> (wallet, error, unit) program" where
  "run_op (OpDeposit a) = wallet_deposit a"
| "run_op (OpWithdraw today now a) = wallet_withdraw today now a"
| "run_op (OpCredit a) = wallet_credit a"
| "run_op OpFreeze = wallet_freeze"
| "run_op OpUnfreeze = wallet_unfreeze"
| "run_op OpClose = wallet_close"
| "run_op (OpSetLimit l) = wallet_setDailyWithdrawalLimit l"

fun run_ops :: "wallet_op list \<Rightarrow> wallet \<Rightarrow> wallet" where
  "run_ops [] w = w"
| "run_ops (x # xs) w = run_ops xs (snd (run_op x w))"

fun finite_amount :: "wallet_op \<Rightarrow> bool" where
  "finite_amount (OpDeposit a) \<longleftrightarrow> (\<exists>x. a = Fin x)"
| "finite_amount (OpWithdraw t n a) \<longleftrightarrow> (\<exists>x. a = Fin x)"
| "finite_amount (OpCredit a) \<longleftrightarrow> (\<exists>x. a = Fin x)"
| "finite_amount _ \<longleftrightarrow> True"

lemma run_ops_invariant:
  assumes "\<And>x w. Q x \<Longrightarrow> I w \<Longrightarrow> I (snd (run_op x w))" "\<forall>x \<in> set xs. Q x" "I w"
  shows "I (run_ops xs w)"
  using assms(2,3) by (induction xs arbitrary: w) (auto intro: assms(1))

lemma run_op_identity:
  "wallet_id (snd (run_op x w)) = wallet_id w \<and> currency (snd (run_op x w)) = currency w"
  by (cases x) (auto simp: run_simps split: option.split)

lemma operations_keep_identity:
  "wallet_deposit a v = (Ok (), v') \<Longrightarrow> wallet_id v' = wallet_id v \<and> currency v' = currency v"
  "wallet_withdraw t n a v = (Ok (), v') \<Longrightarrow> wallet_id v' = wallet_id v \<and> currency v' = currency v"
  "wallet_credit a v = (Ok (), v') \<Longrightarrow> wallet_id v' = wallet_id v \<and> currency v' = currency v"
  "wallet_freeze v = (Ok (), v') \<Longrightarrow> wallet_id v' = wallet_id v \<and> currency v' = currency v"
  "wallet_unfreeze v = (Ok (), v') \<Longrightarrow> wallet_id v' = wallet_id v \<and> currency v' = currency v"
  "wallet_close v = (Ok (), v') \<Longrightarrow> wallet_id v' = wallet_id v \<and> currency v' = currency v"
  "wallet_setDailyWithdrawalLimit l v = (Ok (), v') \<Longrightarrow> wallet_id v' = wallet_id v \<and> currency v' = currency v"
  using run_op_identity[of "OpDeposit a" v] run_op_identity[of "OpWithdraw t n a" v]
    run_op_identity[of "OpCredit a" v] run_op_identity[of OpFreeze v] run_op_identity[of OpUnfreeze v]
    run_op_identity[of OpClose v] run_op_identity[of "OpSetLimit l" v]
  by simp_all

lemma run_op_nonneg: "finite_amount x \<Longrightarrow> nonneg (balance w) \<Longrightarrow> nonneg (balance (snd (run_op x w)))"
  by (cases x) (auto simp: run_simps js_sub_nonneg split: option.split intro!: js_add_nonneg)

lemma run_op_closed:
  "status w = CLOSED \<Longrightarrow> status (snd (run_op x w)) = CLOSED \<and> balance (snd (run_op x w)) = balance w"
  by (cases x) (auto simp: run_simps split: option.split)

lemma run_op_closed_zero:
  "(status w = CLOSED \<longrightarrow> balance w = Fin 0) \<Longrightarrow>
   status (snd (run_op x w)) = CLOSED \<longrightarrow> balance (snd (run_op x w)) = Fin 0"
  by (cases x) (auto simp: run_simps js_equal_def split: option.split if_splits)

lemma run_op_throw_frame:
  "run_op x w = (Throw e, w') \<Longrightarrow>
   w' = w \<or> (\<exists>t n a. x = OpWithdraw t n a \<and> w' = on_day t w)"
  by (cases x) (auto simp: run_simps split: option.splits if_splits)

lemma run_op_never_crashes: "fst (run_op x w) \<noteq> Crash"
  by (cases x) (auto simp: run_simps split: option.split)

section \<open>The balance\<close>

text \<open>In any sequence of operations on a wallet, each either succeeding or throwing, the
  balance is never negative, with the rounding of floating-point arithmetic included, provided the
  amounts are finite numbers.\<close>

theorem balance_never_negative:
  assumes "\<forall>x \<in> set ops. finite_amount x" and "nonneg (balance w)"
  shows "nonneg (balance (run_ops ops w))"
  by (rule run_ops_invariant[where Q = finite_amount and I = "\<lambda>w. nonneg (balance w)"])
     (use assms run_op_nonneg in auto)

theorem balance_never_negative_witness:
  "nonneg (balance (run_ops [OpDeposit (Fin 100), OpWithdraw 5 5 (Fin 30), OpWithdraw 6 6 (Fin 500)]
     (new_wallet ''a'' ''USD'')))"
  by (rule balance_never_negative) (auto simp: new_wallet_def)

text \<open>A closed wallet is closed for good and empty: after any sequence of operations on a
  fresh wallet, if it is closed its balance is zero, and no further sequence reopens it or
  changes its balance.\<close>

theorem closed_is_terminal_and_empty:
  assumes "status (run_ops ops (new_wallet i c)) = CLOSED"
  shows "balance (run_ops ops (new_wallet i c)) = Fin 0 \<and>
    status (run_ops rest (run_ops ops (new_wallet i c))) = CLOSED \<and>
    balance (run_ops rest (run_ops ops (new_wallet i c))) = Fin 0"
proof -
  let ?w = "run_ops ops (new_wallet i c)"
  have "status ?w = CLOSED \<longrightarrow> balance ?w = Fin 0"
    by (rule run_ops_invariant[where Q = "\<lambda>_. True" and
          I = "\<lambda>w. status w = CLOSED \<longrightarrow> balance w = Fin 0"])
       (auto simp: new_wallet_def intro: run_op_closed_zero[rule_format])
  moreover have "status (run_ops rest ?w) = CLOSED \<and> balance (run_ops rest ?w) = balance ?w"
    by (rule run_ops_invariant[where Q = "\<lambda>_. True" and
          I = "\<lambda>w. status w = CLOSED \<and> balance w = balance ?w"])
       (use assms run_op_closed in auto)
  ultimately show ?thesis using assms by simp
qed

theorem closed_is_terminal_and_empty_witness:
  "balance (run_ops [OpFreeze, OpClose] (new_wallet ''a'' ''USD'')) = Fin 0 \<and>
    status (run_ops [OpUnfreeze, OpDeposit (Fin 1)] (run_ops [OpFreeze, OpClose] (new_wallet ''a'' ''USD''))) = CLOSED \<and>
    balance (run_ops [OpUnfreeze, OpDeposit (Fin 1)] (run_ops [OpFreeze, OpClose] (new_wallet ''a'' ''USD''))) = Fin 0"
  by (rule closed_is_terminal_and_empty) (simp add: new_wallet_def run_simps js_equal_def)

text \<open>An operation that throws leaves the wallet as it was, but for one effect: a
  rejected withdrawal on a new day has already reset the running total of the day.\<close>

theorem throwing_operation_changes_only_daily_total:
  assumes "run_op x w = (Throw e, w')"
  shows "w'\<lparr>dailyWithdrawalTotal := dailyWithdrawalTotal w\<rparr> = w \<and>
    (dailyWithdrawalTotal w' = dailyWithdrawalTotal w \<or> dailyWithdrawalTotal w' = Fin 0)"
  using run_op_throw_frame[OF assms] by auto

theorem throwing_operation_changes_only_daily_total_witness:
  "(new_wallet ''a'' ''USD'')\<lparr>dailyWithdrawalTotal := dailyWithdrawalTotal (new_wallet ''a'' ''USD'')\<rparr> =
     new_wallet ''a'' ''USD'' \<and>
   (dailyWithdrawalTotal (new_wallet ''a'' ''USD'') = dailyWithdrawalTotal (new_wallet ''a'' ''USD'') \<or>
    dailyWithdrawalTotal (new_wallet ''a'' ''USD'') = Fin 0)"
  by (rule throwing_operation_changes_only_daily_total
        [where x = "OpWithdraw 5 5 (Fin 3)" and e = "InsufficientFundsError (Fin 0) (Fin 3)"])
     (simp add: new_wallet_def run_simps)

section \<open>The daily limit\<close>

text \<open>The amounts a sequence of operations really withdrew, added up as the entity adds them.\<close>

fun withdrawn :: "wallet_op list \<Rightarrow> wallet \<Rightarrow> number \<Rightarrow> number" where
  "withdrawn [] w acc = acc"
| "withdrawn (x # xs) w acc = withdrawn xs (snd (run_op x w))
     (case x of OpWithdraw t n a \<Rightarrow> if fst (run_op x w) = Ok () then js_add acc a else acc | _ \<Rightarrow> acc)"

fun on_the_day :: "int \<Rightarrow> wallet_op \<Rightarrow> bool" where
  "on_the_day d (OpWithdraw t n a) \<longleftrightarrow> getTodayDate t = d \<and> getTodayDate n = d \<and> (\<exists>x. a = Fin x)"
| "on_the_day d (OpSetLimit l) \<longleftrightarrow> False"
| "on_the_day d _ \<longleftrightarrow> True"

definition day_book :: "int \<Rightarrow> rat \<Rightarrow> number \<Rightarrow> wallet \<Rightarrow> bool" where
  "day_book d l acc w \<longleftrightarrow> dailyWithdrawalLimit w = Some (Fin l) \<and> \<not> js_less (Fin l) acc \<and>
     (if last_date (lastWithdrawalDate w) = Some d then dailyWithdrawalTotal w = acc else acc = Fin 0)"

lemma run_op_day_book:
  "on_the_day d x \<Longrightarrow> day_book d l acc w \<Longrightarrow>
   day_book d l (case x of OpWithdraw t n a \<Rightarrow> if fst (run_op x w) = Ok () then js_add acc a else acc | _ \<Rightarrow> acc)
     (snd (run_op x w))"
  by (cases x) (auto simp: day_book_def run_simps split: if_splits)

lemma withdrawn_day_book:
  "\<forall>x \<in> set xs. on_the_day d x \<Longrightarrow> day_book d l acc w \<Longrightarrow> day_book d l (withdrawn xs w acc) (run_ops xs w)"
proof (induction xs arbitrary: w acc)
  case (Cons x xs)
  then show ?case using run_op_day_book[of d x l acc w] by simp
qed simp

text \<open>C30: Withdrawals of one UTC day from a wallet with a daily limit never add up to more than
  the limit, however they are interleaved with deposits, credits and status changes.\<close>

theorem daily_limit_respected:
  assumes "\<forall>x \<in> set ops. on_the_day d x" and "dailyWithdrawalLimit w = Some (Fin l)" and "0 \<le> l"
    and "last_date (lastWithdrawalDate w) \<noteq> Some d"
  shows "\<not> js_less (Fin l) (withdrawn ops w (Fin 0))"
proof -
  have "day_book d l (Fin 0) w" using assms by (simp add: day_book_def)
  from withdrawn_day_book[OF assms(1) this] show ?thesis by (simp add: day_book_def)
qed

theorem daily_limit_respected_witness:
  "\<not> js_less (Fin 100) (withdrawn [OpDeposit (Fin 500), OpWithdraw 5 5 (Fin 60), OpWithdraw 6 6 (Fin 60)]
     ((new_wallet ''a'' ''USD'')\<lparr>dailyWithdrawalLimit := Some (Fin 100)\<rparr>) (Fin 0))"
  by (rule daily_limit_respected[where d = 0]) (simp_all add: new_wallet_def getTodayDate_def ms_per_day_def)

text \<open>\<open>canDebit\<close> is a necessary condition: whenever a withdrawal of a number the program
  can hold succeeds from a wallet with a total that is not negative, \<open>canDebit\<close> was true before.\<close>

theorem withdraw_implies_canDebit:
  assumes "fst (wallet_withdraw t n (Fin x) w) = Ok ()" and "round_double x = x"
    and "nonneg (balance w)" and "nonneg (dailyWithdrawalTotal w)"
    and "dailyWithdrawalLimit w = Some (Fin l)" and "\<bar>x\<bar> < 2 ^ 1024"
  shows "canDebit (Fin x) w"
proof -
  have s: "0 < x" "status w = ACTIVE" "\<not> js_less (balance w) (Fin x)"
    "\<not> js_less (Fin l) (js_add (dailyWithdrawalTotal (on_day t w)) (Fin x))"
    using assms(1,5) by (simp_all add: run_simps split: if_splits)
  have bal: "js_less_eq (Fin x) (balance w)"
    using s assms(3) by (cases "balance w") (auto simp: js_less_eq_def js_equal_def)
  obtain t0 where t0: "nonneg t0" "\<not> js_less (Fin l) (js_add t0 (Fin x))"
    using s assms(4,5) that[of "dailyWithdrawalTotal w"] that[of "Fin 0"] by (auto split: if_splits)
  have "x \<le> l"
  proof (cases t0)
    case (Fin y)
    then have "x \<le> round_double (y + x)"
      using t0 assms(2) round_double_mono[of x "y + x"] by simp
    then show ?thesis using t0 Fin assms(6) by (auto simp: to_number_def Let_def abs_less_iff split: if_splits)
  qed (use t0 in auto)
  then show ?thesis using s bal assms(5) by (simp add: canDebit_def)
qed

theorem withdraw_implies_canDebit_witness:
  "canDebit (Fin 30) ((new_wallet ''a'' ''USD'')\<lparr>balance := Fin 100, dailyWithdrawalLimit := Some (Fin 50)\<rparr>)"
  by (rule withdraw_implies_canDebit[where t = 5 and n = 5 and l = 50])
     (use round_double_of_int[of 30] in \<open>simp_all add: new_wallet_def run_simps to_number_small\<close>)

text \<open>\<open>canDebit\<close> is not sufficient: it compares the amount alone with the limit, not with
  what today's withdrawals have left of it, so it can be true of a withdrawal that is rejected.\<close>

theorem canDebit_ignores_daily_total:
  "\<exists>w. canDebit (Fin 60) w \<and>
     fst (wallet_withdraw 0 0 (Fin 60) w) = Throw (WithdrawalLimitExceededError (Fin 60) (Fin 100))"
  by (rule exI[of _ "(new_wallet ''a'' ''USD'')\<lparr>balance := Fin 100, dailyWithdrawalLimit := Some (Fin 100),
        dailyWithdrawalTotal := Fin 60, lastWithdrawalDate := DateObject 0\<rparr>"])
     (use round_double_of_int[of 120] in
       \<open>simp add: canDebit_def new_wallet_def run_simps to_number_small\<close>)

text \<open>The guard on amounts lets NaN through: \<open>NaN <= 0\<close> is false, so depositing NaN into an
  active wallet succeeds and makes the balance NaN, after which withdrawals of any amount pass the
  funds check.\<close>

theorem nan_deposit_defeats_guards:
  "wallet_deposit NaN (new_wallet i c) = (Ok (), (new_wallet i c)\<lparr>balance := NaN\<rparr>) \<and>
   fst (wallet_withdraw t n (Fin 1000000) ((new_wallet i c)\<lparr>balance := NaN\<rparr>)) = Ok ()"
  by (simp add: new_wallet_def run_simps)

end
