(* ===== verification/Json.thy ===== *)
theory Json imports JsNumber
begin

text \<open>
  The plain objects the services build and store: event metadata, outbox payloads, idempotency
  responses. An object is the list of its properties in insertion order; a date inside one is its
  milliseconds (its ISO text is in bijection with them). \<open>jsonb\<close> is what a round trip through a
  JSON column makes of a value: undefined properties disappear, numbers that are not finite become
  null.
\<close>

datatype json =
    JNull
  | JUndefined
  | JBool bool
  | JNum number
  | JStr string
  | JDate int
  | JObj "(string \<times> json) list"

fun set_property :: "string \<Rightarrow> json \<Rightarrow> (string \<times> json) list \<Rightarrow> (string \<times> json) list" where
  "set_property k v [] = [(k, v)]"
| "set_property k v ((k', v') # ps) = (if k = k' then (k, v) # ps else (k', v') # set_property k v ps)"

text \<open>\<open>{ ...base, k: v }\<close>: spreading null gives no property.\<close>

fun spread_set :: "json \<Rightarrow> string \<Rightarrow> json \<Rightarrow> json" where
  "spread_set (JObj ps) k v = JObj (set_property k v ps)"
| "spread_set _ k v = JObj [(k, v)]"

fun property :: "json \<Rightarrow> string \<Rightarrow> json" where
  "property (JObj ps) k = (case map_of ps k of Some v \<Rightarrow> v | None \<Rightarrow> JUndefined)"
| "property _ k = JUndefined"

fun jsonb :: "json \<Rightarrow> json" where
  "jsonb (JNum (Fin x)) = JNum (Fin x)"
| "jsonb (JNum _) = JNull"
| "jsonb (JObj ps) = JObj (map (\<lambda>(k, v). (k, jsonb v)) (filter (\<lambda>(k, v). v \<noteq> JUndefined) ps))"
| "jsonb v = v"

definition js_option :: "('a \<Rightarrow> json) \<Rightarrow> 'a option \<Rightarrow> json" where
  "js_option f z = (case z of None \<Rightarrow> JUndefined | Some a \<Rightarrow> f a)"

definition js_nullable :: "('a \<Rightarrow> json) \<Rightarrow> 'a option \<Rightarrow> json" where
  "js_nullable f z = (case z of None \<Rightarrow> JNull | Some a \<Rightarrow> f a)"

lemma map_of_set_property: "map_of (set_property k v ps) = (map_of ps)(k \<mapsto> v)"
  by (induction k v ps rule: set_property.induct) auto

lemma property_spread_set [simp]: "property (spread_set j k v) k = v"
  by (cases j) (simp_all add: map_of_set_property)

end
