(* ===== verification/TransferSaga.thy ===== *)
theory TransferSaga imports Prelude DomainExceptions Json
begin

text \<open>
  The transfer saga entity, \<open>src/modules/transfer/entities/transfer-saga.entity.ts\<close>: its
  states, its four transitions, and their order.

  The type of states is instantiated as a partial order, \<open>s \<le> t\<close> meaning that the entity
  lets a saga in \<open>s\<close> come to be in \<open>t\<close>. \<open>saga_moves\<close> is the narrower state machine of
  \<open>docs/DESIGN.md\<close> as the transfer service drives it (a saga fails only before its debit);
  the theory of the service shows that the database never records any other move.
\<close>

datatype saga_state = PENDING | DEBITED | COMPLETED | COMPENSATED | FAILED

fun saga_state_text :: "saga_state \<Rightarrow> string" where
  "saga_state_text PENDING = ''PENDING''"
| "saga_state_text DEBITED = ''DEBITED''"
| "saga_state_text COMPLETED = ''COMPLETED''"
| "saga_state_text COMPENSATED = ''COMPENSATED''"
| "saga_state_text FAILED = ''FAILED''"

text \<open>
  The identifier is assigned by the database when the saga is first saved; until then it is
  empty. The amount is the number \<open>Number(saga.amount)\<close> that every use of the field converts
  it to (a freshly loaded saga carries the column's text).
\<close>

record transfer_saga =
  saga_id :: string
  fromWalletId :: string
  toWalletId :: string
  saga_amount :: number
  saga_currency :: string
  saga_state :: saga_state
  saga_metadata :: json
  saga_createdAt :: "int option"
  saga_updatedAt :: "int option"

definition new_transfer_saga :: "string \<Rightarrow> string \<Rightarrow> number \<Rightarrow> string \<Rightarrow> transfer_saga" where
  "new_transfer_saga from_id to_id a cur = \<lparr>saga_id = [], fromWalletId = from_id, toWalletId = to_id,
     saga_amount = a, saga_currency = cur, saga_state = PENDING, saga_metadata = JNull,
     saga_createdAt = None, saga_updatedAt = None\<rparr>"

definition markAsDebited :: "(transfer_saga, error, unit) program" where
  "markAsDebited = await get_state (\<lambda>s.
     if saga_state s \<noteq> PENDING
     then throw (PlainError (''Cannot mark as debited from state: '' @ saga_state_text (saga_state s)))
     else modify (\<lambda>s. s\<lparr>saga_state := DEBITED\<rparr>))"

definition markAsCompleted :: "(transfer_saga, error, unit) program" where
  "markAsCompleted = await get_state (\<lambda>s.
     if saga_state s \<noteq> DEBITED
     then throw (PlainError (''Cannot mark as completed from state: '' @ saga_state_text (saga_state s)))
     else modify (\<lambda>s. s\<lparr>saga_state := COMPLETED\<rparr>))"

definition markAsCompensated :: "string \<Rightarrow> (transfer_saga, error, unit) program" where
  "markAsCompensated reason = await get_state (\<lambda>s.
     if saga_state s \<noteq> DEBITED
     then throw (PlainError (''Cannot compensate from state: '' @ saga_state_text (saga_state s)))
     else modify (\<lambda>s. s\<lparr>saga_state := COMPENSATED,
       saga_metadata := spread_set (saga_metadata s) ''compensationReason'' (JStr reason)\<rparr>))"

definition markAsFailed :: "string \<Rightarrow> (transfer_saga, error, unit) program" where
  "markAsFailed reason = modify (\<lambda>s. s\<lparr>saga_state := FAILED,
     saga_metadata := spread_set (saga_metadata s) ''failureReason'' (JStr reason)\<rparr>)"

section \<open>The order of the states\<close>

instantiation saga_state :: order
begin

definition less_eq_saga_state :: "saga_state \<Rightarrow> saga_state \<Rightarrow> bool" where
  "s \<le> t \<longleftrightarrow> s = t \<or> s = PENDING \<or> t = FAILED \<or> (s = DEBITED \<and> (t = COMPLETED \<or> t = COMPENSATED))"

definition less_saga_state :: "saga_state \<Rightarrow> saga_state \<Rightarrow> bool" where
  "s < t \<longleftrightarrow> s \<le> t \<and> s \<noteq> (t :: saga_state)"

instance
  by intro_classes (auto simp: less_eq_saga_state_def less_saga_state_def)

end

lemma markAsDebited_run [run_simps]:
  "markAsDebited s = (if saga_state s = PENDING then (Ok (), s\<lparr>saga_state := DEBITED\<rparr>)
     else (Throw (PlainError (''Cannot mark as debited from state: '' @ saga_state_text (saga_state s))), s))"
  by (simp add: markAsDebited_def await_def get_state_def throw_def modify_def)

lemma markAsCompleted_run [run_simps]:
  "markAsCompleted s = (if saga_state s = DEBITED then (Ok (), s\<lparr>saga_state := COMPLETED\<rparr>)
     else (Throw (PlainError (''Cannot mark as completed from state: '' @ saga_state_text (saga_state s))), s))"
  by (simp add: markAsCompleted_def await_def get_state_def throw_def modify_def)

lemma markAsCompensated_run [run_simps]:
  "markAsCompensated e s = (if saga_state s = DEBITED
     then (Ok (), s\<lparr>saga_state := COMPENSATED,
       saga_metadata := spread_set (saga_metadata s) ''compensationReason'' (JStr e)\<rparr>)
     else (Throw (PlainError (''Cannot compensate from state: '' @ saga_state_text (saga_state s))), s))"
  by (simp add: markAsCompensated_def await_def get_state_def throw_def modify_def)

lemma markAsFailed_run [run_simps]:
  "markAsFailed e s = (Ok (), s\<lparr>saga_state := FAILED,
     saga_metadata := spread_set (saga_metadata s) ''failureReason'' (JStr e)\<rparr>)"
  by (simp add: markAsFailed_def modify_def)

section \<open>Sequences of transitions\<close>

datatype saga_op = MarkDebited | MarkCompleted | MarkCompensated string | MarkFailed string

fun run_saga_op :: "saga_op \<Rightarrow> (transfer_saga, error, unit) program" where
  "run_saga_op MarkDebited = markAsDebited"
| "run_saga_op MarkCompleted = markAsCompleted"
| "run_saga_op (MarkCompensated e) = markAsCompensated e"
| "run_saga_op (MarkFailed e) = markAsFailed e"

fun run_saga_ops :: "saga_op list \<Rightarrow> transfer_saga \<Rightarrow> transfer_saga" where
  "run_saga_ops [] s = s"
| "run_saga_ops (x # xs) s = run_saga_ops xs (snd (run_saga_op x s))"

text \<open>The documented state machine.\<close>

inductive saga_moves :: "saga_state \<Rightarrow> saga_state \<Rightarrow> bool" where
  debit: "saga_moves PENDING DEBITED"
| fail: "saga_moves PENDING FAILED"
| complete: "saga_moves DEBITED COMPLETED"
| compensate: "saga_moves DEBITED COMPENSATED"

code_pred saga_moves .

inductive_cases saga_moves_from_terminal:
  "saga_moves COMPLETED s" "saga_moves COMPENSATED s" "saga_moves FAILED s"

inductive_simps saga_moves_from: "saga_moves DEBITED s" "saga_moves PENDING s"

lemma saga_moves_le: "saga_moves s t \<Longrightarrow> s \<le> t"
  by (induction rule: saga_moves.induct) (auto simp: less_eq_saga_state_def)

lemma saga_paths [simp]:
  "saga_moves\<^sup>*\<^sup>* PENDING DEBITED" "saga_moves\<^sup>*\<^sup>* PENDING FAILED"
  "saga_moves\<^sup>*\<^sup>* DEBITED COMPLETED" "saga_moves\<^sup>*\<^sup>* DEBITED COMPENSATED"
  by (rule r_into_rtranclp, rule saga_moves.intros)+

lemma saga_path_from_terminal:
  "saga_moves\<^sup>*\<^sup>* s t \<Longrightarrow> s \<in> {COMPLETED, COMPENSATED, FAILED} \<Longrightarrow> t = s"
  by (induction rule: rtranclp_induct) (auto elim: saga_moves.cases)

lemma run_saga_op_le: "saga_state s \<le> saga_state (snd (run_saga_op x s))"
  by (cases x) (auto simp: run_simps less_eq_saga_state_def)

lemma run_saga_op_throw: "run_saga_op x s = (Throw e, s') \<Longrightarrow> s' = s"
  by (cases x) (auto simp: run_simps split: if_splits)

lemma run_saga_op_frame: "saga_amount (snd (run_saga_op x s)) = saga_amount s \<and>
   fromWalletId (snd (run_saga_op x s)) = fromWalletId s \<and>
   toWalletId (snd (run_saga_op x s)) = toWalletId s \<and> saga_id (snd (run_saga_op x s)) = saga_id s"
  by (cases x) (auto simp: run_simps)

lemma marks_keep_id:
  "markAsDebited x = (Ok (), x') \<Longrightarrow> saga_id x' = saga_id x"
  "markAsCompleted x = (Ok (), x') \<Longrightarrow> saga_id x' = saga_id x"
  "markAsCompensated reason x = (Ok (), x') \<Longrightarrow> saga_id x' = saga_id x"
  using run_saga_op_frame[of MarkDebited x] run_saga_op_frame[of MarkCompleted x]
    run_saga_op_frame[of "MarkCompensated reason" x] by simp_all

text \<open>Whatever sequence of transitions is called on a saga, its state only moves up in the
  order of the states; in particular a completed saga is never compensated afterwards and a
  compensated one never completed.\<close>

theorem saga_state_only_advances:
  "saga_state s \<le> saga_state (run_saga_ops xs s) \<and>
   \<not> (saga_state s = COMPLETED \<and> saga_state (run_saga_ops xs s) = COMPENSATED) \<and>
   \<not> (saga_state s = COMPENSATED \<and> saga_state (run_saga_ops xs s) = COMPLETED)"
proof -
  have "saga_state s \<le> saga_state (run_saga_ops xs s)"
  proof (induction xs arbitrary: s)
    case (Cons x xs)
    then show ?case using run_saga_op_le[of s x] by (auto intro: order_trans)
  qed simp
  then show ?thesis by (auto simp: less_eq_saga_state_def)
qed

text \<open>\<open>markAsFailed\<close> is the one transition without a guard: it turns a saga of any state,
  a completed one included, into a failed one, a move the documented state machine does not have.\<close>

theorem markAsFailed_is_unguarded:
  "fst (markAsFailed reason s) = Ok () \<and> saga_state (snd (markAsFailed reason s)) = FAILED \<and>
   \<not> saga_moves COMPLETED FAILED \<and> \<not> saga_moves COMPENSATED FAILED"
  by (auto simp: run_simps elim: saga_moves_from_terminal)

end
