(* ===== verification/Persistence.thy ===== *)
theory Persistence imports Wallet TransferSaga
begin

text \<open>
  What the database holds and what a trip through a column does to a value: the tables behind the
  entities of \<open>src/modules\<close> and \<open>src/domain/entities\<close>, and the conversions their
  column declarations ask for.

  The parts that are code of the driver or the server are fields of the parameter
  \<open>platform\<close>: storing a decimal literal in a \<open>DECIMAL(20,2)\<close> column, the text the ORM makes
  of a \<open>Date\<close> for a \<open>date\<close> column, generated identifiers, the random jitter, the text the Redis client makes of a value that is
  neither a number nor a string, the SHA-256 digest, the ISO text of a date, and the date and the number a text is read as. What is
  relied on of them is named: \<open>decimal_column\<close> (a literal is stored as a nearest
  hundredth, and as the nearest one when there is only one) and \<open>distinct_uuids\<close>.
  \<open>postgres\<close> is an instance that has both properties and rounds ties away from zero.

  The lemmas at the end are the round trip of cent amounts through entity arithmetic and column,
  and that it fails for large amounts.
\<close>

section \<open>Columns\<close>

datatype numeric = Cents int | NumericNaN

record platform =
  numericOf :: "number \<Rightarrow> error + numeric"
  dateColumn :: "int \<Rightarrow> int"
  uuidOf :: "nat \<Rightarrow> string"
  jitterOf :: "nat \<Rightarrow> rat"
  redisText :: "json \<Rightarrow> string"
  hashOf :: "string \<Rightarrow> string"
  isoText :: "int \<Rightarrow> string"
  dateParse :: "string \<Rightarrow> int option"
  numberParse :: "string \<Rightarrow> number"

definition decimal_column :: "platform \<Rightarrow> bool" where
  "decimal_column P \<longleftrightarrow>
     (\<forall>q z. numericOf P (Fin q) = Inr z \<longrightarrow> (\<exists>k. z = Cents k \<and> \<bar>100 * q - of_int k\<bar> \<le> 1 / 2)) \<and>
     (\<forall>q k. \<bar>100 * q - of_int k\<bar> < 1 / 2 \<and> \<bar>k\<bar> < 10 ^ 20 \<longrightarrow> numericOf P (Fin q) = Inr (Cents k))"

definition distinct_uuids :: "platform \<Rightarrow> bool" where
  "distinct_uuids P \<longleftrightarrow> inj (uuidOf P) \<and> (\<forall>n. uuidOf P n \<noteq> [])"

text \<open>The driver sends the text of a number.\<close>

fun sent_text :: "number \<Rightarrow> number" where
  "sent_text (Fin x) = Fin (decimal_string x)"
| "sent_text a = a"

definition decimal_to :: "platform \<Rightarrow> number \<Rightarrow> error + numeric" where
  "decimal_to P a = numericOf P (sent_text a)"

text \<open>\<open>parseFloat\<close> of the text the server returns.\<close>

fun decimal_from :: "numeric \<Rightarrow> number" where
  "decimal_from (Cents k) = to_number (of_int k / 100)"
| "decimal_from NumericNaN = NaN"

definition decimal_to_nullable :: "platform \<Rightarrow> number option \<Rightarrow> error + numeric option" where
  "decimal_to_nullable P z = (case z of None \<Rightarrow> Inr None | Some a \<Rightarrow> map_sum id Some (decimal_to P a))"

definition too_long :: error where
  "too_long = DriverError ''22001'' ''QueryFailedError'' ''value too long for type character varying''"

definition varchar :: "nat \<Rightarrow> string \<Rightarrow> error + string" where
  "varchar n s = (if length s \<le> n then Inr s else Inl too_long)"

definition date_to :: "platform \<Rightarrow> js_date \<Rightarrow> int option" where
  "date_to P d = (case d of NoDate \<Rightarrow> None | DateObject t \<Rightarrow> Some (dateColumn P t) | DateText n \<Rightarrow> Some n)"

definition date_from :: "int option \<Rightarrow> js_date" where
  "date_from z = (case z of None \<Rightarrow> NoDate | Some d \<Rightarrow> DateText d)"

definition check :: "error + 'a \<Rightarrow> ('a \<Rightarrow> error + 'b) \<Rightarrow> error + 'b" where
  "check r k = (case r of Inl e \<Rightarrow> Inl e | Inr a \<Rightarrow> k a)"

lemma check_simps [simp]: "check (Inl e) k = Inl e" "check (Inr a) k = k a"
  by (simp_all add: check_def)

lemma check_Inr: "check r k = Inr b \<longleftrightarrow> (\<exists>a. r = Inr a \<and> k a = Inr b)"
  by (cases r) auto

section \<open>The wallets table\<close>

record wallet_row =
  row_balance :: numeric
  row_currency :: string
  row_status :: wallet_status
  row_limit :: "numeric option"
  row_total :: numeric
  row_lastDate :: "int option"
  row_version :: int
  row_createdAt :: int
  row_updatedAt :: int

definition wallet_of_row :: "string \<Rightarrow> wallet_row \<Rightarrow> wallet" where
  "wallet_of_row i r = \<lparr>wallet_id = i, balance = decimal_from (row_balance r), currency = row_currency r,
     status = row_status r, dailyWithdrawalLimit = map_option decimal_from (row_limit r),
     dailyWithdrawalTotal = decimal_from (row_total r), lastWithdrawalDate = date_from (row_lastDate r),
     version = row_version r, createdAt = Some (row_createdAt r), updatedAt = Some (row_updatedAt r)\<rparr>"

lemma wallet_of_row_id [simp]: "wallet_id (wallet_of_row i r) = i"
  by (simp add: wallet_of_row_def)

text \<open>The row that saving an entity writes. Saving one that does not differ from its row is an update here like any
  other, which raises the version and the time of update; the ORM leaves out that statement. Nothing
  reads either of them.\<close>

definition row_of_wallet :: "platform \<Rightarrow> int \<Rightarrow> wallet_row option \<Rightarrow> wallet \<Rightarrow> error + wallet_row" where
  "row_of_wallet P now old w =
     check (varchar 255 (wallet_id w)) (\<lambda>_.
     check (decimal_to P (balance w)) (\<lambda>b.
     check (varchar 3 (currency w)) (\<lambda>c.
     check (decimal_to_nullable P (dailyWithdrawalLimit w)) (\<lambda>l.
     check (decimal_to P (dailyWithdrawalTotal w)) (\<lambda>t.
     Inr \<lparr>row_balance = b, row_currency = c, row_status = status w, row_limit = l, row_total = t,
       row_lastDate = date_to P (lastWithdrawalDate w),
       row_version = (case old of None \<Rightarrow> 1 | Some r \<Rightarrow> row_version r + 1),
       row_createdAt = (case old of None \<Rightarrow> now | Some r \<Rightarrow> row_createdAt r),
       row_updatedAt = now\<rparr>)))))"

text \<open>The row that \<open>INSERT ... VALUES (id, currency, 0)\<close> makes, with the column defaults.\<close>

definition default_row :: "int \<Rightarrow> string \<Rightarrow> wallet_row" where
  "default_row now cur = \<lparr>row_balance = Cents 0, row_currency = cur, row_status = ACTIVE,
     row_limit = None, row_total = Cents 0, row_lastDate = None, row_version = 1,
     row_createdAt = now, row_updatedAt = now\<rparr>"

section \<open>The event log\<close>

datatype wallet_event_type =
    WALLET_CREATED | FUNDS_DEPOSITED | FUNDS_WITHDRAWN | TRANSFER_INITIATED | TRANSFER_COMPLETED
  | TRANSFER_FAILED | TRANSFER_COMPENSATED | WALLET_FROZEN | WALLET_UNFROZEN | WALLET_CLOSED
  | DAILY_WITHDRAWAL_LIMIT_SET | DAILY_WITHDRAWAL_LIMIT_REMOVED

fun event_type_text :: "wallet_event_type \<Rightarrow> string" where
  "event_type_text WALLET_CREATED = ''WALLET_CREATED''"
| "event_type_text FUNDS_DEPOSITED = ''FUNDS_DEPOSITED''"
| "event_type_text FUNDS_WITHDRAWN = ''FUNDS_WITHDRAWN''"
| "event_type_text TRANSFER_INITIATED = ''TRANSFER_INITIATED''"
| "event_type_text TRANSFER_COMPLETED = ''TRANSFER_COMPLETED''"
| "event_type_text TRANSFER_FAILED = ''TRANSFER_FAILED''"
| "event_type_text TRANSFER_COMPENSATED = ''TRANSFER_COMPENSATED''"
| "event_type_text WALLET_FROZEN = ''WALLET_FROZEN''"
| "event_type_text WALLET_UNFROZEN = ''WALLET_UNFROZEN''"
| "event_type_text WALLET_CLOSED = ''WALLET_CLOSED''"
| "event_type_text DAILY_WITHDRAWAL_LIMIT_SET = ''DAILY_WITHDRAWAL_LIMIT_SET''"
| "event_type_text DAILY_WITHDRAWAL_LIMIT_REMOVED = ''DAILY_WITHDRAWAL_LIMIT_REMOVED''"

record wallet_event =
  event_walletId :: string
  event_type :: wallet_event_type
  event_currency :: string
  event_amount :: "number option"
  event_metadata :: json

definition new_wallet_event ::
  "string \<Rightarrow> wallet_event_type \<Rightarrow> string \<Rightarrow> number option \<Rightarrow> json option \<Rightarrow> wallet_event" where
  "new_wallet_event i ty cur amount metadata =
     \<lparr>event_walletId = i, event_type = ty, event_currency = cur,
      event_amount = (case amount of None \<Rightarrow> None | Some a \<Rightarrow> if js_truthy a then Some a else None),
      event_metadata = (case metadata of None \<Rightarrow> JNull | Some m \<Rightarrow> m)\<rparr>"

record event_row =
  log_id :: nat
  log_walletId :: string
  log_type :: wallet_event_type
  log_currency :: string
  log_amount :: "numeric option"
  log_metadata :: json
  log_createdAt :: int

definition check_violation :: error where
  "check_violation = DriverError ''23514'' ''QueryFailedError'' ''violates check constraint''"

text \<open>The \<open>@Check\<close> of the entity: \<open>amount IS NULL OR amount >= 0\<close>.\<close>

fun amount_check :: "numeric option \<Rightarrow> bool" where
  "amount_check (Some (Cents k)) \<longleftrightarrow> 0 \<le> k"
| "amount_check _ \<longleftrightarrow> True"

definition event_row_of :: "platform \<Rightarrow> int \<Rightarrow> nat \<Rightarrow> wallet_event \<Rightarrow> error + event_row" where
  "event_row_of P now n e =
     check (varchar 255 (event_walletId e)) (\<lambda>i.
     check (varchar 3 (event_currency e)) (\<lambda>c.
     check (decimal_to_nullable P (event_amount e)) (\<lambda>a.
     if amount_check a
     then Inr \<lparr>log_id = n, log_walletId = i, log_type = event_type e, log_currency = c, log_amount = a,
       log_metadata = jsonb (event_metadata e), log_createdAt = now\<rparr>
     else Inl check_violation)))"

section \<open>The other tables\<close>

record saga_row =
  srow_from :: string
  srow_to :: string
  srow_amount :: numeric
  srow_currency :: string
  srow_state :: saga_state
  srow_metadata :: json
  srow_createdAt :: int
  srow_updatedAt :: int

definition saga_of_row :: "string \<Rightarrow> saga_row \<Rightarrow> transfer_saga" where
  "saga_of_row i r = \<lparr>saga_id = i, fromWalletId = srow_from r, toWalletId = srow_to r,
     saga_amount = decimal_from (srow_amount r), saga_currency = srow_currency r,
     saga_state = srow_state r, saga_metadata = srow_metadata r,
     saga_createdAt = Some (srow_createdAt r), saga_updatedAt = Some (srow_updatedAt r)\<rparr>"

definition row_of_saga :: "platform \<Rightarrow> int \<Rightarrow> saga_row option \<Rightarrow> transfer_saga \<Rightarrow> error + saga_row" where
  "row_of_saga P now old s =
     check (varchar 255 (fromWalletId s)) (\<lambda>f.
     check (varchar 255 (toWalletId s)) (\<lambda>t.
     check (decimal_to P (saga_amount s)) (\<lambda>a.
     check (varchar 3 (saga_currency s)) (\<lambda>c.
     Inr \<lparr>srow_from = f, srow_to = t, srow_amount = a, srow_currency = c, srow_state = saga_state s,
       srow_metadata = jsonb (saga_metadata s),
       srow_createdAt = (case old of None \<Rightarrow> now | Some r \<Rightarrow> srow_createdAt r),
       srow_updatedAt = now\<rparr>))))"

record outbox_event =
  aggregateId :: string
  outbox_type :: string
  payload :: json

record outbox_row =
  out_id :: string
  out_aggregateId :: string
  out_type :: string
  out_payload :: json
  out_createdAt :: int
  published :: bool

record idempotency_key =
  key_requestId :: string
  key_response :: json

text \<open>The row of a fraud alert: wallet, kind and details.\<close>

record fraud_alert =
  alert_walletId :: string
  alertType :: string
  alert_details :: json

record tables =
  wallets :: "string \<Rightarrow> wallet_row option"
  walletEvents :: "event_row list"
  sagas :: "string \<Rightarrow> saga_row option"
  idempotencyKeys :: "string \<Rightarrow> json option"
  keyTimes :: "string \<Rightarrow> int option"
  outboxEvents :: "outbox_row list"
  uuidCount :: nat
  fraudAlerts :: "fraud_alert list"

definition empty_tables :: tables where
  "empty_tables = \<lparr>wallets = Map.empty, walletEvents = [], sagas = Map.empty,
     idempotencyKeys = Map.empty, keyTimes = Map.empty, outboxEvents = [], uuidCount = 0, fraudAlerts = []\<rparr>"

section \<open>An instance of the platform\<close>

definition half_away :: "rat \<Rightarrow> int" where
  "half_away q = (if q < 0 then - \<lfloor>1 / 2 - q\<rfloor> else \<lfloor>q + 1 / 2\<rfloor>)"

definition numeric_overflow :: error where
  "numeric_overflow = DriverError ''22003'' ''QueryFailedError'' ''numeric field overflow''"

fun postgres_numeric :: "number \<Rightarrow> error + numeric" where
  "postgres_numeric (Fin q) =
     (let k = half_away (100 * q) in if \<bar>k\<bar> < 10 ^ 20 then Inr (Cents k) else Inl numeric_overflow)"
| "postgres_numeric NaN = Inr NumericNaN"
| "postgres_numeric _ = Inl numeric_overflow"

definition postgres :: platform where
  "postgres = \<lparr>numericOf = postgres_numeric, dateColumn = getTodayDate,
     uuidOf = (\<lambda>n. replicate (Suc n) CHR ''s''), jitterOf = (\<lambda>_. 0),
     redisText = (\<lambda>_. []), hashOf = (\<lambda>s. s), isoText = (\<lambda>t. number_text (Fin (of_int t))),
     dateParse = (\<lambda>_. None), numberParse = (\<lambda>_. NaN)\<rparr>"

lemma half_away_error: "\<bar>q - of_int (half_away q)\<bar> \<le> 1 / 2"
proof (cases "q < 0")
  case True
  then show ?thesis using floor_correct[of "1 / 2 - q"] unfolding half_away_def abs_le_iff
    by (simp only: if_True of_int_minus) linarith
next
  case False
  then show ?thesis using floor_correct[of "q + 1 / 2"] unfolding half_away_def abs_le_iff
    by (simp only: if_False) linarith
qed

lemma half_away_unique: "\<bar>q - of_int k\<bar> < 1 / 2 \<Longrightarrow> half_away q = k"
proof -
  assume "\<bar>q - of_int k\<bar> < 1 / 2"
  then have "\<bar>of_int (half_away q) - of_int k\<bar> < (1::rat)"
    using half_away_error[of q] by linarith
  then have "\<bar>half_away q - k\<bar> < 1" by linarith
  then show ?thesis by simp
qed

lemma postgres_decimal_column [simp]: "decimal_column postgres"
  using half_away_error half_away_unique
  by (auto simp: decimal_column_def postgres_def Let_def split: if_splits)

lemma postgres_distinct_uuids [simp]: "distinct_uuids postgres"
  by (auto simp: distinct_uuids_def postgres_def inj_def replicate_eq_replicate)

section \<open>Cent amounts through a column\<close>

lemma decimal_column_near:
  "decimal_column P \<Longrightarrow> \<bar>q - of_int k / 100\<bar> < 1 / 200 \<Longrightarrow> \<bar>k\<bar> < 10 ^ 20 \<Longrightarrow> numericOf P (Fin q) = Inr (Cents k)"
proof -
  assume a: "decimal_column P" "\<bar>q - of_int k / 100\<bar> < 1 / 200" "\<bar>k\<bar> < 10 ^ 20"
  have "\<bar>100 * q - of_int k\<bar> < 1 / 2" using a(2) unfolding abs_less_iff by linarith
  then show ?thesis using a unfolding decimal_column_def by blast
qed

lemma decimal_from_cents:
  assumes "\<bar>k\<bar> \<le> 10 ^ 15"
  shows "decimal_from (Cents k) = Fin (round_double (of_int k / 100))"
proof -
  have "\<bar>of_int k / 100\<bar> \<le> (10000000000000 :: rat)" using assms by (simp add: abs_le_iff)
  then have "\<bar>of_int k / 100\<bar> < (2::rat) powi 44" by simp
  then show ?thesis by (simp add: to_number_small)
qed

lemma decimal_roundtrip:
  assumes "decimal_column P" "0 \<le> k" "k \<le> 10 ^ 15"
  shows "decimal_to P (decimal_from (Cents k)) = Inr (Cents k)"
proof -
  have "decimal_to P (decimal_from (Cents k)) = numericOf P (Fin (of_int k / 100))"
    using assms by (simp only: decimal_from_cents decimal_to_def sent_text.simps decimal_string_cents abs_of_nonneg)
  also have "\<dots> = Inr (Cents k)" by (rule decimal_column_near) (use assms in auto)
  finally show ?thesis .
qed

lemma decimal_add:
  assumes "decimal_column P" "\<bar>j\<bar> \<le> 10 ^ 15" "\<bar>k\<bar> \<le> 10 ^ 15" "0 \<le> j + k" "j + k \<le> 10 ^ 15 - 10"
  shows "decimal_to P (js_add (decimal_from (Cents j)) (decimal_from (Cents k))) = Inr (Cents (j + k))"
proof -
  let ?x = "round_double (of_int j / 100)" and ?y = "round_double (of_int k / 100)"
  have n: "\<bar>?x - of_int j / 100\<bar> \<le> 1 / 1024" "\<bar>?y - of_int k / 100\<bar> \<le> 1 / 1024"
    using assms by (simp_all only: cents_near)
  have s: "\<bar>decimal_string (round_double (?x + ?y)) - of_int (j + k) / 100\<bar> < 1 / 200"
    by (rule cents_arithmetic[OF _ _ n]) (use assms in auto)
  have "\<bar>of_int (j + k) / 100\<bar> \<le> (10000000000000 :: rat)"
    using assms unfolding of_int_add[symmetric] by (simp add: abs_le_iff)
  then have "\<bar>?x + ?y\<bar> < 2 powi 44"
    using n unfolding of_int_add add_divide_distrib abs_le_iff abs_less_iff power_44 by linarith
  then have "js_add (decimal_from (Cents j)) (decimal_from (Cents k)) = Fin (round_double (?x + ?y))"
    using assms(2,3) by (simp only: decimal_from_cents js_add.simps to_number_small)
  then have "decimal_to P (js_add (decimal_from (Cents j)) (decimal_from (Cents k))) =
      numericOf P (Fin (decimal_string (round_double (?x + ?y))))"
    by (simp add: decimal_to_def)
  also have "\<dots> = Inr (Cents (j + k))" by (rule decimal_column_near[OF assms(1) s]) (use assms in auto)
  finally show ?thesis .
qed

lemma js_neg_decimal_from: "\<bar>k\<bar> \<le> 10 ^ 15 \<Longrightarrow> js_neg (decimal_from (Cents k)) = decimal_from (Cents (- k))"
  by (simp only: decimal_from_cents abs_minus_cancel js_neg.simps of_int_minus)
     (simp only: minus_divide_left[symmetric] round_double_minus)

lemma decimal_sub:
  assumes "decimal_column P" "\<bar>j\<bar> \<le> 10 ^ 15" "\<bar>k\<bar> \<le> 10 ^ 15" "k \<le> j" "j - k \<le> 10 ^ 15 - 10"
  shows "decimal_to P (js_sub (decimal_from (Cents j)) (decimal_from (Cents k))) = Inr (Cents (j - k))"
  using decimal_add[OF assms(1), of j "- k"] assms by (simp add: js_sub_def js_neg_decimal_from del: decimal_from.simps)

lemma decimal_from_mono: "j \<le> k \<Longrightarrow> \<bar>j\<bar> \<le> 10 ^ 15 \<Longrightarrow> \<bar>k\<bar> \<le> 10 ^ 15 \<Longrightarrow>
   js_less_eq (decimal_from (Cents j)) (decimal_from (Cents k))"
  by (simp add: decimal_from_cents round_double_mono del: decimal_from.simps)

lemma decimal_from_less:
  assumes "\<bar>j\<bar> \<le> 10 ^ 15" "0 \<le> k" "k \<le> 10 ^ 15"
  shows "js_less (decimal_from (Cents j)) (decimal_from (Cents k)) \<longleftrightarrow> j < k"
proof -
  have "round_double (of_int j / 100) < round_double (of_int k / 100) \<longleftrightarrow> j < k"
    using cents_unique[OF assms(2,3), of j] round_double_mono[of "of_int j / 100" "of_int k / 100"]
      round_double_mono[of "of_int k / 100" "of_int j / 100"]
    by (cases j k rule: linorder_cases) (auto simp: order_less_le divide_right_mono)
  then show ?thesis using assms by (simp add: decimal_from_cents del: decimal_from.simps)
qed

lemma decimal_to_nonneg:
  assumes "decimal_column P" "nonneg a" "decimal_to P a = Inr (Cents k)" "is_double a"
  shows "0 \<le> k \<or> a = PosInf"
proof (cases a)
  case (Fin x)
  have "0 \<le> round_double (decimal_string x)"
    using assms(2,4) Fin by (simp add: decimal_string_roundtrip)
  have "0 \<le> decimal_string x"
  proof (rule ccontr)
    assume "\<not> 0 \<le> decimal_string x"
    then have "round_double (decimal_string x) \<le> 0" using round_double_mono[of "decimal_string x" 0] by simp
    then have "x = 0" using assms(2,4) Fin by (simp add: decimal_string_roundtrip)
    then show False using \<open>\<not> 0 \<le> decimal_string x\<close> by (simp add: decimal_string_def)
  qed
  moreover have "\<bar>100 * decimal_string x - of_int k\<bar> \<le> 1 / 2"
    using assms(1,3) Fin unfolding decimal_column_def decimal_to_def by fastforce
  ultimately have "- (1 / 2) \<le> (of_int k :: rat)" unfolding abs_le_iff by linarith
  then show ?thesis by linarith
qed (use assms in auto)


text \<open>Sums of cents in floating point: within a range, a sum is off by less than half a cent.\<close>

lemma decimal_sum:
  assumes "\<bar>d\<bar> \<le> 10 ^ 15" "\<bar>k\<bar> \<le> 10 ^ 15" "0 \<le> d + k" "d + k \<le> 10 ^ 15"
  shows "\<exists>x. js_add (decimal_from (Cents d)) (decimal_from (Cents k)) = Fin (round_double x) \<and>
    \<bar>x - of_int (d + k) / 100\<bar> \<le> 2 / 1024 \<and> \<bar>round_double x - x\<bar> \<le> 1 / 1024"
proof -
  let ?x = "round_double (of_int d / 100)" and ?y = "round_double (of_int k / 100)"
  have n: "\<bar>?x - of_int d / 100\<bar> \<le> 1 / 1024" "\<bar>?y - of_int k / 100\<bar> \<le> 1 / 1024"
    using assms(1,2) by (simp_all only: cents_near)
  then have near: "\<bar>?x + ?y - of_int (d + k) / 100\<bar> \<le> 2 / 1024"
    unfolding of_int_add add_divide_distrib abs_le_iff by linarith
  have "0 \<le> (of_int (d + k) / 100 :: rat)" "of_int (d + k) / 100 \<le> (10000000000000 :: rat)"
    using assms(3,4) unfolding of_int_add[symmetric] by simp_all
  then have small: "\<bar>?x + ?y\<bar> < 2 powi 44"
    using near unfolding abs_le_iff abs_less_iff power_44 by linarith
  then have "js_add (decimal_from (Cents d)) (decimal_from (Cents k)) = Fin (round_double (?x + ?y))"
    using assms(1,2) by (simp only: decimal_from_cents js_add.simps to_number_small)
  moreover have "\<bar>round_double (?x + ?y) - (?x + ?y)\<bar> \<le> 1 / 1024"
    using round_double_error_below[OF small] by (simp add: power_int_minus)
  ultimately show ?thesis using near by blast
qed

text \<open>A sum that is a cent above a bound is above it in floating point too.\<close>

lemma decimal_sum_above:
  assumes "0 \<le> d" "0 \<le> k" "l < d + k" "d + k \<le> 10 ^ 15" "0 \<le> l"
  shows "js_less (decimal_from (Cents l)) (js_add (decimal_from (Cents d)) (decimal_from (Cents k)))"
proof -
  obtain x where x: "js_add (decimal_from (Cents d)) (decimal_from (Cents k)) = Fin (round_double x)"
      "\<bar>x - of_int (d + k) / 100\<bar> \<le> 2 / 1024" "\<bar>round_double x - x\<bar> \<le> 1 / 1024"
    using decimal_sum[of d k] assms by auto
  have l: "\<bar>l\<bar> \<le> 10 ^ 15" using assms by auto
  have "of_int l + 1 \<le> (of_int (d + k) :: rat)" using assms(3) by linarith
  then have "round_double (of_int l / 100) < round_double x"
    using x(2,3) cents_near[OF l] unfolding abs_le_iff of_int_add add_divide_distrib by linarith
  then show ?thesis unfolding x(1) decimal_from_cents[OF l] by simp
qed

text \<open>A sum that stays a cent below a bound is not above it in floating point either.\<close>

lemma decimal_sum_below:
  assumes "0 \<le> d" "0 \<le> k" "d + k < l" "l \<le> 10 ^ 15"
  shows "\<not> js_less (decimal_from (Cents l)) (js_add (decimal_from (Cents d)) (decimal_from (Cents k)))"
proof -
  obtain x where x: "js_add (decimal_from (Cents d)) (decimal_from (Cents k)) = Fin (round_double x)"
      "\<bar>x - of_int (d + k) / 100\<bar> \<le> 2 / 1024"
    using decimal_sum[of d k] assms by auto
  have l: "\<bar>l\<bar> \<le> 10 ^ 15" using assms by auto
  have "of_int (d + k) + 1 \<le> (of_int l :: rat)" using assms(3) by linarith
  then have "x \<le> of_int l / 100" using x(2) unfolding abs_le_iff of_int_add add_divide_distrib by linarith
  from round_double_mono[OF this] show ?thesis unfolding x(1) decimal_from_cents[OF l] by simp
qed

end
