(* ===== verification/World.thy ===== *)
theory World imports Persistence
begin

text \<open>
  The state a handler shares with the rest of the system, and the calls it makes to services.

  The world has the committed tables (\<open>db\<close>), the working copy of the open transaction
  (\<open>tx\<close>), the outbox events queued by the running transaction, the Redis keys, the messages
  the broker accepted (exchange, routing key, body), whether the publisher and the consumer have their channels, the clock, the in-memory flags
  of the background services, what the fraud consumer did on its channel, and the triggers of the
  event table.

  Every call to a service goes through \<open>extern\<close>, which consults the \<open>script\<close>: the replies
  the environment has in store. A call can succeed after some time, fail (whether or not it took
  effect: the connection may be lost after the server acted) or be the last thing the process does
  (again whether or not it took effect). An exhausted script means that every further call
  succeeds at once. A theorem about all scripts is a theorem about all failures and crashes.

  SQL statements run against the working copy while a transaction is open and against the
  committed tables otherwise; a Redis key is visible until its expiry time.
\<close>

datatype redis_value = RStr string | RNum number | RZset "(string \<times> number) list"

record redis_entry =
  redis_value :: redis_value
  expires :: "int option"

datatype reply = Ack nat | Fail bool error | Die bool

text \<open>
  A message a consumer is handed: the JSON value of its content (none if it does not parse), its
  routing key and the value of its \<open>x-retry-count\<close> header, which may be any; and what the consumer does on its channel.
\<close>

record amqp_message =
  content :: "json option"
  routing_key :: "string option"
  retry_count :: "json option"

datatype channel_action =
    MsgAck amqp_message
  | MsgNack amqp_message
  | MsgSend string amqp_message

text \<open>
  The functions and row triggers of the event table. A function is called before a row is updated or
  deleted and raises an error or lets the change pass.
\<close>

datatype row_change = Updating | Deleting

record trigger =
  trigger_name :: string
  trigger_on :: row_change
  trigger_function :: string

record schema =
  trigger_functions :: "string \<Rightarrow> (row_change \<Rightarrow> error option) option"
  triggers :: "trigger list"

definition no_triggers :: schema where
  "no_triggers = \<lparr>trigger_functions = Map.empty, triggers = []\<rparr>"

record world =
  db :: tables
  tx :: "tables option"
  eventsToPublish :: "outbox_event list"
  redis :: "string \<Rightarrow> redis_entry option"
  broker :: "(string \<times> string \<times> json) list"
  publisherConnected :: bool
  consumerConnected :: bool
  clock :: int
  isProcessing :: bool
  isRecovering :: bool
  channel :: "channel_action list"
  schema :: schema
  script :: "reply list"

type_synonym 'a handler = "(world, error, 'a) program"

definition new_world :: "tables \<Rightarrow> int \<Rightarrow> reply list \<Rightarrow> world" where
  "new_world t now rs = \<lparr>db = t, tx = None, eventsToPublish = [], redis = Map.empty, broker = [],
     publisherConnected = True, consumerConnected = True, clock = now, isProcessing = False, isRecovering = False, channel = [], schema = no_triggers, script = rs\<rparr>"

section \<open>Calls to services\<close>

definition perform :: "(world \<Rightarrow> (error + 'a) \<times> world) \<Rightarrow> 'a handler" where
  "perform call = (\<lambda>w. case call w of (Inl e, w') \<Rightarrow> (Throw e, w') | (Inr a, w') \<Rightarrow> (Ok a, w'))"

definition extern :: "(world \<Rightarrow> (error + 'a) \<times> world) \<Rightarrow> 'a handler" where
  "extern call = (\<lambda>w. case script w of
     [] \<Rightarrow> perform call w
   | Ack d # rs \<Rightarrow> perform call (w\<lparr>script := rs, clock := clock w + int d\<rparr>)
   | Fail applied e # rs \<Rightarrow> (Throw e, if applied then snd (call (w\<lparr>script := rs\<rparr>)) else w\<lparr>script := rs\<rparr>)
   | Die applied # rs \<Rightarrow> (Crash, if applied then snd (call (w\<lparr>script := rs\<rparr>)) else w\<lparr>script := rs\<rparr>))"

text \<open>A SQL statement through the manager of a transaction, and one through a plain repository.\<close>

definition in_tx :: "(int \<Rightarrow> tables \<Rightarrow> error + 'a \<times> tables) \<Rightarrow> world \<Rightarrow> (error + 'a) \<times> world" where
  "in_tx f w = (case tx w of
     Some t \<Rightarrow> (case f (clock w) t of Inl e \<Rightarrow> (Inl e, w) | Inr (a, t') \<Rightarrow> (Inr a, w\<lparr>tx := Some t'\<rparr>))
   | None \<Rightarrow> (case f (clock w) (db w) of Inl e \<Rightarrow> (Inl e, w) | Inr (a, t') \<Rightarrow> (Inr a, w\<lparr>db := t'\<rparr>)))"

definition in_db :: "(int \<Rightarrow> tables \<Rightarrow> error + 'a \<times> tables) \<Rightarrow> world \<Rightarrow> (error + 'a) \<times> world" where
  "in_db f w = (case f (clock w) (db w) of
     Inl e \<Rightarrow> (Inl e, w) | Inr (a, t') \<Rightarrow> (Inr a, w\<lparr>db := t'\<rparr>))"

definition manager_sql :: "(int \<Rightarrow> tables \<Rightarrow> error + 'a \<times> tables) \<Rightarrow> 'a handler" where
  "manager_sql f = extern (in_tx f)"

definition repository_sql :: "(int \<Rightarrow> tables \<Rightarrow> error + 'a \<times> tables) \<Rightarrow> 'a handler" where
  "repository_sql f = extern (in_db f)"

text \<open>A statement that only reads.\<close>

definition reading :: "(tables \<Rightarrow> 'a) \<Rightarrow> int \<Rightarrow> tables \<Rightarrow> error + 'a \<times> tables" where
  "reading f now t = Inr (f t, t)"

section \<open>Statements on the tables\<close>

definition find_wallet :: "string \<Rightarrow> int \<Rightarrow> tables \<Rightarrow> error + wallet option \<times> tables" where
  "find_wallet i = reading (\<lambda>t. map_option (wallet_of_row i) (wallets t i))"

text \<open>A saved entity has the version and the times the database assigned, the time of creation if the row is
  new.\<close>

definition saved_wallet :: "wallet_row option \<Rightarrow> wallet_row \<Rightarrow> wallet \<Rightarrow> wallet" where
  "saved_wallet old r w = w\<lparr>version := row_version r,
     createdAt := (case old of None \<Rightarrow> Some (row_createdAt r) | Some _ \<Rightarrow> createdAt w),
     updatedAt := Some (row_updatedAt r)\<rparr>"

definition save_wallet :: "platform \<Rightarrow> wallet \<Rightarrow> int \<Rightarrow> tables \<Rightarrow> error + wallet \<times> tables" where
  "save_wallet P w now t =
     check (row_of_wallet P now (wallets t (wallet_id w)) w) (\<lambda>r.
     Inr (saved_wallet (wallets t (wallet_id w)) r w, t\<lparr>wallets := (wallets t)(wallet_id w \<mapsto> r)\<rparr>))"

definition insert_wallet_on_conflict_do_nothing ::
  "string \<Rightarrow> string \<Rightarrow> int \<Rightarrow> tables \<Rightarrow> error + unit \<times> tables" where
  "insert_wallet_on_conflict_do_nothing i cur now t =
     check (varchar 255 i) (\<lambda>_. check (varchar 3 cur) (\<lambda>_.
     Inr ((), if wallets t i = None then t\<lparr>wallets := (wallets t)(i \<mapsto> default_row now cur)\<rparr> else t)))"

definition count_events :: "string \<Rightarrow> int \<Rightarrow> tables \<Rightarrow> error + nat \<times> tables" where
  "count_events i = reading (\<lambda>t. length (filter (\<lambda>e. log_walletId e = i) (walletEvents t)))"

definition insert_event :: "platform \<Rightarrow> wallet_event \<Rightarrow> int \<Rightarrow> tables \<Rightarrow> error + nat \<times> tables" where
  "insert_event P e now t =
     check (event_row_of P now (Suc (length (walletEvents t))) e) (\<lambda>r.
     Inr (log_id r, t\<lparr>walletEvents := walletEvents t @ [r]\<rparr>))"

definition find_saga :: "string \<Rightarrow> int \<Rightarrow> tables \<Rightarrow> error + transfer_saga option \<times> tables" where
  "find_saga i = reading (\<lambda>t. map_option (saga_of_row i) (sagas t i))"

text \<open>Saving a saga without an identifier inserts it under a generated one.\<close>

definition save_saga :: "platform \<Rightarrow> transfer_saga \<Rightarrow> int \<Rightarrow> tables \<Rightarrow> error + transfer_saga \<times> tables" where
  "save_saga P s now t =
     (if saga_id s = []
      then let i = uuidOf P (uuidCount t) in
        check (row_of_saga P now None s) (\<lambda>r.
        Inr (s\<lparr>saga_id := i, saga_createdAt := Some now, saga_updatedAt := Some now\<rparr>,
          t\<lparr>sagas := (sagas t)(i \<mapsto> r), uuidCount := Suc (uuidCount t)\<rparr>))
      else check (row_of_saga P now (sagas t (saga_id s)) s) (\<lambda>r.
        Inr (s\<lparr>saga_updatedAt := Some now\<rparr>, t\<lparr>sagas := (sagas t)(saga_id s \<mapsto> r)\<rparr>)))"

definition find_idempotency_key :: "string \<Rightarrow> int \<Rightarrow> tables \<Rightarrow> error + idempotency_key option \<times> tables" where
  "find_idempotency_key i = reading (\<lambda>t.
     map_option (\<lambda>r. \<lparr>key_requestId = i, key_response = r\<rparr>) (idempotencyKeys t i))"

text \<open>A key saved a second time keeps the time of its creation.\<close>

definition put_key :: "string \<Rightarrow> json \<Rightarrow> int \<Rightarrow> tables \<Rightarrow> tables" where
  "put_key i response now t = t\<lparr>idempotencyKeys := (idempotencyKeys t)(i \<mapsto> response),
     keyTimes := (keyTimes t)(i \<mapsto> (case keyTimes t i of None \<Rightarrow> now | Some created \<Rightarrow> created))\<rparr>"

definition save_idempotency_key :: "idempotency_key \<Rightarrow> int \<Rightarrow> tables \<Rightarrow> error + unit \<times> tables" where
  "save_idempotency_key k now t =
     check (varchar 255 (key_requestId k)) (\<lambda>i.
     Inr ((), put_key i (jsonb (key_response k)) now t))"

lemma put_key_simps [simp]:
  "wallets (put_key i j now t) = wallets t" "walletEvents (put_key i j now t) = walletEvents t"
  "sagas (put_key i j now t) = sagas t" "outboxEvents (put_key i j now t) = outboxEvents t"
  "uuidCount (put_key i j now t) = uuidCount t" "fraudAlerts (put_key i j now t) = fraudAlerts t"
  "idempotencyKeys (put_key i j now t) = (idempotencyKeys t)(i \<mapsto> j)"
  by (simp_all add: put_key_def)

text \<open>One statement saves all outbox events, each under a generated identifier, unpublished.\<close>

fun insert_outbox :: "platform \<Rightarrow> outbox_event list \<Rightarrow> int \<Rightarrow> tables \<Rightarrow> tables" where
  "insert_outbox P [] now t = t"
| "insert_outbox P (e # es) now t = insert_outbox P es now
     (t\<lparr>outboxEvents := outboxEvents t @ [\<lparr>out_id = uuidOf P (uuidCount t),
          out_aggregateId = aggregateId e, out_type = outbox_type e, out_payload = jsonb (payload e),
          out_createdAt = now, published = False\<rparr>],
        uuidCount := Suc (uuidCount t)\<rparr>)"

section \<open>Redis\<close>

definition live :: "int \<Rightarrow> redis_entry \<Rightarrow> bool" where
  "live now r \<longleftrightarrow> (case expires r of None \<Rightarrow> True | Some t \<Rightarrow> now < t)"

definition redis_lookup :: "string \<Rightarrow> world \<Rightarrow> redis_value option" where
  "redis_lookup k w = (case redis w k of
     Some r \<Rightarrow> if live (clock w) r then Some (redis_value r) else None | None \<Rightarrow> None)"

definition redis_get :: "string \<Rightarrow> redis_value option handler" where
  "redis_get k = extern (\<lambda>w. (Inr (redis_lookup k w), w))"

text \<open>\<open>SET key value EX seconds\<close>, and with \<open>NX\<close>: only if the key does not exist.\<close>

definition redis_set_ex :: "string \<Rightarrow> redis_value \<Rightarrow> int \<Rightarrow> unit handler" where
  "redis_set_ex k v seconds = extern (\<lambda>w. (Inr (),
     w\<lparr>redis := (redis w)(k \<mapsto> \<lparr>redis_value = v, expires = Some (clock w + 1000 * seconds)\<rparr>)\<rparr>))"

definition redis_set_ex_nx :: "string \<Rightarrow> redis_value \<Rightarrow> int \<Rightarrow> bool handler" where
  "redis_set_ex_nx k v seconds = extern (\<lambda>w.
     if redis_lookup k w = None
     then (Inr True, w\<lparr>redis := (redis w)(k \<mapsto> \<lparr>redis_value = v, expires = Some (clock w + 1000 * seconds)\<rparr>)\<rparr>)
     else (Inr False, w))"

definition redis_del :: "string \<Rightarrow> unit handler" where
  "redis_del k = extern (\<lambda>w. (Inr (), w\<lparr>redis := (redis w)(k := None)\<rparr>))"

section \<open>Transactions of the query runner\<close>

definition connect :: "unit handler" where
  "connect = extern (\<lambda>w. (Inr (), w))"

definition startTransaction :: "unit handler" where
  "startTransaction = extern (\<lambda>w. (Inr (), w\<lparr>tx := Some (db w)\<rparr>))"

definition commitTransaction :: "unit handler" where
  "commitTransaction = extern (\<lambda>w. (Inr (), case tx w of Some t \<Rightarrow> w\<lparr>db := t, tx := None\<rparr> | None \<Rightarrow> w))"

definition rollbackTransaction :: "unit handler" where
  "rollbackTransaction = extern (\<lambda>w. (Inr (), w\<lparr>tx := None\<rparr>))"

definition release :: "unit handler" where
  "release = extern (\<lambda>w. (Inr (), w))"

section \<open>How calls run\<close>

lemma perform_run [run_simps]:
  "perform call w = (case call w of (Inl e, w') \<Rightarrow> (Throw e, w') | (Inr a, w') \<Rightarrow> (Ok a, w'))"
  by (simp add: perform_def)

lemma extern_run [run_simps]:
  "script w = [] \<Longrightarrow> extern call w = perform call w"
  "script w = Ack d # rs \<Longrightarrow> extern call w = perform call (w\<lparr>script := rs, clock := clock w + int d\<rparr>)"
  "script w = Fail applied e # rs \<Longrightarrow> extern call w =
     (Throw e, if applied then snd (call (w\<lparr>script := rs\<rparr>)) else w\<lparr>script := rs\<rparr>)"
  "script w = Die applied # rs \<Longrightarrow> extern call w =
     (Crash, if applied then snd (call (w\<lparr>script := rs\<rparr>)) else w\<lparr>script := rs\<rparr>)"
  by (simp_all add: extern_def)

text \<open>
  A call keeps a step relation that its effect keeps and that time and the script do not matter to.
\<close>

lemma obeys_extern:
  assumes trans: "\<And>s t u. R s t \<Longrightarrow> R t u \<Longrightarrow> R s u"
    and env: "\<And>w rs now. R w (w\<lparr>script := rs, clock := now\<rparr>)"
    and call: "\<And>w. R w (snd (call w))"
  shows "obeys R (extern call)"
proof -
  have p: "R w (snd (perform call w))" for w
    using call[of w] by (auto simp: perform_def split: prod.split sum.split)
  have e: "R w (w\<lparr>script := rs\<rparr>)" for w rs
    using env[where w = w and rs = rs and now = "clock w"] by simp
  show ?thesis
    unfolding obeys_def extern_def
    using p env trans[OF env p] e call trans[OF e call]
    by (auto split: list.split reply.split)
qed

lemma establishes_extern:
  assumes "\<And>w a w'. P w \<Longrightarrow> call w = (Inr a, w') \<Longrightarrow> Q a w'"
    and "\<And>w rs now. P w \<Longrightarrow> P (w\<lparr>script := rs, clock := now\<rparr>)"
  shows "establishes P (extern call) Q"
  unfolding establishes_def extern_def perform_def
  by (auto split: list.splits reply.splits prod.splits sum.splits intro: assms)

end
