(* ===== verification/Transaction.thy ===== *)
theory Transaction imports World
begin

text \<open>
  \<open>TransactionManager.execute\<close> of
  \<open>src/infrastructure/database/transaction-manager.service.ts\<close>, the outbox repository it
  writes through, and the retry-free transaction wrapper of the wallet repository.

  \<open>atomic_operation\<close> is the contract between the manager and the business operations it
  runs: an operation touches nothing but the working copy and the queue of outbox events, and what
  it does to them is described by a relation. Under the contract, whatever the environment does to
  the calls, the committed tables end up either as they were or as the operation made them
  together with the outbox rows of its events (\<open>execute_all_or_nothing\<close>), and a resolved
  promise means the latter (\<open>execute_ok\<close>).
\<close>

section \<open>The outbox repository\<close>

text \<open>\<open>manager ? manager.getRepository(E) : this.repository\<close>.\<close>

definition sql :: "bool \<Rightarrow> (int \<Rightarrow> tables \<Rightarrow> error + 'a \<times> tables) \<Rightarrow> 'a handler" where
  "sql manager f = (if manager then manager_sql f else repository_sql f)"

definition new_outbox_event :: "string \<Rightarrow> wallet_event_type \<Rightarrow> json \<Rightarrow> outbox_event" where
  "new_outbox_event i ty p = \<lparr>aggregateId = i, outbox_type = event_type_text ty, payload = p\<rparr>"

definition outbox_saveAll :: "platform \<Rightarrow> outbox_event list \<Rightarrow> bool \<Rightarrow> unit handler" where
  "outbox_saveAll P es manager = sql manager (\<lambda>now t. Inr ((), insert_outbox P es now t))"

definition findUnpublished :: "nat \<Rightarrow> outbox_row list handler" where
  "findUnpublished limit = repository_sql (reading (\<lambda>t.
     take limit (sort_key out_createdAt (filter (\<lambda>r. \<not> published r) (outboxEvents t)))))"

definition set_published :: "string list \<Rightarrow> tables \<Rightarrow> tables" where
  "set_published ids t = t\<lparr>outboxEvents :=
     map (\<lambda>r. if out_id r \<in> set ids then r\<lparr>published := True\<rparr> else r) (outboxEvents t)\<rparr>"

definition markAsPublished :: "string list \<Rightarrow> unit handler" where
  "markAsPublished ids = (if ids = [] then ret ()
     else repository_sql (\<lambda>now t. Inr ((), set_published ids t)))"

section \<open>The transaction manager\<close>

record transaction_options =
  lockKey :: "string option"
  lockTtl :: int

definition default_options :: transaction_options where
  "default_options = \<lparr>lockKey = None, lockTtl = 60\<rparr>"

text \<open>\<open>if (s)\<close> for an optional string: undefined and the empty string are false.\<close>

definition given :: "string option \<Rightarrow> bool" where
  "given z \<longleftrightarrow> (case z of None \<Rightarrow> False | Some s \<Rightarrow> s \<noteq> [])"

definition acquireLock :: "transaction_options \<Rightarrow> unit handler" where
  "acquireLock opts = run_if (given (lockKey opts))
     (await (redis_set_ex_nx (the (lockKey opts)) (RStr ''PROCESSING'') (lockTtl opts)) (\<lambda>acquired.
      if \<not> acquired then throw (ConflictException ''Concurrent request in progress'') else ret ()))"

definition publishEvent :: "outbox_event \<Rightarrow> unit handler" where
  "publishEvent e = modify (\<lambda>w. w\<lparr>eventsToPublish := eventsToPublish w @ [e]\<rparr>)"

definition execute :: "platform \<Rightarrow> 'a handler \<Rightarrow> transaction_options \<Rightarrow> 'a handler" where
  "execute P operation opts =
     await (acquireLock opts) (\<lambda>_.
     await connect (\<lambda>_.
     await startTransaction (\<lambda>_.
     await (modify (\<lambda>w. w\<lparr>eventsToPublish := []\<rparr>)) (\<lambda>_.
     try_finally
       (try_catch
         (await operation (\<lambda>result.
          await get_state (\<lambda>w.
          await (run_if (eventsToPublish w \<noteq> []) (outbox_saveAll P (eventsToPublish w) True)) (\<lambda>_.
          await commitTransaction (\<lambda>_.
          ret result)))))
         (\<lambda>e. await rollbackTransaction (\<lambda>_. throw e)))
       (await release (\<lambda>_.
        run_if (given (lockKey opts)) (redis_del (the (lockKey opts)))))))))"

text \<open>\<open>WalletRepository.runInTransaction\<close>.\<close>

definition runInTransaction :: "'a handler \<Rightarrow> 'a handler" where
  "runInTransaction operation =
     await connect (\<lambda>_.
     await startTransaction (\<lambda>_.
     try_finally
       (try_catch
         (await operation (\<lambda>result. await commitTransaction (\<lambda>_. ret result)))
         (\<lambda>e. await rollbackTransaction (\<lambda>_. throw e)))
       release))"

section \<open>Relations every call keeps\<close>

text \<open>The committed tables and whether a transaction is open stay as they are.\<close>

definition inside_tx :: "world \<Rightarrow> world \<Rightarrow> bool" where
  "inside_tx w w' \<longleftrightarrow> (tx w \<noteq> None \<longrightarrow> db w' = db w \<and> tx w' \<noteq> None)"

definition same_tables :: "world \<Rightarrow> world \<Rightarrow> bool" where
  "same_tables w w' \<longleftrightarrow> db w' = db w"

interpretation tx_contract: step_contract inside_tx
  by unfold_locales (auto simp: inside_tx_def)

interpretation tables_contract: step_contract same_tables
  by unfold_locales (auto simp: same_tables_def)

lemma obeys_inside_manager_sql [step_rules]: "obeys inside_tx (manager_sql f)"
  unfolding manager_sql_def
  by (rule obeys_extern) (auto simp: inside_tx_def in_tx_def split: option.splits sum.splits)

lemma obeys_inside_sql [step_rules]: "obeys inside_tx (sql True f)"
  by (simp add: sql_def obeys_inside_manager_sql)

lemma obeys_inside_modify [step_rules]: "obeys inside_tx (publishEvent e)"
  by (simp add: obeys_def publishEvent_def modify_def inside_tx_def)

lemma obeys_tables_redis [step_rules]:
  "obeys same_tables (redis_get k)" "obeys same_tables (redis_set_ex k v n)"
  "obeys same_tables (redis_set_ex_nx k v n)" "obeys same_tables (redis_del k)"
  unfolding redis_get_def redis_set_ex_def redis_set_ex_nx_def redis_del_def
  by (rule obeys_extern; simp add: same_tables_def)+

lemma obeys_tables_runner [step_rules]:
  "obeys same_tables connect" "obeys same_tables startTransaction"
  "obeys same_tables rollbackTransaction" "obeys same_tables release"
  unfolding connect_def startTransaction_def rollbackTransaction_def release_def
  by (rule obeys_extern; simp add: same_tables_def)+

lemma obeys_tables_reading [step_rules]:
  "obeys same_tables (repository_sql (reading f))"
  unfolding repository_sql_def
  by (rule obeys_extern) (auto simp: same_tables_def in_db_def reading_def)

lemma obeys_tables_lock [step_rules]: "obeys same_tables (acquireLock opts)"
  unfolding acquireLock_def by (intro tables_contract.obeys_control step_rules)

text \<open>A program that leaves the committed tables alone keeps every property of them.\<close>

lemma keeps_of_same_tables: "obeys same_tables m \<Longrightarrow> obeys (invariant_step (\<lambda>w. J (db w))) m"
  unfolding obeys_def invariant_step_def same_tables_def by simp

section \<open>All or nothing\<close>

definition entry :: "tables \<Rightarrow> world \<Rightarrow> bool" where
  "entry t w \<longleftrightarrow> db w = t \<and> tx w = Some t \<and> eventsToPublish w = []"

text \<open>What a run of the manager leaves in the committed tables \<open>t\<close>.\<close>

definition transacted ::
  "platform \<Rightarrow> 'a handler \<Rightarrow> tables \<Rightarrow> (error, 'a) outcome \<Rightarrow> tables \<Rightarrow> bool" where
  "transacted P operation t r t' \<longleftrightarrow>
     (t' = t \<and> (\<forall>a. r \<noteq> Ok a)) \<or>
     (\<exists>a s s1 t1 now. entry t s \<and> operation s = (Ok a, s1) \<and> tx s1 = Some t1 \<and>
        t' = insert_outbox P (eventsToPublish s1) now t1 \<and> (\<forall>b. r = Ok b \<longrightarrow> b = a))"

lemma transacted_rejected:
  "transacted P operation t r t' \<Longrightarrow> \<forall>a. r' \<noteq> Ok a \<Longrightarrow> transacted P operation t r' t'"
  unfolding transacted_def by blast

lemma transacted_same: "t' = t \<Longrightarrow> \<forall>a. r \<noteq> Ok a \<Longrightarrow> transacted P operation t r t'"
  unfolding transacted_def by blast

lemma insert_outbox_Nil: "es = [] \<Longrightarrow> insert_outbox P es now t = t"
  by simp

text \<open>Saving the outbox and committing, from a working copy \<open>t1\<close>.\<close>

lemma outcomes_saveAll:
  "outcomes (\<lambda>w. db w = t \<and> tx w = Some t1) (outbox_saveAll P es True)
     (\<lambda>r w. db w = t \<and> (r = Ok () \<longrightarrow> (\<exists>now. tx w = Some (insert_outbox P es now t1))))"
  unfolding outbox_saveAll_def sql_def
  by (auto simp: outcomes_def manager_sql_def extern_def perform_def in_tx_def
      split: list.splits reply.splits if_splits)

lemma outcomes_commit:
  "outcomes (\<lambda>w. db w = t \<and> tx w = Some t1) commitTransaction
     (\<lambda>r w. db w = t1 \<or> (db w = t \<and> r \<noteq> Ok ()))"
  by (auto simp: outcomes_def commitTransaction_def extern_def perform_def
      split: list.splits reply.splits if_splits)

lemma outcomes_start:
  "outcomes (\<lambda>w. db w = t) startTransaction
     (\<lambda>r w. db w = t \<and> (r = Ok () \<longrightarrow> tx w = Some t))"
  by (auto simp: outcomes_def startTransaction_def extern_def perform_def
      split: list.splits reply.splits if_splits)

lemma outcomes_same_tables:
  "obeys same_tables m \<Longrightarrow> outcomes (\<lambda>w. J (db w)) m (\<lambda>r w. J (db w))"
  unfolding outcomes_def obeys_def same_tables_def by (metis snd_conv)

lemma outcomes_operation:
  assumes "obeys inside_tx operation"
  shows "outcomes (entry t) operation (\<lambda>r w. db w = t \<and>
     (\<forall>a. r = Ok a \<longrightarrow> (\<exists>s t1. entry t s \<and> operation s = (Ok a, w) \<and> tx w = Some t1)))"
proof (rule outcomesI)
  fix s r s' assume s: "entry t s" "operation s = (r, s')"
  have "inside_tx s s'" using assms s(2) by (rule obeysD)
  then have "db s' = t \<and> (\<exists>t1. tx s' = Some t1)" using s(1) by (auto simp: inside_tx_def entry_def)
  then show "db s' = t \<and> (\<forall>a. r = Ok a \<longrightarrow> (\<exists>s t1. entry t s \<and> operation s = (Ok a, s') \<and> tx s' = Some t1))"
    using s by blast
qed

lemma outcomes_commit_phase:
  assumes "entry t s" "operation s = (Ok a, s1)" "db s1 = t" "tx s1 = Some t1"
  shows "outcomes (\<lambda>w. w = s1)
    (await get_state (\<lambda>w.
     await (run_if (eventsToPublish w \<noteq> []) (outbox_saveAll P (eventsToPublish w) True)) (\<lambda>_.
     await commitTransaction (\<lambda>_. ret a))))
    (\<lambda>r w. transacted P operation t r (db w))"
proof -
  let ?es = "eventsToPublish s1"
  have t: "transacted P operation t r (insert_outbox P ?es now t1)" if "\<forall>b. r = Ok b \<longrightarrow> b = a" for r now
    unfolding transacted_def using assms that by blast
  have "outcomes (\<lambda>w. db w = t \<and> tx w = Some t1)
      (await (run_if (?es \<noteq> []) (outbox_saveAll P ?es True)) (\<lambda>_. await commitTransaction (\<lambda>_. ret a)))
      (\<lambda>r w. transacted P operation t r (db w))"
  proof (rule outcomes_await[where M = "\<lambda>r w. db w = t \<and> (r = Ok () \<longrightarrow> (\<exists>now. tx w = Some (insert_outbox P ?es now t1)))"])
    show "outcomes (\<lambda>w. db w = t \<and> tx w = Some t1) (run_if (?es \<noteq> []) (outbox_saveAll P ?es True))
        (\<lambda>r w. db w = t \<and> (r = Ok () \<longrightarrow> (\<exists>now. tx w = Some (insert_outbox P ?es now t1))))"
      by (rule outcomes_run_if[OF outcomes_saveAll]) simp
    show "outcomes (\<lambda>w. db w = t \<and> (Ok u = Ok () \<longrightarrow> (\<exists>now. tx w = Some (insert_outbox P ?es now t1))))
        (await commitTransaction (\<lambda>_. ret a)) (\<lambda>r w. transacted P operation t r (db w))" for u :: unit
    proof (rule outcomes_by_state)
      fix w :: world assume "db w = t \<and> (Ok u = Ok () \<longrightarrow> (\<exists>now. tx w = Some (insert_outbox P ?es now t1)))"
      then obtain now where w: "db w = t" "tx w = Some (insert_outbox P ?es now t1)" by auto
      show "outcomes (\<lambda>v. v = w) (await commitTransaction (\<lambda>_. ret a)) (\<lambda>r w. transacted P operation t r (db w))"
        by (rule outcomes_await[OF outcomes_weaken[OF outcomes_commit[of t "insert_outbox P ?es now t1"],
              where Q' = "\<lambda>r w. db w = insert_outbox P ?es now t1 \<or> (db w = t \<and> r \<noteq> Ok ())"]])
           (auto simp: w t intro: outcomes_ret transacted_same)
    qed
  qed (auto intro: transacted_same)
  then have "outcomes (\<lambda>w. w = s1)
      (await (run_if (?es \<noteq> []) (outbox_saveAll P ?es True)) (\<lambda>_. await commitTransaction (\<lambda>_. ret a)))
      (\<lambda>r w. transacted P operation t r (db w))"
    by (rule outcomes_weaken) (auto simp: assms)
  then show ?thesis
    by (simp add: outcomes_def await_run get_state_run)
qed

lemma obeys_tables_finish: "obeys same_tables (await release (\<lambda>_. run_if b (redis_del k)))"
  by (intro tables_contract.obeys_control step_rules)

lemma outcomes_rollback:
  "outcomes (\<lambda>w. db w = t) (await rollbackTransaction (\<lambda>_. throw e)) (\<lambda>r w. (\<forall>a. r \<noteq> Ok a) \<and> db w = t)"
  by (rule outcomes_await[OF outcomes_same_tables]) (auto intro: step_rules outcomes_throw)

text \<open>The \<open>try\<close>, \<open>catch\<close>, \<open>finally\<close> frame both transaction wrappers put around a body.\<close>

lemma outcomes_frame:
  assumes "outcomes I body (\<lambda>r w. J r (db w))" "obeys same_tables finish"
    and rejected: "\<And>r r' t. J r t \<Longrightarrow> \<forall>a. r' \<noteq> Ok a \<Longrightarrow> J r' t"
  shows "outcomes I (try_finally (try_catch body (\<lambda>e. await rollbackTransaction (\<lambda>_. throw e))) finish)
    (\<lambda>r w. J r (db w))"
proof (rule outcomes_try_finally)
  show "outcomes (\<lambda>w. J r (db w)) finish (\<lambda>r' s. J r (db s) \<and> (\<forall>e. r' = Throw e \<longrightarrow> J (Throw e) (db s)) \<and> J Crash (db s))" for r
    by (rule outcomes_weaken[OF outcomes_same_tables[OF assms(2), where J = "J r"]]) (auto intro: rejected)
  show "outcomes I (try_catch body (\<lambda>e. await rollbackTransaction (\<lambda>_. throw e))) (\<lambda>r w. J r (db w))"
  proof (rule outcomes_try_catch[OF assms(1)])
    show "outcomes (\<lambda>w. J (Throw e) (db w)) (await rollbackTransaction (\<lambda>_. throw e)) (\<lambda>r w. J r (db w))" for e
      by (rule outcomes_by_state, rule outcomes_weaken[OF outcomes_rollback]) (auto intro: rejected)
  qed auto
qed

lemma execute_transacted:
  assumes "obeys inside_tx operation"
  shows "outcomes (\<lambda>w. db w = t) (execute P operation opts) (\<lambda>r w. transacted P operation t r (db w))"
proof -
  have body: "outcomes (entry t)
      (await operation (\<lambda>result. await get_state (\<lambda>w.
       await (run_if (eventsToPublish w \<noteq> []) (outbox_saveAll P (eventsToPublish w) True)) (\<lambda>_.
       await commitTransaction (\<lambda>_. ret result))))) (\<lambda>r w. transacted P operation t r (db w))"
    by (rule outcomes_await[OF outcomes_operation[OF assms]])
       (auto intro: outcomes_by_state outcomes_commit_phase transacted_same)
  note main = outcomes_frame[OF body obeys_tables_finish transacted_rejected]
  show ?thesis
    unfolding execute_def
    apply (rule outcomes_await[OF outcomes_same_tables[OF obeys_tables_lock]])
      apply (rule outcomes_await[OF outcomes_same_tables[OF obeys_tables_runner(1)]])
        apply (rule outcomes_await[OF outcomes_start])
          apply (rule outcomes_await[where M = "\<lambda>r w. (r = Ok () \<and> entry t w)"])
             apply (auto simp: outcomes_def modify_def entry_def)[1]
            apply (rule outcomes_weaken[OF main])
             apply (auto intro: transacted_same)
    done
qed

text \<open>The same for the wrapper without an outbox.\<close>

definition transacted_plain :: "'a handler \<Rightarrow> tables \<Rightarrow> (error, 'a) outcome \<Rightarrow> tables \<Rightarrow> bool" where
  "transacted_plain operation t r t' \<longleftrightarrow>
     (t' = t \<and> (\<forall>a. r \<noteq> Ok a)) \<or>
     (\<exists>a s s1. db s = t \<and> tx s = Some t \<and> operation s = (Ok a, s1) \<and> tx s1 = Some t' \<and>
        (\<forall>b. r = Ok b \<longrightarrow> b = a))"

lemma transacted_plain_rejected:
  "transacted_plain operation t r t' \<Longrightarrow> \<forall>a. r' \<noteq> Ok a \<Longrightarrow> transacted_plain operation t r' t'"
  unfolding transacted_plain_def by blast

lemma transacted_plain_same: "t' = t \<Longrightarrow> \<forall>a. r \<noteq> Ok a \<Longrightarrow> transacted_plain operation t r t'"
  unfolding transacted_plain_def by blast

lemma runInTransaction_transacted:
  assumes "obeys inside_tx operation"
  shows "outcomes (\<lambda>w. db w = t) (runInTransaction operation) (\<lambda>r w. transacted_plain operation t r (db w))"
proof -
  let ?E = "\<lambda>w. db w = t \<and> tx w = Some t"
  have op: "outcomes ?E operation (\<lambda>r w. db w = t \<and>
      (\<forall>a. r = Ok a \<longrightarrow> (\<exists>s t1. ?E s \<and> operation s = (Ok a, w) \<and> tx w = Some t1)))"
  proof (rule outcomesI)
    fix s r s' assume s: "?E s" "operation s = (r, s')"
    have "inside_tx s s'" using assms s(2) by (rule obeysD)
    then have "db s' = t \<and> (\<exists>t1. tx s' = Some t1)" using s(1) by (auto simp: inside_tx_def)
    then show "db s' = t \<and> (\<forall>a. r = Ok a \<longrightarrow> (\<exists>s t1. ?E s \<and> operation s = (Ok a, s') \<and> tx s' = Some t1))"
      using s by blast
  qed
  have commit: "outcomes (\<lambda>w. w = s1) (await commitTransaction (\<lambda>_. ret a)) (\<lambda>r w. transacted_plain operation t r (db w))"
    if "?E s" "operation s = (Ok a, s1)" "db s1 = t" "tx s1 = Some t1" for s s1 t1 a
  proof -
    have fin: "transacted_plain operation t r t1" if "\<forall>b. r = Ok b \<longrightarrow> b = a" for r
      unfolding transacted_plain_def using \<open>?E s\<close> \<open>operation s = (Ok a, s1)\<close> \<open>tx s1 = Some t1\<close> that by blast
    show ?thesis
    proof (rule outcomes_await[OF outcomes_weaken[OF outcomes_commit[of t t1],
          where Q' = "\<lambda>r w. db w = t1 \<or> (db w = t \<and> r \<noteq> Ok ())"]])
      show "outcomes (\<lambda>w. db w = t1 \<or> db w = t \<and> Ok u \<noteq> Ok ()) (ret a)
          (\<lambda>r w. transacted_plain operation t r (db w))" for u :: unit
        by (rule outcomes_ret) (auto simp: fin)
    qed (use that fin in \<open>auto simp: transacted_plain_same simp del: not_None_eq\<close>)
  qed
  have body: "outcomes ?E (await operation (\<lambda>result. await commitTransaction (\<lambda>_. ret result)))
      (\<lambda>r w. transacted_plain operation t r (db w))"
    by (rule outcomes_await[OF op])
       ((rule outcomes_by_state, use commit in blast)?, auto intro: transacted_plain_same)
  note main = outcomes_frame[OF body obeys_tables_runner(4) transacted_plain_rejected]
  show ?thesis
    unfolding runInTransaction_def
    apply (rule outcomes_await[OF outcomes_same_tables[OF obeys_tables_runner(1)]])
      apply (rule outcomes_await[OF outcomes_start])
        apply (rule outcomes_weaken[OF main])
         apply (auto intro: transacted_plain_same)
    done
qed

section \<open>The contract of a business operation\<close>

text \<open>\<open>Q t a es t'\<close>: from the tables \<open>t\<close> the operation resolves to \<open>a\<close>, leaves the
  working copy \<open>t'\<close> and queues the events \<open>es\<close>.\<close>

locale atomic_operation =
  fixes operation :: "'a handler" and Q :: "tables \<Rightarrow> 'a \<Rightarrow> outbox_event list \<Rightarrow> tables \<Rightarrow> bool"
  assumes inside: "obeys inside_tx operation"
    and effect: "establishes (entry t) operation (\<lambda>a w. \<forall>t'. tx w = Some t' \<longrightarrow> Q t a (eventsToPublish w) t')"
begin

lemma execute_all_or_nothing:
  assumes "execute P operation opts w = (r, w')"
  obtains (nothing) "db w' = db w" "\<forall>a. r \<noteq> Ok a"
  | (all) a es t1 now where "Q (db w) a es t1" "db w' = insert_outbox P es now t1" "\<forall>b. r = Ok b \<longrightarrow> b = a"
proof -
  have "transacted P operation (db w) r (db w')"
    by (rule outcomesD[OF execute_transacted[OF inside] refl assms])
  then show ?thesis
    unfolding transacted_def using effect that unfolding establishes_def by blast
qed

text \<open>What the effect and the outbox keep of the committed tables, and what the effect
  establishes besides when the promise resolves.\<close>

lemma execute_outcomes:
  assumes "\<And>t a es t1. J t \<Longrightarrow> Q t a es t1 \<Longrightarrow> J t1 \<and> K a t1"
    and "\<And>t es now. J t \<Longrightarrow> J (insert_outbox P es now t)" "\<And>a t es now. K a t \<Longrightarrow> K a (insert_outbox P es now t)"
  shows "outcomes (\<lambda>w. J (db w)) (execute P operation opts) (\<lambda>r w. J (db w) \<and> (\<forall>a. r = Ok a \<longrightarrow> K a (db w)))"
proof (rule outcomesI)
  fix w r w' assume J: "J (db w)" and "execute P operation opts w = (r, w')"
  from this(2) show "J (db w') \<and> (\<forall>a. r = Ok a \<longrightarrow> K a (db w'))"
  proof (cases rule: execute_all_or_nothing)
    case nothing
    then show ?thesis using J by simp
  next
    case (all a es t1 now)
    then show ?thesis using assms(1)[OF J all(1)] assms(2,3) by auto
  qed
qed

lemma execute_keeps:
  assumes "\<And>t a es t1. J t \<Longrightarrow> Q t a es t1 \<Longrightarrow> J t1"
    and "\<And>t es now. J t \<Longrightarrow> J (insert_outbox P es now t)"
  shows "obeys (invariant_step (\<lambda>w. J (db w))) (execute P operation opts)"
proof (rule obeysI)
  fix w r w' assume run: "execute P operation opts w = (r, w')"
  have "J (db w) \<Longrightarrow> J (db w')"
    using outcomesD[OF execute_outcomes[where J = J and K = "\<lambda>_ _. True"] _ run] assms by simp
  then show "invariant_step (\<lambda>w. J (db w)) w w'" by (simp add: invariant_step_def)
qed

lemma execute_ok:
  assumes "execute P operation opts w = (Ok a, w')"
  obtains es t1 now where "Q (db w) a es t1" "db w' = insert_outbox P es now t1"
  using assms by (rule execute_all_or_nothing) auto

end

end
