(* ===== verification/Repositories.thy ===== *)
theory Repositories imports Transaction
begin

text \<open>
  The repositories the services use:
  \<open>src/modules/wallet/repositories/wallet.repository.ts\<close> (with the interface of
  \<open>src/modules/wallet/domain/interfaces\<close>),
  \<open>src/infrastructure/repositories/idempotency.repository.ts\<close> and
  \<open>src/modules/transfer/repositories/transfer-saga.repository.ts\<close>. The optional manager
  argument is a flag: whether the call runs inside the caller's transaction.

  The lemmas say what a call that resolves did to the working copy, that a call inside a
  transaction touches nothing else, and the functional behaviour of \<open>getOrCreate\<close> on each of
  its branches.
\<close>

section \<open>The wallet repository\<close>

definition findById :: "string \<Rightarrow> wallet option handler" where
  "findById i = repository_sql (find_wallet i)"

definition findByIdWithLock :: "string \<Rightarrow> bool \<Rightarrow> wallet option handler" where
  "findByIdWithLock i manager = sql manager (find_wallet i)"

definition save :: "platform \<Rightarrow> wallet \<Rightarrow> wallet handler" where
  "save P w = repository_sql (save_wallet P w)"

definition saveWithEvent_execute ::
  "platform \<Rightarrow> wallet \<Rightarrow> wallet_event_type \<Rightarrow> number option \<Rightarrow> json option \<Rightarrow> wallet handler" where
  "saveWithEvent_execute P w ty amount metadata =
     await (sql True (save_wallet P w)) (\<lambda>savedWallet.
     await (sql True (insert_event P (new_wallet_event (wallet_id w) ty (currency w) amount metadata))) (\<lambda>_.
     ret savedWallet))"

definition saveWithEvent ::
  "platform \<Rightarrow> wallet \<Rightarrow> wallet_event_type \<Rightarrow> number option \<Rightarrow> json option \<Rightarrow> bool \<Rightarrow> wallet handler" where
  "saveWithEvent P w ty amount metadata manager =
     (if manager then saveWithEvent_execute P w ty amount metadata
      else runInTransaction (saveWithEvent_execute P w ty amount metadata))"

definition getOrCreate_execute :: "platform \<Rightarrow> string \<Rightarrow> string \<Rightarrow> wallet handler" where
  "getOrCreate_execute P i cur =
     await (sql True (find_wallet i)) (\<lambda>found.
     case found of
       Some wallet \<Rightarrow> ret wallet
     | None \<Rightarrow>
         await (sql True (insert_wallet_on_conflict_do_nothing i cur)) (\<lambda>_.
         await (sql True (find_wallet i)) (\<lambda>found.
         case found of
           None \<Rightarrow> throw (PlainError (''Failed to retrieve or create wallet with ID: '' @ i))
         | Some wallet \<Rightarrow>
             await (sql True (count_events i)) (\<lambda>existingEvents.
             await (run_if (existingEvents = 0)
               (await (sql True (insert_event P (new_wallet_event i WALLET_CREATED cur None None))) (\<lambda>_. ret ()))) (\<lambda>_.
             ret wallet)))))"

definition getOrCreate :: "platform \<Rightarrow> string \<Rightarrow> string \<Rightarrow> bool \<Rightarrow> wallet handler" where
  "getOrCreate P i cur manager =
     (if manager then getOrCreate_execute P i cur else runInTransaction (getOrCreate_execute P i cur))"

text \<open>Newest first; rows with equal times stay in insertion order, where SQL leaves the order open.\<close>

definition getEventHistory :: "string \<Rightarrow> nat \<Rightarrow> nat \<Rightarrow> event_row list handler" where
  "getEventHistory i limit offset = repository_sql (reading (\<lambda>t.
     take limit (drop offset (sort_key (\<lambda>e. - log_createdAt e)
       (filter (\<lambda>e. log_walletId e = i) (walletEvents t))))))"

definition saveEvent :: "platform \<Rightarrow> wallet_event \<Rightarrow> nat handler" where
  "saveEvent P e = repository_sql (insert_event P e)"

section \<open>Idempotency keys and sagas\<close>

definition findByRequestId :: "string \<Rightarrow> idempotency_key option handler" where
  "findByRequestId i = repository_sql (find_idempotency_key i)"

definition idempotency_save :: "idempotency_key \<Rightarrow> bool \<Rightarrow> unit handler" where
  "idempotency_save k manager = sql manager (save_idempotency_key k)"

text \<open>The keys of more than so many hours ago. \<open>setHours\<close> counts in the local time of the process, which is a
  parameter, with its way back to UTC. Times are compared as points in time: that the driver writes the cut-off as local
  time into a column without a time zone, as it did with the times of the rows, makes no difference as
  long as the offset is the same, and a change of it (daylight saving) is left to the parameter. A row
  without a time would not be deleted, as SQL compares.\<close>

definition cutoff_date :: "(int \<Rightarrow> int) \<Rightarrow> (int \<Rightarrow> int) \<Rightarrow> int \<Rightarrow> int \<Rightarrow> int" where
  "cutoff_date local_time utc hoursOld now = utc (local_time now - 3600000 * hoursOld)"

definition created_before :: "int \<Rightarrow> tables \<Rightarrow> string \<Rightarrow> bool" where
  "created_before cutoff t i \<longleftrightarrow> (case keyTimes t i of None \<Rightarrow> False | Some created \<Rightarrow> created < cutoff)"

definition delete_keys_before :: "int \<Rightarrow> int \<Rightarrow> tables \<Rightarrow> error + unit \<times> tables" where
  "delete_keys_before cutoff now t = Inr ((), t\<lparr>
     idempotencyKeys := (\<lambda>i. if created_before cutoff t i then None else idempotencyKeys t i),
     keyTimes := (\<lambda>i. if created_before cutoff t i then None else keyTimes t i)\<rparr>)"

definition cleanupOld :: "(int \<Rightarrow> int) \<Rightarrow> (int \<Rightarrow> int) \<Rightarrow> int \<Rightarrow> unit handler" where
  "cleanupOld local_time utc hoursOld = await get_state (\<lambda>w.
     repository_sql (delete_keys_before (cutoff_date local_time utc hoursOld (clock w))))"

definition saga_save :: "platform \<Rightarrow> transfer_saga \<Rightarrow> transfer_saga handler" where
  "saga_save P s = repository_sql (save_saga P s)"

definition saga_findById :: "string \<Rightarrow> transfer_saga option handler" where
  "saga_findById i = repository_sql (find_saga i)"

text \<open>Rows in the order in which the sagas were created, where SQL leaves the order open.\<close>

definition saga_list :: "platform \<Rightarrow> tables \<Rightarrow> transfer_saga list" where
  "saga_list P t = concat (map (\<lambda>n. case sagas t (uuidOf P n) of
     Some r \<Rightarrow> [saga_of_row (uuidOf P n) r] | None \<Rightarrow> []) [0..<uuidCount t])"

definition saga_findByState :: "platform \<Rightarrow> saga_state \<Rightarrow> transfer_saga list handler" where
  "saga_findByState P st = repository_sql (reading (\<lambda>t. filter (\<lambda>s. saga_state s = st) (saga_list P t)))"

definition saga_find :: "platform \<Rightarrow> (transfer_saga \<Rightarrow> bool) \<Rightarrow> nat \<Rightarrow> transfer_saga list handler" where
  "saga_find P cond limit = repository_sql (reading (\<lambda>t. take limit (filter cond (saga_list P t))))"

section \<open>Calls inside a transaction\<close>

lemma sql_Ok:
  assumes "sql True f w = (Ok a, w')"
  shows "\<exists>now. case tx w of None \<Rightarrow> True
    | Some t \<Rightarrow> \<exists>t'. f now t = Inr (a, t') \<and> tx w' = Some t' \<and> eventsToPublish w' = eventsToPublish w"
  using assms unfolding sql_def manager_sql_def extern_def perform_def in_tx_def
  by (auto split: list.splits reply.splits sum.splits prod.splits option.splits)

lemma find_wallet_Inr [simp]:
  "find_wallet i now t = Inr (z, t') \<longleftrightarrow> t' = t \<and> z = map_option (wallet_of_row i) (wallets t i)"
  by (auto simp: find_wallet_def reading_def)

lemma count_events_Inr [simp]:
  "count_events i now t = Inr (n, t') \<longleftrightarrow> t' = t \<and> n = length (filter (\<lambda>e. log_walletId e = i) (walletEvents t))"
  by (auto simp: count_events_def reading_def)

lemma find_saga_Inr [simp]:
  "find_saga i now t = Inr (z, t') \<longleftrightarrow> t' = t \<and> z = map_option (saga_of_row i) (sagas t i)"
  by (auto simp: find_saga_def reading_def)

lemma save_wallet_Inr:
  "save_wallet P w now t = Inr (u, t') \<longleftrightarrow> (\<exists>r. row_of_wallet P now (wallets t (wallet_id w)) w = Inr r \<and>
     u = saved_wallet (wallets t (wallet_id w)) r w \<and> t' = t\<lparr>wallets := (wallets t)(wallet_id w \<mapsto> r)\<rparr>)"
  by (auto simp: save_wallet_def check_Inr)

lemma insert_event_Inr:
  "insert_event P e now t = Inr (n, t') \<longleftrightarrow> (\<exists>r. event_row_of P now (Suc (length (walletEvents t))) e = Inr r \<and>
     n = log_id r \<and> t' = t\<lparr>walletEvents := walletEvents t @ [r]\<rparr>)"
  by (auto simp: insert_event_def check_Inr)

lemma find_lock_Ok:
  "findByIdWithLock i True w = (Ok z, w') \<Longrightarrow> tx w = Some t \<Longrightarrow>
   z = map_option (wallet_of_row i) (wallets t i) \<and> tx w' = Some t \<and> eventsToPublish w' = eventsToPublish w"
  unfolding findByIdWithLock_def by (auto dest!: sql_Ok)

lemma inside_findByIdWithLock [step_rules]: "obeys inside_tx (findByIdWithLock i True)"
  by (simp add: findByIdWithLock_def step_rules)

lemma inside_saveWithEvent [step_rules]: "obeys inside_tx (saveWithEvent P w ty a m True)"
  unfolding saveWithEvent_def saveWithEvent_execute_def if_True
  by (intro tx_contract.obeys_control step_rules)

lemma inside_getOrCreate_execute [step_rules]: "obeys inside_tx (getOrCreate_execute P i cur)"
  unfolding getOrCreate_execute_def by (intro tx_contract.obeys_control step_rules)

lemma inside_getOrCreate [step_rules]: "obeys inside_tx (getOrCreate P i cur True)"
  by (simp add: getOrCreate_def step_rules)

lemma inside_idempotency_save [step_rules]: "obeys inside_tx (idempotency_save k True)"
  by (simp add: idempotency_save_def step_rules)

section \<open>What a save stores\<close>

definition stored :: "platform \<Rightarrow> wallet \<Rightarrow> wallet_row \<Rightarrow> bool" where
  "stored P v r \<longleftrightarrow> decimal_to P (balance v) = Inr (row_balance r) \<and> row_currency r = currency v \<and>
     row_status r = status v \<and> decimal_to_nullable P (dailyWithdrawalLimit v) = Inr (row_limit r) \<and>
     decimal_to P (dailyWithdrawalTotal v) = Inr (row_total r) \<and> row_lastDate r = date_to P (lastWithdrawalDate v)"

definition logged ::
  "platform \<Rightarrow> string \<Rightarrow> wallet_event_type \<Rightarrow> string \<Rightarrow> number option \<Rightarrow> json option \<Rightarrow> event_row \<Rightarrow> bool" where
  "logged P i ty cur amount metadata e \<longleftrightarrow> log_walletId e = i \<and> log_type e = ty \<and> log_currency e = cur \<and>
     decimal_to_nullable P (event_amount (new_wallet_event i ty cur amount metadata)) = Inr (log_amount e) \<and>
     log_metadata e = jsonb (event_metadata (new_wallet_event i ty cur amount metadata))"

definition put :: "string \<Rightarrow> wallet_row \<Rightarrow> event_row list \<Rightarrow> tables \<Rightarrow> tables" where
  "put i r es t = t\<lparr>wallets := (wallets t)(i \<mapsto> r), walletEvents := walletEvents t @ es\<rparr>"

lemma put_simps [simp]:
  "wallets (put i r es t) = (wallets t)(i \<mapsto> r)" "walletEvents (put i r es t) = walletEvents t @ es"
  "sagas (put i r es t) = sagas t" "idempotencyKeys (put i r es t) = idempotencyKeys t"
  "outboxEvents (put i r es t) = outboxEvents t" "uuidCount (put i r es t) = uuidCount t"
  by (simp_all add: put_def)

lemma put_append [simp]: "(put i r [] t)\<lparr>walletEvents := walletEvents t @ es\<rparr> = put i r es t"
  by (simp add: put_def)

lemma put_inject [simp]: "put i r es t = put i r es' t \<longleftrightarrow> es = es'"
  by (metis put_simps(2) same_append_eq)

lemma varchar_Inr [simp]: "varchar n s = Inr s' \<longleftrightarrow> length s \<le> n \<and> s' = s"
  by (auto simp: varchar_def)

lemma row_of_wallet_stored: "row_of_wallet P now old v = Inr r \<Longrightarrow> stored P v r"
  by (auto simp: row_of_wallet_def stored_def check_Inr)

lemma event_row_of_logged:
  "event_row_of P now n (new_wallet_event i ty cur amount metadata) = Inr e \<Longrightarrow> logged P i ty cur amount metadata e"
  by (auto simp: event_row_of_def logged_def check_Inr new_wallet_event_def split: if_splits)

lemma saveWithEvent_Ok:
  "saveWithEvent P v ty a m True w = (Ok u, w') \<Longrightarrow> tx w = Some t \<Longrightarrow>
   \<exists>r e. stored P v r \<and> logged P (wallet_id v) ty (currency v) a m e \<and>
     tx w' = Some (put (wallet_id v) r [e] t) \<and> eventsToPublish w' = eventsToPublish w"
  unfolding saveWithEvent_def saveWithEvent_execute_def if_True
  by (fastforce simp: run_inv save_wallet_Inr insert_event_Inr put_def
      dest!: sql_Ok row_of_wallet_stored event_row_of_logged)

section \<open>The interface of the wallet repository\<close>

text \<open>
  What a service relies on of \<open>IWalletRepository\<close> inside a transaction: a lookup returns what
  the row of the working copy reads as, a save stores the wallet and logs one event, and neither
  touches anything else. In the contract, a wallet that is read, changed by an operation that
  keeps its identifier, and saved has the effect \<open>modify_wallet\<close> states.
\<close>

locale wallet_repository =
  fixes lookup :: "string \<Rightarrow> wallet option handler"
    and store :: "wallet \<Rightarrow> wallet_event_type \<Rightarrow> number option \<Rightarrow> json option \<Rightarrow> wallet handler"
    and persisted :: "wallet \<Rightarrow> wallet_row \<Rightarrow> bool"
    and recorded :: "string \<Rightarrow> wallet_event_type \<Rightarrow> string \<Rightarrow> number option \<Rightarrow> json option \<Rightarrow> event_row \<Rightarrow> bool"
  assumes lookup_inside: "obeys inside_tx (lookup i)"
    and store_inside: "obeys inside_tx (store v ty a m)"
    and lookup_law: "lookup i w = (Ok z, w') \<Longrightarrow> tx w = Some t \<Longrightarrow>
      z = map_option (wallet_of_row i) (wallets t i) \<and> tx w' = Some t \<and> eventsToPublish w' = eventsToPublish w"
    and store_law: "store v ty a m w = (Ok u, w') \<Longrightarrow> tx w = Some t \<Longrightarrow>
      (\<exists>r e. persisted v r \<and> recorded (wallet_id v) ty (currency v) a m e \<and>
        tx w' = Some (put (wallet_id v) r [e] t) \<and> eventsToPublish w' = eventsToPublish w)"
begin

lemma modify_wallet:
  assumes "lookup i w = (Ok (Some v), w1)" "tx w = Some t"
    and "wallet_id v' = wallet_id v" "store v' ty a m w1 = (Ok u, w2)"
  obtains r0 r e where "wallets t i = Some r0" "v = wallet_of_row i r0" "persisted v' r"
    "recorded i ty (currency v') a m e" "tx w2 = Some (put i r [e] t)" "eventsToPublish w2 = eventsToPublish w"
proof -
  obtain r0 where r0: "wallets t i = Some r0" "v = wallet_of_row i r0" "tx w1 = Some t"
      "eventsToPublish w1 = eventsToPublish w"
    using lookup_law[OF assms(1,2)] by (cases "wallets t i") auto
  then have "wallet_id v' = i" using assms(3) by (simp add: wallet_of_row_def)
  then show ?thesis using store_law[OF assms(4) r0(3)] r0 that by auto
qed

lemma missing_wallet:
  "lookup i w = (Ok None, w1) \<Longrightarrow> tx w = Some t \<Longrightarrow> wallets t i = None"
  using lookup_law by fastforce

end

interpretation repository: wallet_repository
  "\<lambda>i. findByIdWithLock i True" "\<lambda>v ty a m. saveWithEvent P v ty a m True" "stored P" "logged P"
  by (unfold_locales; (rule step_rules | erule (1) find_lock_Ok | erule (1) saveWithEvent_Ok))

section \<open>Getting or creating a wallet\<close>

definition events_of :: "string \<Rightarrow> tables \<Rightarrow> event_row list" where
  "events_of i t = filter (\<lambda>e. log_walletId e = i) (walletEvents t)"

text \<open>The wallet is there already, or it is inserted with its \<open>WALLET_CREATED\<close> event (unless
  the log has events of that wallet).\<close>

definition opened :: "platform \<Rightarrow> string \<Rightarrow> string \<Rightarrow> tables \<Rightarrow> wallet \<Rightarrow> tables \<Rightarrow> bool" where
  "opened P i cur t v t' \<longleftrightarrow> (case wallets t i of
     Some r \<Rightarrow> v = wallet_of_row i r \<and> t' = t
   | None \<Rightarrow> (\<exists>now es. v = wallet_of_row i (default_row now cur) \<and> t' = put i (default_row now cur) es t \<and>
       (if events_of i t = [] then \<exists>e. es = [e] \<and> logged P i WALLET_CREATED cur None None e else es = [])))"

lemma opened_id: "opened P i cur t v t' \<Longrightarrow> wallet_id v = i"
  by (auto simp: opened_def split: option.splits)

lemma insert_on_conflict_Inr:
  "insert_wallet_on_conflict_do_nothing i cur now t = Inr (u, t') \<longleftrightarrow> length i \<le> 255 \<and> length cur \<le> 3 \<and>
     t' = (if wallets t i = None then put i (default_row now cur) [] t else t)"
  by (auto simp: insert_wallet_on_conflict_do_nothing_def check_Inr put_def)

lemma getOrCreate_execute_Ok:
  assumes "getOrCreate_execute P i cur w = (Ok v, w')" "tx w = Some t"
  shows "\<exists>t'. opened P i cur t v t' \<and> tx w' = Some t' \<and> eventsToPublish w' = eventsToPublish w"
proof (cases "wallets t i")
  case (Some r)
  then show ?thesis using assms unfolding getOrCreate_execute_def
    by (auto simp: run_inv opened_def dest!: sql_Ok)
next
  case None
  then show ?thesis using assms unfolding getOrCreate_execute_def
    by (auto simp: run_inv opened_def events_of_def insert_on_conflict_Inr insert_event_Inr
        split: if_splits option.splits dest!: sql_Ok event_row_of_logged) blast+
qed

end
