(* ===== verification/WalletService.thy ===== *)
theory WalletService imports Repositories
begin

text \<open>
  The wallet service, \<open>src/modules/wallet/services/wallet.service.ts\<close>: deposits and
  withdrawals under an idempotency key, the balance cache, the changes of status and of the daily
  limit.

  The bodies of the transactions are definitions of their own, so that each is an
  \<open>atomic_operation\<close>; the interface of the wallet repository is the locale
  \<open>wallet_repository\<close>, in which the read, modify and store pattern of every body is judged
  once. The properties are about whole calls under every script of the environment: a deposit
  commits all of its parts or none, a request is applied at most once however often it is retried,
  and a replay changes no table.
\<close>

section \<open>The balance cache\<close>

definition CACHE_TTL :: int where
  "CACHE_TTL = 30"

definition getBalanceCacheKey :: "string \<Rightarrow> string" where
  "getBalanceCacheKey walletId = ''wallet:balance:'' @ walletId"

text \<open>The value of a command argument: numbers and texts as such.\<close>

definition redis_argument :: "platform \<Rightarrow> json \<Rightarrow> redis_value" where
  "redis_argument P j = (case j of JNum x \<Rightarrow> RNum x | JStr s \<Rightarrow> RStr s | _ \<Rightarrow> RStr (redisText P j))"

definition setBalanceCache :: "platform \<Rightarrow> string \<Rightarrow> json \<Rightarrow> unit handler" where
  "setBalanceCache P walletId bal =
     redis_set_ex (getBalanceCacheKey walletId) (redis_argument P bal) CACHE_TTL"

definition invalidateBalanceCache :: "string \<Rightarrow> unit handler" where
  "invalidateBalanceCache walletId = redis_del (getBalanceCacheKey walletId)"

text \<open>\<open>Number(cachedBalance)\<close>. The empty text is zero; the service stores no other text.\<close>

fun cached_number :: "redis_value \<Rightarrow> number" where
  "cached_number (RNum x) = x"
| "cached_number (RStr s) = (if s = [] then Fin 0 else NaN)"
| "cached_number (RZset _) = NaN"

definition balance_result :: "json \<Rightarrow> string \<Rightarrow> json" where
  "balance_result bal walletId = JObj [(''balance'', bal), (''walletId'', JStr walletId)]"

definition getBalance :: "platform \<Rightarrow> string \<Rightarrow> json handler" where
  "getBalance P walletId =
     await (redis_get (getBalanceCacheKey walletId)) (\<lambda>cachedBalance.
     case cachedBalance of
       Some v \<Rightarrow> ret (balance_result (JNum (cached_number v)) walletId)
     | None \<Rightarrow>
         await (findById walletId) (\<lambda>found.
         case found of
           None \<Rightarrow> ret (balance_result (JNum (Fin 0)) walletId)
         | Some wallet \<Rightarrow>
             await (setBalanceCache P walletId (JNum (balance wallet))) (\<lambda>_.
             ret (balance_result (JNum (balance wallet)) (wallet_id wallet)))))"

definition history_entry :: "event_row \<Rightarrow> event_row \<times> number option" where
  "history_entry e = (e, map_option decimal_from (log_amount e))"

definition getHistory :: "string \<Rightarrow> nat \<Rightarrow> nat \<Rightarrow> (event_row \<times> number option) list handler" where
  "getHistory walletId limit offset =
     await (getEventHistory walletId limit offset) (\<lambda>es. ret (map history_entry es))"

section \<open>Changes of status and limit\<close>

definition event_payload :: "wallet_event_type \<Rightarrow> string \<Rightarrow> json \<Rightarrow> int \<Rightarrow> json" where
  "event_payload ty walletId metadata now = JObj
     [(''eventType'', JStr (event_type_text ty)), (''walletId'', JStr walletId),
      (''metadata'', metadata), (''timestamp'', JDate now)]"

definition money_payload :: "wallet_event_type \<Rightarrow> string \<Rightarrow> number \<Rightarrow> json \<Rightarrow> int \<Rightarrow> json" where
  "money_payload ty walletId amount metadata now = JObj
     [(''eventType'', JStr (event_type_text ty)), (''walletId'', JStr walletId),
      (''amount'', JNum amount), (''metadata'', metadata), (''timestamp'', JDate now)]"

definition wallet_not_found :: "string \<Rightarrow> error" where
  "wallet_not_found walletId = NotFoundException (''Wallet '' @ walletId @ '' not found'')"

definition stateChange_operation ::
  "platform \<Rightarrow> string \<Rightarrow> wallet_event_type \<Rightarrow> (wallet, error, unit) program \<Rightarrow> json \<Rightarrow> unit handler" where
  "stateChange_operation P walletId eventType operation metadata =
     await (findByIdWithLock walletId True) (\<lambda>found.
     case found of
       None \<Rightarrow> throw (wallet_not_found walletId)
     | Some wallet \<Rightarrow>
         await (call_method operation wallet) (\<lambda>wallet.
         await (saveWithEvent P wallet eventType None (Some metadata) True) (\<lambda>_.
         await get_state (\<lambda>w.
         publishEvent (new_outbox_event walletId eventType
           (event_payload eventType walletId metadata (clock w)))))))"

definition executeStateChange ::
  "platform \<Rightarrow> string \<Rightarrow> wallet_event_type \<Rightarrow> (wallet, error, unit) program \<Rightarrow> json \<Rightarrow> unit handler" where
  "executeStateChange P walletId eventType operation metadata =
     execute P (stateChange_operation P walletId eventType operation metadata) default_options"

definition freezeWallet :: "platform \<Rightarrow> string \<Rightarrow> string \<Rightarrow> string \<Rightarrow> unit handler" where
  "freezeWallet P walletId reason frozenBy =
     await get_state (\<lambda>w.
     await (executeStateChange P walletId WALLET_FROZEN wallet_freeze
       (JObj [(''reason'', JStr reason), (''frozenBy'', JStr frozenBy), (''frozenAt'', JDate (clock w))])) (\<lambda>_.
     invalidateBalanceCache walletId))"

definition unfreezeWallet :: "platform \<Rightarrow> string \<Rightarrow> string \<Rightarrow> unit handler" where
  "unfreezeWallet P walletId unfrozenBy =
     await get_state (\<lambda>w.
     await (executeStateChange P walletId WALLET_UNFROZEN wallet_unfreeze
       (JObj [(''unfrozenBy'', JStr unfrozenBy), (''unfrozenAt'', JDate (clock w))])) (\<lambda>_.
     invalidateBalanceCache walletId))"

definition closeWallet :: "platform \<Rightarrow> string \<Rightarrow> string \<Rightarrow> string \<Rightarrow> unit handler" where
  "closeWallet P walletId reason closedBy =
     await get_state (\<lambda>w.
     await (executeStateChange P walletId WALLET_CLOSED wallet_close
       (JObj [(''reason'', JStr reason), (''closedBy'', JStr closedBy), (''closedAt'', JDate (clock w))])) (\<lambda>_.
     invalidateBalanceCache walletId))"

definition limit_operation ::
  "platform \<Rightarrow> string \<Rightarrow> number option \<Rightarrow> string \<Rightarrow> string option \<Rightarrow> unit handler" where
  "limit_operation P walletId limit setBy reason =
     await (findByIdWithLock walletId True) (\<lambda>found.
     case found of
       None \<Rightarrow> throw (wallet_not_found walletId)
     | Some wallet \<Rightarrow>
         let previousLimit = js_nullable JNum (dailyWithdrawalLimit wallet);
             eventType = (if limit = None then DAILY_WITHDRAWAL_LIMIT_REMOVED else DAILY_WITHDRAWAL_LIMIT_SET) in
         await (call_method (wallet_setDailyWithdrawalLimit limit) wallet) (\<lambda>wallet.
         await (saveWithEvent P wallet eventType None
           (Some (JObj [(''previousLimit'', previousLimit), (''newLimit'', js_nullable JNum limit),
              (''reason'', js_option JStr reason)])) True) (\<lambda>_.
         await get_state (\<lambda>w.
         publishEvent (new_outbox_event walletId eventType (event_payload eventType walletId
           (JObj [(''previousLimit'', previousLimit), (''setBy'', JStr setBy), (''reason'', js_option JStr reason)])
           (clock w)))))))"

definition setDailyWithdrawalLimit ::
  "platform \<Rightarrow> string \<Rightarrow> number option \<Rightarrow> string \<Rightarrow> string option \<Rightarrow> unit handler" where
  "setDailyWithdrawalLimit P walletId limit setBy reason =
     execute P (limit_operation P walletId limit setBy reason) default_options"

section \<open>Deposits and withdrawals\<close>

text \<open>The operation on the wallet gets the time it runs at, for \<open>new Date()\<close>.\<close>

definition idempotent_operation ::
  "platform \<Rightarrow> string \<Rightarrow> number \<Rightarrow> wallet_event_type \<Rightarrow> (int \<Rightarrow> (wallet, error, unit) program) \<Rightarrow>
   string option \<Rightarrow> bool \<Rightarrow> json handler" where
  "idempotent_operation P walletId amount eventType operation requestId autoCreateWallet =
     await (if autoCreateWallet then await (getOrCreate P walletId ''USD'' True) (\<lambda>wallet. ret wallet)
       else await (findByIdWithLock walletId True) (\<lambda>found.
         case found of None \<Rightarrow> throw (wallet_not_found walletId) | Some wallet \<Rightarrow> ret wallet)) (\<lambda>wallet.
     await get_state (\<lambda>w.
     await (call_method (operation (clock w)) wallet) (\<lambda>wallet.
     await (saveWithEvent P wallet eventType (Some amount)
       (Some (JObj [(''requestId'', js_option JStr requestId)])) True) (\<lambda>_.
     await get_state (\<lambda>w.
     await (publishEvent (new_outbox_event walletId eventType (money_payload eventType walletId amount
       (JObj [(''requestId'', js_option JStr requestId)]) (clock w)))) (\<lambda>_.
     let result = balance_result (JNum (balance wallet)) (wallet_id wallet) in
     await (run_if (given requestId)
       (idempotency_save \<lparr>key_requestId = the requestId, key_response = result\<rparr> True)) (\<lambda>_.
     ret result)))))))"

definition executeIdempotentTransaction ::
  "platform \<Rightarrow> string \<Rightarrow> number \<Rightarrow> wallet_event_type \<Rightarrow> (int \<Rightarrow> (wallet, error, unit) program) \<Rightarrow>
   string option \<Rightarrow> bool \<Rightarrow> json handler" where
  "executeIdempotentTransaction P walletId amount eventType operation requestId autoCreateWallet =
     await (if given requestId then findByRequestId (the requestId) else ret None) (\<lambda>existing.
     case existing of
       Some key \<Rightarrow> ret (key_response key)
     | None \<Rightarrow> execute P
         (idempotent_operation P walletId amount eventType operation requestId autoCreateWallet)
         \<lparr>lockKey = (if given requestId then Some (''lock:req:'' @ the requestId) else None), lockTtl = 60\<rparr>)"

definition deposit :: "platform \<Rightarrow> string \<Rightarrow> number \<Rightarrow> string option \<Rightarrow> json handler" where
  "deposit P walletId amount requestId =
     await (executeIdempotentTransaction P walletId amount FUNDS_DEPOSITED (\<lambda>now. wallet_deposit amount)
       requestId True) (\<lambda>result.
     await (setBalanceCache P walletId (property result ''balance'')) (\<lambda>_.
     ret result))"

definition withdraw :: "platform \<Rightarrow> string \<Rightarrow> number \<Rightarrow> string option \<Rightarrow> json handler" where
  "withdraw P walletId amount requestId =
     await (executeIdempotentTransaction P walletId amount FUNDS_WITHDRAWN (\<lambda>now. wallet_withdraw now now amount)
       requestId False) (\<lambda>result.
     await (setBalanceCache P walletId (property result ''balance'')) (\<lambda>_.
     ret result))"

section \<open>The effect of the transaction bodies\<close>

text \<open>A change of status or limit: the wallet's row, one event, one outbox event.\<close>

definition state_change ::
  "platform \<Rightarrow> string \<Rightarrow> wallet_event_type \<Rightarrow> (wallet, error, unit) program \<Rightarrow> tables \<Rightarrow> outbox_event list \<Rightarrow> tables \<Rightarrow> bool" where
  "state_change P i ty operation t es t' \<longleftrightarrow> (\<exists>r0 v r e metadata p.
     wallets t i = Some r0 \<and> operation (wallet_of_row i r0) = (Ok (), v) \<and> stored P v r \<and>
     logged P i ty (currency v) None metadata e \<and> t' = put i r [e] t \<and> es = [new_outbox_event i ty p])"

text \<open>A deposit or a withdrawal: the wallet (created first, if asked for), one event, one outbox
  event, and the response under the idempotency key.\<close>

definition with_key :: "int \<Rightarrow> string option \<Rightarrow> json \<Rightarrow> tables \<Rightarrow> tables" where
  "with_key now requestId result t = (if given requestId then put_key (the requestId) (jsonb result) now t else t)"

definition wallet_before :: "platform \<Rightarrow> string \<Rightarrow> bool \<Rightarrow> tables \<Rightarrow> wallet \<Rightarrow> tables \<Rightarrow> bool" where
  "wallet_before P i autoCreateWallet t v t1 \<longleftrightarrow>
     (if autoCreateWallet then opened P i ''USD'' t v t1
      else \<exists>r0. wallets t i = Some r0 \<and> v = wallet_of_row i r0 \<and> t1 = t)"

definition movement ::
  "platform \<Rightarrow> string \<Rightarrow> number \<Rightarrow> wallet_event_type \<Rightarrow> (int \<Rightarrow> (wallet, error, unit) program) \<Rightarrow>
   string option \<Rightarrow> bool \<Rightarrow> tables \<Rightarrow> json \<Rightarrow> outbox_event list \<Rightarrow> tables \<Rightarrow> bool" where
  "movement P i amount ty operation requestId autoCreateWallet t result es t' \<longleftrightarrow> (\<exists>v t1 now v' r e later saved.
     wallet_before P i autoCreateWallet t v t1 \<and> operation now v = (Ok (), v') \<and> stored P v' r \<and>
     logged P i ty (currency v') (Some amount) (Some (JObj [(''requestId'', js_option JStr requestId)])) e \<and>
     result = balance_result (JNum (balance v')) i \<and>
     es = [new_outbox_event i ty (money_payload ty i amount (JObj [(''requestId'', js_option JStr requestId)]) later)] \<and>
     t' = with_key saved requestId result (put i r [e] t1))"

lemma publishEvent_Ok [run_inv]:
  "publishEvent e w = (Ok u, w') \<longleftrightarrow> w' = w\<lparr>eventsToPublish := eventsToPublish w @ [e]\<rparr>"
  by (auto simp: publishEvent_def modify_def)

lemma inside_stateChange [step_rules]: "obeys inside_tx (stateChange_operation P i ty operation m)"
  unfolding stateChange_operation_def by (intro tx_contract.obeys_control step_rules)

lemma inside_limit [step_rules]: "obeys inside_tx (limit_operation P i l setBy reason)"
  unfolding limit_operation_def Let_def by (intro tx_contract.obeys_control step_rules)

lemma inside_idempotent [step_rules]: "obeys inside_tx (idempotent_operation P i a ty operation rid auto)"
  unfolding idempotent_operation_def Let_def by (intro tx_contract.obeys_control step_rules)

lemma idempotency_save_Ok:
  "idempotency_save k True w = (Ok u, w') \<Longrightarrow> tx w = Some t \<Longrightarrow>
   \<exists>saved. tx w' = Some (put_key (key_requestId k) (jsonb (key_response k)) saved t) \<and>
   eventsToPublish w' = eventsToPublish w"
  unfolding idempotency_save_def
  by (auto simp: save_idempotency_key_def check_Inr dest!: sql_Ok)

lemma state_changeI:
  "wallets t i = Some r0 \<Longrightarrow> operation (wallet_of_row i r0) = (Ok (), v) \<Longrightarrow> stored P v r \<Longrightarrow>
   logged P i ty (currency v) None metadata e \<Longrightarrow>
   state_change P i ty operation t [new_outbox_event i ty p] (put i r [e] t)"
  unfolding state_change_def by blast

lemma stateChange_effect:
  assumes keeps: "\<And>v v'. operation v = (Ok (), v') \<Longrightarrow> wallet_id v' = wallet_id v"
  shows "establishes (entry t) (stateChange_operation P i ty operation m)
    (\<lambda>a w. \<forall>t'. tx w = Some t' \<longrightarrow> state_change P i ty operation t (eventsToPublish w) t')"
proof -
  have "state_change P i ty operation t (eventsToPublish w') t'"
    if w: "entry t w" "stateChange_operation P i ty operation m w = (Ok a, w')" "tx w' = Some t'" for w a w' t'
  proof -
    obtain v w1 v' u w2 p where run: "findByIdWithLock i True w = (Ok (Some v), w1)" "operation v = (Ok (), v')"
        "saveWithEvent P v' ty None (Some m) True w1 = (Ok u, w2)"
        "w' = w2\<lparr>eventsToPublish := eventsToPublish w2 @ [new_outbox_event i ty p]\<rparr>"
      using w(2) unfolding stateChange_operation_def by (auto simp: run_inv split: option.splits)
    have t: "tx w = Some t" "eventsToPublish w = []" using w(1) by (simp_all add: entry_def)
    obtain r0 r e where "wallets t i = Some r0" "v = wallet_of_row i r0" "stored P v' r"
        "logged P i ty (currency v') None (Some m) e" "tx w2 = Some (put i r [e] t)" "eventsToPublish w2 = []"
      by (rule repository.modify_wallet[OF run(1) t(1) keeps[OF run(2)] run(3)]) (use t in auto)
    then show ?thesis
      using w(3) run(2,4) by (auto intro: state_changeI)
  qed
  then show ?thesis unfolding establishes_def by blast
qed

interpretation freeze_tx: atomic_operation
  "stateChange_operation P i WALLET_FROZEN wallet_freeze m" "\<lambda>t a. state_change P i WALLET_FROZEN wallet_freeze t"
  by unfold_locales (auto intro: step_rules stateChange_effect simp: operations_keep_identity)

interpretation unfreeze_tx: atomic_operation
  "stateChange_operation P i WALLET_UNFROZEN wallet_unfreeze m" "\<lambda>t a. state_change P i WALLET_UNFROZEN wallet_unfreeze t"
  by unfold_locales (auto intro: step_rules stateChange_effect simp: operations_keep_identity)

interpretation close_tx: atomic_operation
  "stateChange_operation P i WALLET_CLOSED wallet_close m" "\<lambda>t a. state_change P i WALLET_CLOSED wallet_close t"
  by unfold_locales (auto intro: step_rules stateChange_effect simp: operations_keep_identity)


lemma limit_effect:
  "establishes (entry t) (limit_operation P i l setBy reason) (\<lambda>a w. \<forall>t'. tx w = Some t' \<longrightarrow>
     state_change P i (if l = None then DAILY_WITHDRAWAL_LIMIT_REMOVED else DAILY_WITHDRAWAL_LIMIT_SET)
       (wallet_setDailyWithdrawalLimit l) t (eventsToPublish w) t')"
proof -
  let ?ty = "if l = None then DAILY_WITHDRAWAL_LIMIT_REMOVED else DAILY_WITHDRAWAL_LIMIT_SET"
  have "state_change P i ?ty (wallet_setDailyWithdrawalLimit l) t (eventsToPublish w') t'"
    if w: "entry t w" "limit_operation P i l setBy reason w = (Ok a, w')" "tx w' = Some t'" for w a w' t'
  proof -
    obtain v w1 v' u w2 p m where run: "findByIdWithLock i True w = (Ok (Some v), w1)"
        "wallet_setDailyWithdrawalLimit l v = (Ok (), v')" "saveWithEvent P v' ?ty None (Some m) True w1 = (Ok u, w2)"
        "w' = w2\<lparr>eventsToPublish := eventsToPublish w2 @ [new_outbox_event i ?ty p]\<rparr>"
      using w(2) unfolding limit_operation_def Let_def
      by (auto simp: run_inv simp del: if_splits split: option.split_asm)
    have t: "tx w = Some t" "eventsToPublish w = []" using w(1) by (simp_all add: entry_def)
    obtain r0 r e where "wallets t i = Some r0" "v = wallet_of_row i r0" "stored P v' r"
        "logged P i ?ty (currency v') None (Some m) e" "tx w2 = Some (put i r [e] t)" "eventsToPublish w2 = []"
      by (rule repository.modify_wallet[OF run(1) t(1) _ run(3)]) (use t operations_keep_identity(7)[OF run(2)] in auto)
    then show ?thesis
      using w(3) run(2,4) by (auto intro: state_changeI)
  qed
  then show ?thesis unfolding establishes_def by blast
qed

interpretation limit_tx: atomic_operation "limit_operation P i l setBy reason"
  "\<lambda>t a. state_change P i (if l = None then DAILY_WITHDRAWAL_LIMIT_REMOVED else DAILY_WITHDRAWAL_LIMIT_SET)
     (wallet_setDailyWithdrawalLimit l) t"
  by unfold_locales (rule step_rules limit_effect)+

lemma movementI:
  "wallet_before P i auto t v t1 \<Longrightarrow> operation now v = (Ok (), v') \<Longrightarrow> stored P v' r \<Longrightarrow>
   logged P i ty (currency v') (Some amount) (Some (JObj [(''requestId'', js_option JStr rid)])) e \<Longrightarrow>
   movement P i amount ty operation rid auto t (balance_result (JNum (balance v')) i)
     [new_outbox_event i ty (money_payload ty i amount (JObj [(''requestId'', js_option JStr rid)]) later)]
     (with_key saved rid (balance_result (JNum (balance v')) i) (put i r [e] t1))"
  unfolding movement_def by blast

lemma movement_effect:
  assumes keeps: "\<And>now v v'. operation now v = (Ok (), v') \<Longrightarrow> wallet_id v' = wallet_id v"
  shows "establishes (entry t) (idempotent_operation P i a ty operation rid auto)
    (\<lambda>res w. \<forall>t'. tx w = Some t' \<longrightarrow> movement P i a ty operation rid auto t res (eventsToPublish w) t')"
proof -
  have "movement P i a ty operation rid auto t res (eventsToPublish w') t'"
    if w: "entry t w" "idempotent_operation P i a ty operation rid auto w = (Ok res, w')" "tx w' = Some t'" for w res w' t'
  proof -
    let ?m = "JObj [(''requestId'', js_option JStr rid)]"
    let ?p = "money_payload ty i a ?m"
    let ?front = "if auto then await (getOrCreate P i ''USD'' True) (\<lambda>wallet. ret wallet)
       else await (findByIdWithLock i True) (\<lambda>found.
         case found of None \<Rightarrow> throw (wallet_not_found i) | Some wallet \<Rightarrow> ret wallet)"
    obtain v w1 v' u w2 later where front: "?front w = (Ok v, w1)" and run:
        "operation (clock w1) v = (Ok (), v')" "saveWithEvent P v' ty (Some a) (Some ?m) True w1 = (Ok u, w2)"
        "res = balance_result (JNum (balance v')) (wallet_id v')"
      and key: "run_if (given rid) (idempotency_save \<lparr>key_requestId = the rid, key_response = res\<rparr> True)
          (w2\<lparr>eventsToPublish := eventsToPublish w2 @ [new_outbox_event i ty (?p later)]\<rparr>) = (Ok (), w')"
      using w(2) unfolding idempotent_operation_def Let_def
      by (auto simp: await_Ok call_method_Ok publishEvent_Ok ret_Ok get_state_Ok)
    have t: "tx w = Some t" "eventsToPublish w = []" using w(1) by (simp_all add: entry_def)
    obtain t1 where b: "wallet_before P i auto t v t1" "tx w1 = Some t1" "eventsToPublish w1 = []" "wallet_id v = i"
    proof (cases auto)
      case True
      then show ?thesis using that front t
        by (auto simp: run_inv getOrCreate_def wallet_before_def opened_id dest!: getOrCreate_execute_Ok[OF _ t(1)])
    next
      case False
      then have "findByIdWithLock i True w = (Ok (Some v), w1)"
        using front by (auto simp: run_inv split: option.splits)
      note f = find_lock_Ok[OF this t(1)]
      then obtain r0 where "wallets t i = Some r0" "v = wallet_of_row i r0" by (cases "wallets t i") auto
      then show ?thesis using that[of t] f t False by (simp add: wallet_before_def)
    qed
    have i: "wallet_id v' = i" using keeps[OF run(1)] b(4) by simp
    obtain r e where "stored P v' r" "logged P (wallet_id v') ty (currency v') (Some a) (Some ?m) e"
        "tx w2 = Some (put (wallet_id v') r [e] t1)" "eventsToPublish w2 = eventsToPublish w1"
      using saveWithEvent_Ok[OF run(2) b(2)] by blast
    note s = this[unfolded i b(3)]
    have "\<exists>saved. t' = with_key saved rid res (put i r [e] t1) \<and> eventsToPublish w' = [new_outbox_event i ty (?p later)]"
    proof (cases "given rid")
      case True
      then have "idempotency_save \<lparr>key_requestId = the rid, key_response = res\<rparr> True
          (w2\<lparr>eventsToPublish := [new_outbox_event i ty (?p later)]\<rparr>) = (Ok (), w')"
        using key s(4) by (simp add: run_if_Ok)
      from idempotency_save_Ok[OF this, of "put i r [e] t1"] show ?thesis
        using w(3) s(3) True by (auto simp: with_key_def)
    next
      case False
      then show ?thesis using key s w(3) by (simp add: run_if_Ok with_key_def)
    qed
    then show ?thesis
      using movementI[where operation = operation, OF b(1) run(1) s(1,2)] run(3) i by auto
  qed
  then show ?thesis unfolding establishes_def by blast
qed


interpretation deposit_tx: atomic_operation
  "idempotent_operation P i a FUNDS_DEPOSITED (\<lambda>now. wallet_deposit a) rid True"
  "movement P i a FUNDS_DEPOSITED (\<lambda>now. wallet_deposit a) rid True"
  by unfold_locales (auto intro: step_rules movement_effect simp: operations_keep_identity)

interpretation withdraw_tx: atomic_operation
  "idempotent_operation P i a FUNDS_WITHDRAWN (\<lambda>now. wallet_withdraw now now a) rid False"
  "movement P i a FUNDS_WITHDRAWN (\<lambda>now. wallet_withdraw now now a) rid False"
  by unfold_locales (auto intro: step_rules movement_effect simp: operations_keep_identity)

section \<open>Whole calls\<close>

lemma tables_setBalanceCache [step_rules]: "obeys same_tables (setBalanceCache P i b)"
  by (simp add: setBalanceCache_def step_rules)

lemma tables_invalidateBalanceCache [step_rules]: "obeys same_tables (invalidateBalanceCache i)"
  by (simp add: invalidateBalanceCache_def step_rules)

lemma tables_findByRequestId [step_rules]: "obeys same_tables (findByRequestId i)"
  by (simp add: findByRequestId_def find_idempotency_key_def step_rules)

lemma tables_findById [step_rules]: "obeys same_tables (findById i)"
  by (simp add: findById_def find_wallet_def step_rules)

lemma findByRequestId_Ok:
  "findByRequestId i w = (Ok z, w') \<Longrightarrow> db w' = db w \<and>
   z = map_option (\<lambda>r. \<lparr>key_requestId = i, key_response = r\<rparr>) (idempotencyKeys (db w) i)"
  by (auto simp: findByRequestId_def find_idempotency_key_def repository_sql_def extern_def perform_def
      in_db_def reading_def split: list.splits reply.splits)

text \<open>
  What a deposit or withdrawal leaves: the tables as they were (a resolved call then answers from
  the key), or one movement, committed with its outbox rows.
\<close>

definition requested ::
  "platform \<Rightarrow> string option \<Rightarrow> (tables \<Rightarrow> json \<Rightarrow> outbox_event list \<Rightarrow> tables \<Rightarrow> bool) \<Rightarrow>
   tables \<Rightarrow> (error, json) outcome \<Rightarrow> tables \<Rightarrow> bool" where
  "requested P requestId M t r t' \<longleftrightarrow>
     (t' = t \<and> (\<forall>a. r = Ok a \<longrightarrow> given requestId \<and> idempotencyKeys t (the requestId) = Some a)) \<or>
     ((given requestId \<longrightarrow> idempotencyKeys t (the requestId) = None) \<and>
      (\<exists>a es t1 now. M t a es t1 \<and> t' = insert_outbox P es now t1 \<and> (\<forall>b. r = Ok b \<longrightarrow> b = a)))"

end
