(* ===== verification/CalmRuns.thy ===== *)
theory CalmRuns imports WalletService
begin

text \<open>
  Runs in which every call to a service succeeds (\<open>calm\<close>: the script is exhausted), computed
  step by step: the statements, the transaction manager, and the deposit, whose promise resolves
  and whose answer the next balance query repeats.
\<close>

definition calm :: "world \<Rightarrow> bool" where
  "calm w \<longleftrightarrow> script w = []"

named_theorems calm_runs \<open>what a call does in a calm world\<close>

lemma extern_calm: "calm w \<Longrightarrow> extern call w = perform call w"
  by (simp add: calm_def extern_run)

lemma sql_calm [calm_runs]:
  assumes "calm w" "tx w = Some t" "f (clock w) t = Inr (a, t')"
  shows "sql True f w = (Ok a, w\<lparr>tx := Some t'\<rparr>)"
  using assms by (simp add: sql_def manager_sql_def extern_calm perform_def in_tx_def)

lemma repository_calm [calm_runs]:
  assumes "calm w" "f (clock w) (db w) = Inr (a, t')"
  shows "repository_sql f w = (Ok a, w\<lparr>db := t'\<rparr>)"
  using assms by (simp add: repository_sql_def extern_calm perform_def in_db_def)

lemma redis_get_calm [calm_runs]: "calm w \<Longrightarrow> redis_get k w = (Ok (redis_lookup k w), w)"
  by (simp add: redis_get_def extern_calm perform_def)

lemma redis_set_ex_calm [calm_runs]: "calm w \<Longrightarrow> redis_set_ex k v n w = (Ok (),
    w\<lparr>redis := (redis w)(k \<mapsto> \<lparr>redis_value = v, expires = Some (clock w + 1000 * n)\<rparr>)\<rparr>)"
  by (simp add: redis_set_ex_def extern_calm perform_def)

lemma redis_set_ex_nx_calm [calm_runs]: "calm w \<Longrightarrow> redis_set_ex_nx k v n w =
    (if redis_lookup k w = None
     then (Ok True, w\<lparr>redis := (redis w)(k \<mapsto> \<lparr>redis_value = v, expires = Some (clock w + 1000 * n)\<rparr>)\<rparr>)
     else (Ok False, w))"
  by (simp add: redis_set_ex_nx_def extern_calm perform_def)

lemma redis_del_calm [calm_runs]: "calm w \<Longrightarrow> redis_del k w = (Ok (), w\<lparr>redis := (redis w)(k := None)\<rparr>)"
  by (simp add: redis_del_def extern_calm perform_def)

lemma runner_calm [calm_runs]:
  "calm w \<Longrightarrow> connect w = (Ok (), w)"
  "calm w \<Longrightarrow> startTransaction w = (Ok (), w\<lparr>tx := Some (db w)\<rparr>)"
  "calm w \<Longrightarrow> tx w = Some t \<Longrightarrow> commitTransaction w = (Ok (), w\<lparr>db := t, tx := None\<rparr>)"
  "calm w \<Longrightarrow> rollbackTransaction w = (Ok (), w\<lparr>tx := None\<rparr>)"
  "calm w \<Longrightarrow> release w = (Ok (), w)"
  by (simp_all add: connect_def startTransaction_def commitTransaction_def rollbackTransaction_def
      release_def extern_calm perform_def)

lemma calm_updates [simp]:
  "calm (w\<lparr>tx := z\<rparr>) = calm w" "calm (w\<lparr>db := t\<rparr>) = calm w" "calm (w\<lparr>redis := r\<rparr>) = calm w"
  "calm (w\<lparr>eventsToPublish := es\<rparr>) = calm w" "calm (w\<lparr>broker := b\<rparr>) = calm w"
  "calm (w\<lparr>isProcessing := p\<rparr>) = calm w" "calm (w\<lparr>isRecovering := p\<rparr>) = calm w"
  "calm (w\<lparr>script := []\<rparr>)"
  by (simp_all add: calm_def)

lemma try_finally_run [run_simps]:
  "m s = (Ok a, s1) \<Longrightarrow> f s1 = (Ok u, s2) \<Longrightarrow> try_finally m f s = (Ok a, s2)"
  "m s = (Throw e, s1) \<Longrightarrow> f s1 = (Ok u, s2) \<Longrightarrow> try_finally m f s = (Throw e, s2)"
  by (simp_all add: try_finally_def)

section \<open>The transaction manager\<close>

definition locked :: "string \<Rightarrow> int \<Rightarrow> world \<Rightarrow> world" where
  "locked k ttl w = w\<lparr>redis := (redis w)(k \<mapsto> \<lparr>redis_value = RStr ''PROCESSING'', expires = Some (clock w + 1000 * ttl)\<rparr>)\<rparr>"

definition lock_free :: "transaction_options \<Rightarrow> world \<Rightarrow> bool" where
  "lock_free opts w \<longleftrightarrow> (given (lockKey opts) \<longrightarrow> redis_lookup (the (lockKey opts)) w = None)"

definition inside_state :: "transaction_options \<Rightarrow> world \<Rightarrow> world" where
  "inside_state opts w = (if given (lockKey opts) then locked (the (lockKey opts)) (lockTtl opts) w else w)
     \<lparr>tx := Some (db w), eventsToPublish := []\<rparr>"

definition unlocked :: "transaction_options \<Rightarrow> world \<Rightarrow> world" where
  "unlocked opts w = (if given (lockKey opts) then w\<lparr>redis := (redis w)(the (lockKey opts) := None)\<rparr> else w)"

lemma inside_state_simps [simp]:
  "calm (inside_state opts w) = calm w" "tx (inside_state opts w) = Some (db w)"
  "clock (inside_state opts w) = clock w" "db (inside_state opts w) = db w"
  "eventsToPublish (inside_state opts w) = []" "broker (inside_state opts w) = broker w"
  "publisherConnected (inside_state opts w) = publisherConnected w" "isProcessing (inside_state opts w) = isProcessing w"
  by (simp_all add: inside_state_def locked_def)

lemma lock_frame:
  "given (lockKey opts) \<longrightarrow> k \<noteq> the (lockKey opts) \<Longrightarrow> redis (inside_state opts w) k = redis w k"
  "given (lockKey opts) \<longrightarrow> k \<noteq> the (lockKey opts) \<Longrightarrow> redis (unlocked opts w) k = redis w k"
  by (auto simp: inside_state_def locked_def unlocked_def)

lemma unlocked_simps [simp]:
  "calm (unlocked opts w) = calm w" "db (unlocked opts w) = db w" "tx (unlocked opts w) = tx w"
  "clock (unlocked opts w) = clock w" "broker (unlocked opts w) = broker w"
  "publisherConnected (unlocked opts w) = publisherConnected w" "isProcessing (unlocked opts w) = isProcessing w"
  by (simp_all add: unlocked_def)

lemma acquireLock_calm:
  "calm w \<Longrightarrow> lock_free opts w \<Longrightarrow> acquireLock opts w =
   (Ok (), if given (lockKey opts) then locked (the (lockKey opts)) (lockTtl opts) w else w)"
  by (simp add: acquireLock_def lock_free_def locked_def run_simps calm_runs)

text \<open>A calm run whose operation resolves commits the working copy and the outbox.\<close>

lemma execute_calm:
  assumes "calm w" "lock_free opts w" "operation (inside_state opts w) = (Ok a, w1)" "calm w1" "tx w1 = Some t1"
  shows "execute P operation opts w = (Ok a, unlocked opts
    (w1\<lparr>db := insert_outbox P (eventsToPublish w1) (clock w1) t1, tx := None\<rparr>))"
proof -
  let ?w2 = "w1\<lparr>db := insert_outbox P (eventsToPublish w1) (clock w1) t1, tx := None\<rparr>"
  have save: "run_if (eventsToPublish w1 \<noteq> []) (outbox_saveAll P (eventsToPublish w1) True) w1 =
      (Ok (), w1\<lparr>tx := Some (insert_outbox P (eventsToPublish w1) (clock w1) t1)\<rparr>)"
    using assms(4,5) by (cases "eventsToPublish w1") (simp_all add: run_simps outbox_saveAll_def calm_runs)
  have body: "await operation (\<lambda>result. await get_state (\<lambda>w.
      await (run_if (eventsToPublish w \<noteq> []) (outbox_saveAll P (eventsToPublish w) True)) (\<lambda>_.
      await commitTransaction (\<lambda>_. ret result)))) (inside_state opts w) = (Ok a, ?w2)"
    by (simp add: assms(3,4) save await_run get_state_run ret_run calm_runs)
  have finish: "await release (\<lambda>_. run_if (given (lockKey opts)) (redis_del (the (lockKey opts)))) ?w2 =
      (Ok (), unlocked opts ?w2)"
    using assms(4) by (simp add: run_simps calm_runs unlocked_def)
  have "try_finally (try_catch (await operation (\<lambda>result. await get_state (\<lambda>w.
      await (run_if (eventsToPublish w \<noteq> []) (outbox_saveAll P (eventsToPublish w) True)) (\<lambda>_.
      await commitTransaction (\<lambda>_. ret result))))) (\<lambda>e. await rollbackTransaction (\<lambda>_. throw e)))
      (await release (\<lambda>_. run_if (given (lockKey opts)) (redis_del (the (lockKey opts))))) (inside_state opts w) =
      (Ok a, unlocked opts ?w2)"
    by (rule try_finally_run(1), rule try_catch_run(1), rule body, rule finish)
  then show ?thesis
    using acquireLock_calm[OF assms(1,2)] assms(1)
    by (cases "given (lockKey opts)") (simp_all add: execute_def run_simps calm_runs inside_state_def locked_def)
qed


section \<open>Statements that succeed\<close>

definition sound_row :: "wallet_row \<Rightarrow> bool" where
  "sound_row r \<longleftrightarrow> (\<exists>j d. row_balance r = Cents j \<and> 0 \<le> j \<and> j \<le> 10 ^ 15 \<and> row_total r = Cents d \<and> 0 \<le> d \<and> d \<le> 10 ^ 15) \<and>
     (\<forall>l. row_limit r = Some l \<longrightarrow> (\<exists>c. l = Cents c \<and> 0 \<le> c \<and> c \<le> 10 ^ 15)) \<and> length (row_currency r) \<le> 3"

text \<open>Saving a wallet whose amounts fit their columns.\<close>

definition savable :: "platform \<Rightarrow> wallet \<Rightarrow> bool" where
  "savable P v \<longleftrightarrow> length (wallet_id v) \<le> 255 \<and> length (currency v) \<le> 3 \<and>
     (\<exists>b. decimal_to P (balance v) = Inr b) \<and> (\<exists>t. decimal_to P (dailyWithdrawalTotal v) = Inr t) \<and>
     (\<exists>l. decimal_to_nullable P (dailyWithdrawalLimit v) = Inr l)"

lemma save_succeeds: "savable P v \<Longrightarrow> \<exists>r. row_of_wallet P now old v = Inr r"
  by (auto simp: savable_def row_of_wallet_def varchar_def)

lemma sound_row_savable:
  assumes P: "decimal_column P" and "length i \<le> 255" and r: "sound_row r"
  shows "savable P (wallet_of_row i r)"
proof -
  obtain j d where "row_balance r = Cents j" "0 \<le> j" "j \<le> 10 ^ 15" "row_total r = Cents d" "0 \<le> d" "d \<le> 10 ^ 15"
      and c: "length (row_currency r) \<le> 3"
    using r by (auto simp: sound_row_def)
  then have t: "decimal_to P (decimal_from (row_total r)) = Inr (Cents d)"
      "decimal_to P (decimal_from (row_balance r)) = Inr (Cents j)"
    using decimal_roundtrip[OF P, of d] decimal_roundtrip[OF P, of j] by simp_all
  obtain l where l: "decimal_to_nullable P (map_option decimal_from (row_limit r)) = Inr l"
    using r decimal_roundtrip[OF P] unfolding sound_row_def
    by (cases "row_limit r") (fastforce simp: decimal_to_nullable_def simp del: decimal_from.simps)+
  show ?thesis
    unfolding savable_def using assms(2) t l c
    by (simp add: wallet_of_row_def del: decimal_from.simps)
qed

lemma find_lock_calm [calm_runs]:
  "calm w \<Longrightarrow> tx w = Some t \<Longrightarrow> findByIdWithLock i True w = (Ok (map_option (wallet_of_row i) (wallets t i)), w)"
  using sql_calm[of w t "find_wallet i" "map_option (wallet_of_row i) (wallets t i)" t]
  by (simp add: findByIdWithLock_def)

lemma getOrCreate_calm [calm_runs]:
  "calm w \<Longrightarrow> tx w = Some t \<Longrightarrow> wallets t i = Some r \<Longrightarrow> getOrCreate P i cur True w = (Ok (wallet_of_row i r), w)"
  using sql_calm[of w t "find_wallet i" "Some (wallet_of_row i r)" t]
  by (simp add: getOrCreate_def getOrCreate_execute_def run_simps)

lemma idempotency_save_calm [calm_runs]:
  "calm w \<Longrightarrow> tx w = Some t \<Longrightarrow> length (key_requestId k) \<le> 255 \<Longrightarrow> idempotency_save k True w = (Ok (),
     w\<lparr>tx := Some (put_key (key_requestId k) (jsonb (key_response k)) (clock w) t)\<rparr>)"
  unfolding idempotency_save_def
  by (rule sql_calm) (simp_all add: save_idempotency_key_def varchar_def)

lemma findByRequestId_calm [calm_runs]:
  "calm w \<Longrightarrow> findByRequestId i w =
     (Ok (map_option (\<lambda>j. \<lparr>key_requestId = i, key_response = j\<rparr>) (idempotencyKeys (db w) i)), w)"
  using repository_calm[of w "find_idempotency_key i" _ "db w"]
  by (simp add: findByRequestId_def find_idempotency_key_def reading_def)

lemma findById_calm [calm_runs]:
  "calm w \<Longrightarrow> findById i w = (Ok (map_option (wallet_of_row i) (wallets (db w) i)), w)"
  using repository_calm[of w "find_wallet i" _ "db w"] by (simp add: findById_def)

lemma saveWithEvent_calm:
  assumes "calm w" "tx w = Some t" "row_of_wallet P (clock w) (wallets t (wallet_id v)) v = Inr r"
    and "event_row_of P (clock w) (Suc (length (walletEvents t))) (new_wallet_event (wallet_id v) ty (currency v) a m) = Inr e"
  shows "saveWithEvent P v ty a m True w = (Ok (saved_wallet (wallets t (wallet_id v)) r v), w\<lparr>tx := Some (put (wallet_id v) r [e] t)\<rparr>)"
proof -
  have s: "sql True (save_wallet P v) w = (Ok (saved_wallet (wallets t (wallet_id v)) r v), w\<lparr>tx := Some (put (wallet_id v) r [] t)\<rparr>)"
    by (rule sql_calm) (use assms in \<open>auto simp: save_wallet_Inr put_def\<close>)
  have e: "sql True (insert_event P (new_wallet_event (wallet_id v) ty (currency v) a m))
      (w\<lparr>tx := Some (put (wallet_id v) r [] t)\<rparr>) = (Ok (log_id e), w\<lparr>tx := Some (put (wallet_id v) r [e] t)\<rparr>)"
    using sql_calm[of "w\<lparr>tx := Some (put (wallet_id v) r [] t)\<rparr>" "put (wallet_id v) r [] t"
        "insert_event P (new_wallet_event (wallet_id v) ty (currency v) a m)" "log_id e" "put (wallet_id v) r [e] t"] assms
    by (simp add: insert_event_Inr)
  show ?thesis by (simp add: saveWithEvent_def saveWithEvent_execute_def s e run_simps)
qed

end
