(* ===== verification/WalletGuarantees.thy ===== *)
theory WalletGuarantees imports CalmRuns
begin

text \<open>
  What a call of the wallet service guarantees under every behaviour of the environment, and what
  a sequence of attempts of one request does.

  \<open>idempotent_request\<close> extends the contract of a transaction body by the law that the body
  records its response under the request's key; in it, any number of attempts at the request, one
  after the other, each cut short or failed wherever the environment chooses, and with anything
  happening between them that leaves the key alone, comes to at most one movement
  (\<open>attempts_once\<close>).
\<close>

section \<open>One call\<close>

lemma requested_rejected:
  "requested P rid M t r t' \<Longrightarrow> \<forall>a. r' \<noteq> Ok a \<Longrightarrow> requested P rid M t r' t'"
  unfolding requested_def by blast

lemma requested_movement:
  "(given rid \<longrightarrow> idempotencyKeys t (the rid) = None) \<Longrightarrow> M t a es t1 \<Longrightarrow> t' = insert_outbox P es now t1 \<Longrightarrow>
   \<forall>b. r = Ok b \<longrightarrow> b = a \<Longrightarrow> requested P rid M t r t'"
  unfolding requested_def by blast

definition idempotent_call :: "platform \<Rightarrow> string option \<Rightarrow> json handler \<Rightarrow> json handler" where
  "idempotent_call P rid body =
     await (if given rid then findByRequestId (the rid) else ret None) (\<lambda>existing.
     case existing of Some key \<Rightarrow> ret (key_response key) | None \<Rightarrow> body)"

lemma executeIdempotentTransaction_call:
  "executeIdempotentTransaction P i a ty operation rid auto = idempotent_call P rid
     (execute P (idempotent_operation P i a ty operation rid auto)
        \<lparr>lockKey = (if given rid then Some (''lock:req:'' @ the rid) else None), lockTtl = 60\<rparr>)"
  by (simp add: executeIdempotentTransaction_def idempotent_call_def)

lemma outcomes_existing:
  "outcomes (\<lambda>w. db w = t) (if given rid then findByRequestId (the rid) else ret None)
     (\<lambda>r w. db w = t \<and> (\<forall>z. r = Ok z \<longrightarrow> z = (if given rid
        then map_option (\<lambda>j. \<lparr>key_requestId = the rid, key_response = j\<rparr>) (idempotencyKeys t (the rid)) else None)))"
  using tables_findByRequestId
  by (auto simp: outcomes_def ret_def dest: findByRequestId_Ok)
     (metis obeysD same_tables_def)

locale idempotent_request = atomic_operation operation M
  for operation :: "json handler" and M +
  fixes rid :: "string option"
  assumes keyed: "M t a es t' \<Longrightarrow> given rid \<Longrightarrow> idempotencyKeys t' (the rid) = Some (jsonb a)"
begin

lemma requested_execute:
  "outcomes (\<lambda>w. db w = t) (idempotent_call P rid (execute P operation opts))
     (\<lambda>r w. requested P rid M t r (db w))"
  unfolding idempotent_call_def
proof (rule outcomes_await[OF outcomes_existing])
  fix z
  show "outcomes (\<lambda>w. db w = t \<and> (\<forall>y. Ok z = Ok y \<longrightarrow> y = (if given rid
        then map_option (\<lambda>j. \<lparr>key_requestId = the rid, key_response = j\<rparr>) (idempotencyKeys t (the rid)) else None)))
      (case z of None \<Rightarrow> execute P operation opts | Some key \<Rightarrow> ret (key_response key))
      (\<lambda>r w. requested P rid M t r (db w))"
  proof (cases z)
    case None
    have "requested P rid M t r (db w')"
      if "db w = t" "given rid \<longrightarrow> idempotencyKeys t (the rid) = None" "execute P operation opts w = (r, w')" for w r w'
      using that(3)
    proof (cases rule: execute_all_or_nothing)
      case nothing
      then show ?thesis using that(1) by (simp add: requested_def)
    next
      case all
      then show ?thesis using that(1,2) by (blast intro: requested_movement)
    qed
    then show ?thesis using None by (auto simp: outcomes_def)
  next
    case (Some key)
    then show ?thesis
      by (cases "idempotencyKeys t (the rid)") (auto simp: outcomes_def ret_def requested_def split: if_splits)
  qed
qed (auto simp: requested_def)

end

section \<open>Any number of attempts\<close>

text \<open>An attempt at a call, from a world that need not have to do with the one an earlier attempt left:
  the tables it finds, what comes of it, the tables it leaves.\<close>

definition attempted :: "'a handler \<Rightarrow> world \<Rightarrow> tables \<times> (error, 'a) outcome \<times> tables" where
  "attempted m w = (case m w of (r, w') \<Rightarrow> (db w, r, db w'))"

lemma attempted_run: "m w = (r, w') \<Longrightarrow> attempted m w = (db w, r, db w')"
  by (simp add: attempted_def)

text \<open>What happens between attempts leaves a key alone: each attempt finds for it what the one before left,
  the first one nothing.\<close>

fun key_left_alone :: "string \<Rightarrow> json option \<Rightarrow> (tables \<times> (error, 'a) outcome \<times> tables) list \<Rightarrow> bool" where
  "key_left_alone q z [] \<longleftrightarrow> True"
| "key_left_alone q z ((t, r, t') # h) \<longleftrightarrow> idempotencyKeys t q = z \<and> key_left_alone q (idempotencyKeys t' q) h"

text \<open>Attempts that failed and changed nothing, and attempts that changed nothing and at most repeated an answer.\<close>

definition all_failed :: "(tables \<times> (error, json) outcome \<times> tables) list \<Rightarrow> bool" where
  "all_failed h \<longleftrightarrow> (\<forall>(t, r, t') \<in> set h. t' = t \<and> (\<forall>a. r \<noteq> Ok a))"

definition all_replayed :: "json \<Rightarrow> (tables \<times> (error, json) outcome \<times> tables) list \<Rightarrow> bool" where
  "all_replayed j h \<longleftrightarrow> (\<forall>(t, r, t') \<in> set h. t' = t \<and> (\<forall>a. r = Ok a \<longrightarrow> a = j))"

definition applied_once :: "(tables \<Rightarrow> tables \<Rightarrow> bool) \<Rightarrow> string \<Rightarrow> (tables \<times> (error, json) outcome \<times> tables) list \<Rightarrow> bool" where
  "applied_once applied q h \<longleftrightarrow> (\<exists>earlier t r t' later j. h = earlier @ (t, r, t') # later \<and>
     all_failed earlier \<and> applied t t' \<and> idempotencyKeys t' q = Some j \<and> (\<forall>a. r = Ok a \<longrightarrow> jsonb a = j) \<and> all_replayed j later)"

lemma all_failed_Cons [simp]:
  "all_failed []" "all_failed ((t, r, t') # h) \<longleftrightarrow> t' = t \<and> (\<forall>a. r \<noteq> Ok a) \<and> all_failed h"
  by (auto simp: all_failed_def)

lemma all_replayed_Cons [simp]:
  "all_replayed j []" "all_replayed j ((t, r, t') # h) \<longleftrightarrow> t' = t \<and> (\<forall>a. r = Ok a \<longrightarrow> a = j) \<and> all_replayed j h"
  by (auto simp: all_replayed_def)

lemma applied_now:
  "applied t t' \<Longrightarrow> idempotencyKeys t' q = Some j \<Longrightarrow> \<forall>a. r = Ok a \<longrightarrow> jsonb a = j \<Longrightarrow> all_replayed j h \<Longrightarrow>
   applied_once applied q ((t, r, t') # h)"
  unfolding applied_once_def by (metis all_failed_Cons(1) append_Nil)

lemma applied_later:
  "applied_once applied q h \<Longrightarrow> \<forall>a. r \<noteq> Ok a \<Longrightarrow> applied_once applied q ((t, r, t) # h)"
  unfolding applied_once_def by (metis all_failed_Cons(2) append_Cons)

lemma insert_outbox_frame [simp]:
  "wallets (insert_outbox P es now t) = wallets t"
  "walletEvents (insert_outbox P es now t) = walletEvents t"
  "sagas (insert_outbox P es now t) = sagas t"
  "idempotencyKeys (insert_outbox P es now t) = idempotencyKeys t"
  by (induction P es now t rule: insert_outbox.induct) simp_all

context idempotent_request begin

lemma attempts_replay:
  assumes "\<And>t. outcomes (\<lambda>w. db w = t) call (\<lambda>r w. requested P rid M t r (db w))" and "given rid"
  shows "key_left_alone (the rid) (Some j) (map (attempted call) ws) \<Longrightarrow> all_replayed j (map (attempted call) ws)"
proof (induction ws)
  case (Cons w ws)
  obtain r w1 where run: "call w = (r, w1)" by fastforce
  have "requested P rid M (db w) r (db w1)" using outcomesD[OF assms(1) _ run] by simp
  moreover have key: "idempotencyKeys (db w) (the rid) = Some j"
      "key_left_alone (the rid) (idempotencyKeys (db w1) (the rid)) (map (attempted call) ws)"
    using Cons.prems by (simp_all add: attempted_run[of call, OF run])
  ultimately have "db w1 = db w" "\<forall>b. r = Ok b \<longrightarrow> b = j"
    using assms(2) by (auto simp: requested_def)
  then show ?case using Cons.IH key by (simp add: attempted_run[of call, OF run])
qed simp

lemma attempts_once:
  assumes "\<And>t. outcomes (\<lambda>w. db w = t) call (\<lambda>r w. requested P rid M t r (db w))" and "given rid"
    and applied: "\<And>t a es t1 now. M t a es t1 \<Longrightarrow> R t \<Longrightarrow> applied t (insert_outbox P es now t1)"
  shows "key_left_alone (the rid) None (map (attempted call) ws) \<Longrightarrow> \<forall>w \<in> set ws. R (db w) \<Longrightarrow>
    all_failed (map (attempted call) ws) \<or> applied_once applied (the rid) (map (attempted call) ws)"
proof (induction ws)
  case (Cons w ws)
  obtain r w1 where run: "call w = (r, w1)" by fastforce
  let ?h = "map (attempted call) ws"
  have h: "map (attempted call) (w # ws) = (db w, r, db w1) # ?h" by (simp add: attempted_run[of call, OF run])
  have key: "idempotencyKeys (db w) (the rid) = None" "key_left_alone (the rid) (idempotencyKeys (db w1) (the rid)) ?h"
    using Cons.prems(1) unfolding h by simp_all
  have "requested P rid M (db w) r (db w1)" using outcomesD[OF assms(1) _ run] by simp
  then consider (none) "db w1 = db w" "\<forall>b. r \<noteq> Ok b"
    | (some) a es t1 now where "M (db w) a es t1" "db w1 = insert_outbox P es now t1" "\<forall>b. r = Ok b \<longrightarrow> b = a"
    using key(1) by (auto simp: requested_def)
  then show ?case
  proof cases
    case none
    then have "all_failed ?h \<or> applied_once applied (the rid) ?h"
      using Cons.IH Cons.prems(2) key by simp
    then show ?thesis unfolding h using none applied_later by auto
  next
    case some
    then have stored: "idempotencyKeys (db w1) (the rid) = Some (jsonb a)" using keyed assms(2) by simp
    then have "all_replayed (jsonb a) ?h" using attempts_replay[OF assms(1,2)] key(2) by simp
    moreover have "applied (db w) (db w1)" using applied[OF some(1)] some(2) Cons.prems(2) by simp
    ultimately show ?thesis unfolding h using applied_now stored some(3) by blast
  qed
qed simp

end

lemma movement_keyed:
  "movement P i a ty operation rid auto t res es t' \<Longrightarrow> given rid \<Longrightarrow> idempotencyKeys t' (the rid) = Some (jsonb res)"
  by (auto simp: movement_def with_key_def)

interpretation deposit_request: idempotent_request
  "idempotent_operation P i a FUNDS_DEPOSITED (\<lambda>now. wallet_deposit a) rid True"
  "movement P i a FUNDS_DEPOSITED (\<lambda>now. wallet_deposit a) rid True" rid
  by unfold_locales (rule movement_keyed)

interpretation withdraw_request: idempotent_request
  "idempotent_operation P i a FUNDS_WITHDRAWN (\<lambda>now. wallet_withdraw now now a) rid False"
  "movement P i a FUNDS_WITHDRAWN (\<lambda>now. wallet_withdraw now now a) rid False" rid
  by unfold_locales (rule movement_keyed)

lemma requested_then_cache:
  assumes "outcomes (\<lambda>w. db w = t) m (\<lambda>r w. requested P rid M t r (db w))"
  shows "outcomes (\<lambda>w. db w = t)
    (await m (\<lambda>result. await (setBalanceCache P i (f result)) (\<lambda>_. ret result)))
    (\<lambda>r w. requested P rid M t r (db w))"
proof (rule outcomes_await[OF assms])
  fix a
  show "outcomes (\<lambda>w. requested P rid M t (Ok a) (db w)) (await (setBalanceCache P i (f a)) (\<lambda>_. ret a))
      (\<lambda>r w. requested P rid M t r (db w))"
    by (rule outcomes_await[OF outcomes_same_tables[OF tables_setBalanceCache, where J = "requested P rid M t (Ok a)"]])
       (auto intro: outcomes_ret requested_rejected)
qed auto

lemma deposit_requested:
  "outcomes (\<lambda>w. db w = t) (deposit P i a rid)
     (\<lambda>r w. requested P rid (movement P i a FUNDS_DEPOSITED (\<lambda>now. wallet_deposit a) rid True) t r (db w))"
  unfolding deposit_def executeIdempotentTransaction_call
  by (rule requested_then_cache[OF deposit_request.requested_execute])

lemma withdraw_requested:
  "outcomes (\<lambda>w. db w = t) (withdraw P i a rid)
     (\<lambda>r w. requested P rid (movement P i a FUNDS_WITHDRAWN (\<lambda>now. wallet_withdraw now now a) rid False) t r (db w))"
  unfolding withdraw_def executeIdempotentTransaction_call
  by (rule requested_then_cache[OF withdraw_request.requested_execute])


section \<open>Amounts in cents\<close>

text \<open>The committed balance of a wallet in cents; a wallet that is not there has none.\<close>

fun cents :: "numeric \<Rightarrow> int" where
  "cents (Cents k) = k"
| "cents NumericNaN = 0"

definition balance_cents :: "tables \<Rightarrow> string \<Rightarrow> int option" where
  "balance_cents t i = map_option (\<lambda>r. cents (row_balance r)) (wallets t i)"

text \<open>The row holds a number (the column could hold NaN) within the range in which entity
  arithmetic is exact to the cent: ten trillion.\<close>

definition exact_row :: "int \<Rightarrow> tables \<Rightarrow> string \<Rightarrow> bool" where
  "exact_row k t i \<longleftrightarrow> (\<forall>r. wallets t i = Some r \<longrightarrow>
     (\<exists>j. row_balance r = Cents j \<and> 0 \<le> j \<and> j + k \<le> 10 ^ 15 - 10))"

definition amount_of :: "int \<Rightarrow> number" where
  "amount_of k = decimal_from (Cents k)"

lemma decimal_from_zero [simp]: "decimal_from (Cents 0) = Fin 0"
  using decimal_from_cents[of 0] by simp

lemma amount_positive: "0 < k \<Longrightarrow> k \<le> 10 ^ 15 \<Longrightarrow> js_less (Fin 0) (amount_of k)"
  using decimal_from_less[of 0 k] by (simp add: amount_of_def del: decimal_from.simps(1))

lemma amount_fin: "\<bar>k\<bar> \<le> 10 ^ 15 \<Longrightarrow> \<exists>x. amount_of k = Fin x"
  by (simp add: amount_of_def decimal_from_cents del: decimal_from.simps)

lemma amount_not_less_eq_zero: "0 < k \<Longrightarrow> k \<le> 10 ^ 15 \<Longrightarrow> \<not> js_less_eq (amount_of k) (Fin 0)"
  using amount_positive[of k] amount_fin[of k] by auto

lemma amount_truthy: "0 < k \<Longrightarrow> k \<le> 10 ^ 15 \<Longrightarrow> js_truthy (amount_of k)"
  using amount_positive[of k] amount_fin[of k] by (auto simp: js_truthy_def)

lemma amount_to: "decimal_column P \<Longrightarrow> 0 \<le> k \<Longrightarrow> k \<le> 10 ^ 15 \<Longrightarrow> decimal_to P (amount_of k) = Inr (Cents k)"
  unfolding amount_of_def by (rule decimal_roundtrip)

lemma logged_amount:
  "logged P i ty cur (Some (amount_of k)) m e \<Longrightarrow> decimal_column P \<Longrightarrow> 0 < k \<Longrightarrow> k \<le> 10 ^ 15 \<Longrightarrow>
   log_walletId e = i \<and> log_type e = ty \<and> log_amount e = Some (Cents k)"
  by (auto simp: logged_def new_wallet_event_def amount_truthy decimal_to_nullable_def amount_to)

text \<open>What a deposit of \<open>k\<close> cents leaves: the wallet's row, its event (after the one of its
  creation, if it is new), one unpublished outbox row, the idempotency key.\<close>

definition deposited :: "string \<Rightarrow> int \<Rightarrow> string option \<Rightarrow> tables \<Rightarrow> tables \<Rightarrow> bool" where
  "deposited i k rid t t' \<longleftrightarrow> (\<exists>r es e out now.
     wallets t' = (wallets t)(i \<mapsto> r) \<and> row_status r = ACTIVE \<and>
     row_balance r = Cents ((case balance_cents t i of None \<Rightarrow> 0 | Some j \<Rightarrow> j) + k) \<and>
     walletEvents t' = walletEvents t @ es @ [e] \<and> (\<forall>c \<in> set es. log_type c = WALLET_CREATED) \<and>
     log_walletId e = i \<and> log_type e = FUNDS_DEPOSITED \<and> log_amount e = Some (Cents k) \<and>
     outboxEvents t' = outboxEvents t @ [out] \<and> out_aggregateId out = i \<and>
     out_type out = ''FUNDS_DEPOSITED'' \<and> \<not> published out \<and>
     out_payload out = jsonb (money_payload FUNDS_DEPOSITED i (amount_of k) (JObj [(''requestId'', js_option JStr rid)]) now) \<and>
     sagas t' = sagas t \<and> (given rid \<longrightarrow> idempotencyKeys t' (the rid) \<noteq> None))"

lemma insert_outbox_one:
  "\<exists>out. outboxEvents (insert_outbox P [new_outbox_event i ty p] now t) = outboxEvents t @ [out] \<and>
     out_aggregateId out = i \<and> out_type out = event_type_text ty \<and> \<not> published out \<and> out_payload out = jsonb p"
  by (simp add: new_outbox_event_def)

lemma with_key_frame [simp]:
  "wallets (with_key now rid a t) = wallets t" "walletEvents (with_key now rid a t) = walletEvents t"
  "sagas (with_key now rid a t) = sagas t" "outboxEvents (with_key now rid a t) = outboxEvents t"
  "uuidCount (with_key now rid a t) = uuidCount t"
  by (simp_all add: with_key_def)

lemma opened_frame:
  assumes "opened P i cur t v t1"
  obtains r es where "v = wallet_of_row i r" "wallets t1 = (wallets t)(i \<mapsto> r)"
    "walletEvents t1 = walletEvents t @ es" "\<forall>c \<in> set es. log_type c = WALLET_CREATED"
    "sagas t1 = sagas t" "outboxEvents t1 = outboxEvents t"
    "(case wallets t i of None \<Rightarrow> row_balance r = Cents 0 | Some r0 \<Rightarrow> r = r0)"
proof (cases "wallets t i")
  case None
  then obtain now es where o: "v = wallet_of_row i (default_row now cur)" "t1 = put i (default_row now cur) es t"
      "\<forall>c \<in> set es. log_type c = WALLET_CREATED"
    using assms unfolding opened_def by (auto simp: logged_def split: if_splits)
  show ?thesis by (rule that[of "default_row now cur" es]) (use o None in \<open>simp_all add: default_row_def\<close>)
next
  case (Some r)
  then show ?thesis using assms that[of r "[]"] by (auto simp: opened_def fun_upd_idem)
qed

lemma movement_deposited:
  assumes m: "movement P i (amount_of k) FUNDS_DEPOSITED (\<lambda>now. wallet_deposit (amount_of k)) rid True t a es t1"
    and P: "decimal_column P" and k: "0 < k" "k \<le> 10 ^ 15 - 10" and row: "exact_row k t i"
  shows "deposited i k rid t (insert_outbox P es now t1)"
proof -
  let ?p = "money_payload FUNDS_DEPOSITED i (amount_of k) (JObj [(''requestId'', js_option JStr rid)])"
  obtain v t0 v' r e later saved where mv: "opened P i ''USD'' t v t0" "wallet_deposit (amount_of k) v = (Ok (), v')"
      "stored P v' r" "logged P i FUNDS_DEPOSITED (currency v') (Some (amount_of k)) (Some (JObj [(''requestId'', js_option JStr rid)])) e"
      "es = [new_outbox_event i FUNDS_DEPOSITED (?p later)]" "t1 = with_key saved rid a (put i r [e] t0)"
    using m unfolding movement_def wallet_before_def by auto
  obtain r0 cs where o: "v = wallet_of_row i r0" "wallets t0 = (wallets t)(i \<mapsto> r0)"
    "walletEvents t0 = walletEvents t @ cs" "\<forall>c \<in> set cs. log_type c = WALLET_CREATED"
    "sagas t0 = sagas t" "outboxEvents t0 = outboxEvents t"
    "(case wallets t i of None \<Rightarrow> row_balance r0 = Cents 0 | Some r \<Rightarrow> r0 = r)"
    using mv(1) by (rule opened_frame)
  obtain j where j: "row_balance r0 = Cents j" "0 \<le> j" "j + k \<le> 10 ^ 15 - 10"
      "(case balance_cents t i of None \<Rightarrow> 0 | Some j \<Rightarrow> j) = j"
    using o(7) row k by (auto simp: exact_row_def balance_cents_def split: option.splits)
  have d: "status v = ACTIVE" "v' = v\<lparr>balance := js_add (balance v) (amount_of k)\<rparr>"
    using mv(2) by (simp_all add: run_simps split: if_splits)
  have "decimal_to P (js_add (decimal_from (Cents j)) (amount_of k)) = Inr (Cents (j + k))"
    unfolding amount_of_def by (rule decimal_add[OF P]) (use j k in auto)
  then have r: "row_balance r = Cents (j + k)" "row_status r = ACTIVE"
    using mv(3) d j(1) o(1) by (auto simp: stored_def wallet_of_row_def simp del: decimal_from.simps)
  have e: "log_walletId e = i \<and> log_type e = FUNDS_DEPOSITED \<and> log_amount e = Some (Cents k)"
    using logged_amount[OF mv(4) P k(1)] k(2) by simp
  obtain out where out: "outboxEvents (insert_outbox P es now t1) = outboxEvents t @ [out]"
      "out_aggregateId out = i" "out_type out = ''FUNDS_DEPOSITED''" "\<not> published out" "out_payload out = jsonb (?p later)"
    using insert_outbox_one[of P i FUNDS_DEPOSITED "?p later" now t1] o(6) mv(5,6) by auto
  show ?thesis
    unfolding deposited_def
    by (rule exI[of _ r], rule exI[of _ cs], rule exI[of _ e], rule exI[of _ out], rule exI[of _ later])
       (use o(2,3,4,5) r e j(4) mv(6) out in \<open>simp add: with_key_def\<close>)
qed


text \<open>What a withdrawal of \<open>k\<close> cents leaves.\<close>

definition paid_out :: "string \<Rightarrow> int \<Rightarrow> string option \<Rightarrow> tables \<Rightarrow> tables \<Rightarrow> bool" where
  "paid_out i k rid t t' \<longleftrightarrow> (\<exists>j r e out now.
     balance_cents t i = Some j \<and> k \<le> j \<and>
     wallets t' = (wallets t)(i \<mapsto> r) \<and> row_status r = ACTIVE \<and> row_balance r = Cents (j - k) \<and>
     walletEvents t' = walletEvents t @ [e] \<and>
     log_walletId e = i \<and> log_type e = FUNDS_WITHDRAWN \<and> log_amount e = Some (Cents k) \<and>
     outboxEvents t' = outboxEvents t @ [out] \<and> out_aggregateId out = i \<and>
     out_type out = ''FUNDS_WITHDRAWN'' \<and> \<not> published out \<and>
     out_payload out = jsonb (money_payload FUNDS_WITHDRAWN i (amount_of k) (JObj [(''requestId'', js_option JStr rid)]) now) \<and>
     sagas t' = sagas t \<and> (given rid \<longrightarrow> idempotencyKeys t' (the rid) \<noteq> None))"

lemma withdraw_in_cents:
  assumes "wallet_withdraw today now (amount_of k) (wallet_of_row i r0) = (Ok (), v)" "row_balance r0 = Cents j"
    and P: "decimal_column P" and k: "0 < k" "k \<le> 10 ^ 15 - 10" and j: "0 \<le> j" "j \<le> 10 ^ 15 - 10"
  shows "k \<le> j" "status v = ACTIVE" "decimal_to P (balance v) = Inr (Cents (j - k))"
proof -
  let ?w = "wallet_of_row i r0"
  have w: "status ?w = ACTIVE" "\<not> js_less (balance ?w) (amount_of k)"
      "status v = ACTIVE" "balance v = js_sub (balance ?w) (amount_of k)"
    using assms(1) by (auto simp: run_simps split: if_splits option.splits)
  have b: "balance ?w = decimal_from (Cents j)" using assms(2) by (simp add: wallet_of_row_def)
  show kj: "k \<le> j"
    using w(2) decimal_from_less[of j k] j k by (simp add: b amount_of_def del: decimal_from.simps)
  show "status v = ACTIVE" by (rule w(3))
  show "decimal_to P (balance v) = Inr (Cents (j - k))"
    unfolding w(4) b amount_of_def by (rule decimal_sub[OF P]) (use kj j k in auto)
qed

lemma movement_paid_out:
  assumes m: "movement P i (amount_of k) FUNDS_WITHDRAWN (\<lambda>now. wallet_withdraw now now (amount_of k)) rid False t a es t1"
    and P: "decimal_column P" and k: "0 < k" "k \<le> 10 ^ 15 - 10" and row: "exact_row 0 t i"
  shows "paid_out i k rid t (insert_outbox P es now t1)"
proof -
  let ?p = "money_payload FUNDS_WITHDRAWN i (amount_of k) (JObj [(''requestId'', js_option JStr rid)])"
  obtain r0 n v' r e later saved where mv: "wallets t i = Some r0"
      "wallet_withdraw n n (amount_of k) (wallet_of_row i r0) = (Ok (), v')" "stored P v' r"
      "logged P i FUNDS_WITHDRAWN (currency v') (Some (amount_of k)) (Some (JObj [(''requestId'', js_option JStr rid)])) e"
      "es = [new_outbox_event i FUNDS_WITHDRAWN (?p later)]" "t1 = with_key saved rid a (put i r [e] t)"
    using m unfolding movement_def wallet_before_def by auto
  obtain j where j: "row_balance r0 = Cents j" "0 \<le> j" "j \<le> 10 ^ 15 - 10"
    using mv(1) row by (auto simp: exact_row_def)
  note c = withdraw_in_cents[OF mv(2) j(1) P k j(2,3)]
  have r: "row_balance r = Cents (j - k)" "row_status r = ACTIVE"
    using mv(3) c by (auto simp: stored_def)
  have e: "log_walletId e = i \<and> log_type e = FUNDS_WITHDRAWN \<and> log_amount e = Some (Cents k)"
    using logged_amount[OF mv(4) P k(1)] k(2) by simp
  obtain out where out: "outboxEvents (insert_outbox P es now t1) = outboxEvents t @ [out]"
      "out_aggregateId out = i" "out_type out = ''FUNDS_WITHDRAWN''" "\<not> published out" "out_payload out = jsonb (?p later)"
    using insert_outbox_one[of P i FUNDS_WITHDRAWN "?p later" now t1] mv(5,6) by auto
  show ?thesis
    unfolding paid_out_def
    by (rule exI[of _ j], rule exI[of _ r], rule exI[of _ e], rule exI[of _ out], rule exI[of _ later])
       (use mv(1,6) c(1) r e j(1) out in \<open>simp add: balance_cents_def with_key_def\<close>)
qed

section \<open>Deposits and withdrawals under any environment\<close>

lemma deposit_cases:
  assumes "decimal_column P" "0 < k" "k \<le> 10 ^ 15 - 10" "exact_row k (db w) i"
    and "deposit P i (amount_of k) rid w = (r, w')"
  shows "(db w' = db w \<and> (\<forall>a. r = Ok a \<longrightarrow> given rid \<and> idempotencyKeys (db w) (the rid) = Some a)) \<or>
    ((given rid \<longrightarrow> idempotencyKeys (db w) (the rid) = None) \<and> deposited i k rid (db w) (db w'))"
  using outcomesD[OF deposit_requested refl assms(5)] unfolding requested_def
  by (elim disjE exE conjE) (auto intro: movement_deposited[OF _ assms(1-4)])

lemma withdraw_cases:
  assumes "decimal_column P" "0 < k" "k \<le> 10 ^ 15 - 10" "exact_row 0 (db w) i"
    and "withdraw P i (amount_of k) rid w = (r, w')"
  shows "(db w' = db w \<and> (\<forall>a. r = Ok a \<longrightarrow> given rid \<and> idempotencyKeys (db w) (the rid) = Some a)) \<or>
    ((given rid \<longrightarrow> idempotencyKeys (db w) (the rid) = None) \<and> paid_out i k rid (db w) (db w'))"
  using outcomesD[OF withdraw_requested refl assms(5)] unfolding requested_def
  by (elim disjE exE conjE) (auto intro: movement_paid_out[OF _ assms(1-4)])

text \<open>C8: A deposit is all or nothing under every script of the environment: whichever call fails,
  before or after it took effect, and wherever the process dies, the committed tables are either
  untouched or have the whole deposit: the balance in cents, exactly \<open>k\<close> higher, the event, the
  unpublished outbox row and the idempotency key. If the promise resolves without the deposit,
  it is the answer of an earlier request with the same key.\<close>

theorem deposit_all_or_nothing:
  assumes "decimal_column P" and "0 < k" and "k \<le> 10 ^ 15 - 10" and "exact_row k (db w) i"
    and "deposit P i (amount_of k) rid w = (r, w')"
  shows "(db w' = db w \<and> (\<forall>a. r = Ok a \<longrightarrow> given rid \<and> idempotencyKeys (db w) (the rid) = Some a)) \<or>
    deposited i k rid (db w) (db w')"
  using deposit_cases[OF assms] by blast

text \<open>C9: A withdrawal is all or nothing under every script of the environment, and what it
  commits never takes the balance below zero: it takes exactly \<open>k\<close> cents, no more than the
  wallet has.\<close>

theorem withdraw_all_or_nothing:
  assumes "decimal_column P" and "0 < k" and "k \<le> 10 ^ 15 - 10" and "exact_row 0 (db w) i"
    and "withdraw P i (amount_of k) rid w = (r, w')"
  shows "(db w' = db w \<and> (\<forall>a. r = Ok a \<longrightarrow> given rid \<and> idempotencyKeys (db w) (the rid) = Some a)) \<or>
    paid_out i k rid (db w) (db w')"
  using withdraw_cases[OF assms] by blast

text \<open>C7: However often a deposit request is attempted, one attempt after the other, each from any world and
  ending in any way the environment chooses, and whatever else happens to the tables between them but for the
  response stored under its key, the amount is deposited at most once, and exactly once if any attempt
  resolves: the attempts before that one failed and changed nothing, those after it change nothing and
  can only repeat its answer. The attempts do not overlap (the lock of the request is to see to
  that; \<open>late_transaction_applies_again\<close> is what happens if it does not), and they look the key up
  in the database they write to (\<open>lagging_replica_applies_again\<close>).\<close>

theorem deposit_applied_once:
  assumes "decimal_column P" and "0 < k" and "k \<le> 10 ^ 15 - 10" and "\<forall>w \<in> set ws. exact_row k (db w) i"
    and "rid \<noteq> []" and "key_left_alone rid None (map (attempted (deposit P i (amount_of k) (Some rid))) ws)"
  shows "all_failed (map (attempted (deposit P i (amount_of k) (Some rid))) ws) \<or>
    applied_once (deposited i k (Some rid)) rid (map (attempted (deposit P i (amount_of k) (Some rid))) ws)"
proof (rule deposit_request.attempts_once[where rid = "Some rid" and R = "\<lambda>t. exact_row k t i", unfolded option.sel])
  show "deposited i k (Some rid) t (insert_outbox P es now t1)"
    if "movement P i (amount_of k) FUNDS_DEPOSITED (\<lambda>now. wallet_deposit (amount_of k)) (Some rid) True t a es t1" "exact_row k t i"
    for t a es t1 now by (rule movement_deposited[OF that(1) assms(1-3) that(2)])
qed (use assms(4-6) deposit_requested in \<open>simp_all add: given_def\<close>)

text \<open>The same for a withdrawal request.\<close>

theorem withdraw_applied_once:
  assumes "decimal_column P" and "0 < k" and "k \<le> 10 ^ 15 - 10" and "\<forall>w \<in> set ws. exact_row 0 (db w) i"
    and "rid \<noteq> []" and "key_left_alone rid None (map (attempted (withdraw P i (amount_of k) (Some rid))) ws)"
  shows "all_failed (map (attempted (withdraw P i (amount_of k) (Some rid))) ws) \<or>
    applied_once (paid_out i k (Some rid)) rid (map (attempted (withdraw P i (amount_of k) (Some rid))) ws)"
proof (rule withdraw_request.attempts_once[where rid = "Some rid" and R = "\<lambda>t. exact_row 0 t i", unfolded option.sel])
  show "paid_out i k (Some rid) t (insert_outbox P es now t1)"
    if "movement P i (amount_of k) FUNDS_WITHDRAWN (\<lambda>now. wallet_withdraw now now (amount_of k)) (Some rid) False t a es t1" "exact_row 0 t i"
    for t a es t1 now by (rule movement_paid_out[OF that(1) assms(1-3) that(2)])
qed (use assms(4-6) withdraw_requested in \<open>simp_all add: given_def\<close>)


section \<open>Calls that succeed\<close>

text \<open>Nothing stands in the way of a request: its key is new and its lock is free.\<close>

definition fresh_request :: "string option \<Rightarrow> world \<Rightarrow> bool" where
  "fresh_request rid w \<longleftrightarrow> (case rid of None \<Rightarrow> True | Some q \<Rightarrow>
     q = [] \<or> (length q \<le> 255 \<and> idempotencyKeys (db w) q = None \<and> redis_lookup (''lock:req:'' @ q) w = None))"

lemma event_row_succeeds:
  "decimal_column P \<Longrightarrow> 0 < k \<Longrightarrow> k \<le> 10 ^ 15 \<Longrightarrow> length i \<le> 255 \<Longrightarrow> length cur \<le> 3 \<Longrightarrow>
   \<exists>e. event_row_of P now n (new_wallet_event i ty cur (Some (amount_of k)) m) = Inr e"
  by (simp add: event_row_of_def new_wallet_event_def amount_truthy decimal_to_nullable_def amount_to varchar_def)

lemma balance_cache_differs_from_lock: "getBalanceCacheKey i \<noteq> ''lock:req:'' @ q"
  by (simp add: getBalanceCacheKey_def)

lemma redis_lookup_frame [simp]:
  "redis_lookup k (w\<lparr>db := t\<rparr>) = redis_lookup k w" "redis_lookup k (w\<lparr>tx := z\<rparr>) = redis_lookup k w"
  "redis_lookup k (w\<lparr>eventsToPublish := es\<rparr>) = redis_lookup k w"
  by (simp_all add: redis_lookup_def split: option.split)

text \<open>The answer of a query right after the balance was cached.\<close>

lemma getBalance_cached:
  "calm w \<Longrightarrow> setBalanceCache P i (JNum b) w = (u, w') \<Longrightarrow>
   getBalance P i w' = (Ok (balance_result (JNum b) i), w')"
  by (auto simp: setBalanceCache_def getBalance_def CACHE_TTL_def redis_argument_def run_simps calm_runs
      redis_lookup_def live_def)

lemma insert_outbox_uuid: "wallets (insert_outbox P es now t) = wallets t"
  by simp

lemma movement_calm:
  assumes P: "decimal_column P" and c: "calm w" "tx w = Some t"
    and row: "wallets t i = Some r" "sound_row r" "length i \<le> 255"
    and op: "operation (clock w) (wallet_of_row i r) = (Ok (), v)"
    and v: "wallet_id v = i" "currency v = row_currency r" "balance v = b" "savable P v"
    and k: "0 < k" "k \<le> 10 ^ 15" and rid: "given rid \<longrightarrow> length (the rid) \<le> 255"
  shows "\<exists>t1 es. idempotent_operation P i (amount_of k) ty operation rid auto w =
      (Ok (balance_result (JNum b) i), w\<lparr>tx := Some t1, eventsToPublish := es\<rparr>)"
proof -
  let ?m = "JObj [(''requestId'', js_option JStr rid)]"
  let ?o = "new_outbox_event i ty (money_payload ty i (amount_of k) ?m (clock w))"
  let ?res = "balance_result (JNum b) i"
  note i = v(1,3)
  have cur: "length (currency v) \<le> 3" using v(2) row(2) by (simp add: sound_row_def)
  obtain r' where r': "row_of_wallet P (clock w) (wallets t (wallet_id v)) v = Inr r'"
    using save_succeeds[OF v(4)] by blast
  obtain e where e: "event_row_of P (clock w) (Suc (length (walletEvents t)))
      (new_wallet_event (wallet_id v) ty (currency v) (Some (amount_of k)) (Some ?m)) = Inr e"
    using event_row_succeeds[OF P k row(3) cur] i by metis
  note save = saveWithEvent_calm[OF c r' e]
  let ?w2 = "w\<lparr>tx := Some (put i r' [e] t), eventsToPublish := eventsToPublish w @ [?o]\<rparr>"
  let ?t1 = "with_key (clock w) rid ?res (put i r' [e] t)"
  have last: "run_if (given rid) (idempotency_save \<lparr>key_requestId = the rid, key_response = ?res\<rparr> True) ?w2 =
      (Ok (), ?w2\<lparr>tx := Some ?t1\<rparr>)"
    using c rid by (cases "given rid") (simp_all add: run_if_run idempotency_save_calm with_key_def)
  have pub: "publishEvent ?o (w\<lparr>tx := Some (put i r' [e] t)\<rparr>) = (Ok (), ?w2)"
    by (simp add: publishEvent_def modify_def)
  have front: "(if auto then await (getOrCreate P i ''USD'' True) (\<lambda>wallet. ret wallet)
      else await (findByIdWithLock i True) (\<lambda>found. case found of None \<Rightarrow> throw (wallet_not_found i) | Some wallet \<Rightarrow> ret wallet)) w =
      (Ok (wallet_of_row i r), w)"
    using c row(1) by (simp add: run_simps calm_runs)
  have "idempotent_operation P i (amount_of k) ty operation rid auto w = (Ok ?res, ?w2\<lparr>tx := Some ?t1\<rparr>)"
    unfolding idempotent_operation_def Let_def
    by (simp add: await_run front get_state_run call_method_def op save[unfolded i] pub i ret_run last del: if_split)
  also have "?w2\<lparr>tx := Some ?t1\<rparr> = w\<lparr>tx := Some ?t1, eventsToPublish := eventsToPublish w @ [?o]\<rparr>" by simp
  finally show ?thesis by blast
qed


text \<open>A request in a calm world whose body resolves: answered, and the answer cached. Nothing but the
  tables and the keys of the request changes.\<close>

definition only_request_keys :: "string \<Rightarrow> world \<Rightarrow> world \<Rightarrow> bool" where
  "only_request_keys i w w' \<longleftrightarrow> calm w' \<and> clock w' = clock w \<and> broker w' = broker w \<and>
     publisherConnected w' = publisherConnected w \<and> isProcessing w' = isProcessing w \<and>
     (\<forall>k. k \<noteq> getBalanceCacheKey i \<and> (\<forall>q. k \<noteq> ''lock:req:'' @ q) \<longrightarrow> redis w' k = redis w k)"

lemma request_calm:
  assumes c: "calm w" and fresh: "fresh_request rid w"
    and body: "\<And>w'. calm w' \<Longrightarrow> tx w' = Some (db w) \<Longrightarrow> clock w' = clock w \<Longrightarrow> \<exists>t1 es.
      idempotent_operation P i a ty operation rid auto w' = (Ok (balance_result (JNum b) i), w'\<lparr>tx := Some t1, eventsToPublish := es\<rparr>)"
  shows "\<exists>w'. (await (executeIdempotentTransaction P i a ty operation rid auto) (\<lambda>result.
      await (setBalanceCache P i (property result ''balance'')) (\<lambda>_. ret result))) w = (Ok (balance_result (JNum b) i), w') \<and>
    getBalance P i w' = (Ok (balance_result (JNum b) i), w') \<and> only_request_keys i w w'"
proof -
  let ?opts = "\<lparr>lockKey = (if given rid then Some (''lock:req:'' @ the rid) else None), lockTtl = 60\<rparr>"
  let ?op = "idempotent_operation P i a ty operation rid auto"
  have "lock_free ?opts w" using fresh by (auto simp: lock_free_def given_def fresh_request_def split: option.splits)
  moreover obtain t1 es where w1: "?op (inside_state ?opts w) =
      (Ok (balance_result (JNum b) i), inside_state ?opts w\<lparr>tx := Some t1, eventsToPublish := es\<rparr>)" (is "_ = (_, ?w1)")
    using body[of "inside_state ?opts w"] c by auto
  ultimately have e: "execute P ?op ?opts w = (Ok (balance_result (JNum b) i), unlocked ?opts
      (?w1\<lparr>db := insert_outbox P es (clock w) t1, tx := None\<rparr>))" (is "_ = (_, ?w2)")
    using execute_calm[of w ?opts ?op _ ?w1 t1 P] c by simp
  have c2: "calm ?w2" using c by simp
  have none: "(if given rid then findByRequestId (the rid) else ret None) w = (Ok None, w)"
    using fresh c by (cases rid) (auto simp: fresh_request_def given_def ret_def findByRequestId_calm)
  have call: "executeIdempotentTransaction P i a ty operation rid auto w = (Ok (balance_result (JNum b) i), ?w2)"
    unfolding executeIdempotentTransaction_def by (rule trans[OF await_run(1)], rule none) (simp only: option.case e)
  obtain w3 where cache: "setBalanceCache P i (JNum b) ?w2 = (Ok (), w3)" and "only_request_keys i w w3"
    using c2 by (auto simp: setBalanceCache_def redis_set_ex_calm only_request_keys_def lock_frame given_def calm_def split: if_splits)
  moreover have p: "property (balance_result (JNum b) i) ''balance'' = JNum b" by (simp add: balance_result_def)
  ultimately show ?thesis
    using getBalance_cached[OF c2 cache] by (simp add: await_run call p cache ret_run)
qed

lemma fresh_request_length: "fresh_request rid w \<Longrightarrow> given rid \<longrightarrow> length (the rid) \<le> 255"
  by (auto simp: fresh_request_def given_def split: option.splits)

lemma deposit_op_calm:
  assumes "decimal_column P" and "sound_row r" and "row_status r = ACTIVE" and "length i \<le> 255"
    and "row_balance r = Cents j" and "0 < k" and "j + k \<le> 10 ^ 15 - 10"
  shows "\<exists>v. wallet_deposit (amount_of k) (wallet_of_row i r) = (Ok (), v) \<and> wallet_credit (amount_of k) (wallet_of_row i r) = (Ok (), v) \<and>
    wallet_id v = i \<and> currency v = row_currency r \<and> balance v = js_add (amount_of j) (amount_of k) \<and> savable P v"
proof -
  let ?b = "js_add (amount_of j) (amount_of k)" and ?w = "wallet_of_row i r"
  let ?v = "?w\<lparr>balance := ?b\<rparr>"
  have j: "0 \<le> j" using assms(2,5) by (auto simp: sound_row_def)
  have k: "k \<le> 10 ^ 15" using j assms(7) by auto
  have "decimal_to P ?b = Inr (Cents (j + k))"
    unfolding amount_of_def by (rule decimal_add[OF assms(1)]) (use j assms(6,7) in auto)
  then have v: "wallet_id ?v = i" "currency ?v = row_currency r" "balance ?v = ?b" "savable P ?v"
    using sound_row_savable[OF assms(1,4,2)] by (simp_all add: savable_def wallet_of_row_def)
  have "wallet_deposit (amount_of k) ?w = (Ok (), ?v) \<and> wallet_credit (amount_of k) ?w = (Ok (), ?v)"
    using amount_not_less_eq_zero[OF assms(6) k] assms(3,5)
    by (simp add: run_simps wallet_of_row_def amount_of_def del: decimal_from.simps)
  then show ?thesis using v by blast
qed

lemma deposit_calm:
  assumes "decimal_column P" and "calm w" and "fresh_request rid w"
    and "wallets (db w) i = Some r" and "sound_row r" and "row_status r = ACTIVE" and "length i \<le> 255"
    and "row_balance r = Cents j" and "0 < k" and "j + k \<le> 10 ^ 15 - 10"
  shows "\<exists>w'. deposit P i (amount_of k) rid w =
      (Ok (balance_result (JNum (js_add (amount_of j) (amount_of k))) i), w') \<and>
    getBalance P i w' = (Ok (balance_result (JNum (js_add (amount_of j) (amount_of k))) i), w')"
proof -
  let ?b = "js_add (amount_of j) (amount_of k)"
  have "0 \<le> j" using assms(5,8) by (auto simp: sound_row_def)
  then have k: "k \<le> 10 ^ 15" using assms(10) by auto
  obtain v where op: "wallet_deposit (amount_of k) (wallet_of_row i r) = (Ok (), v)"
      and v: "wallet_id v = i" "currency v = row_currency r" "balance v = ?b" "savable P v"
    using deposit_op_calm[OF assms(1,5-10)] by blast
  show ?thesis
    unfolding deposit_def
    using request_calm[OF assms(2,3), of P i "amount_of k" FUNDS_DEPOSITED "\<lambda>now. wallet_deposit (amount_of k)" True ?b]
      movement_calm[where operation = "\<lambda>now. wallet_deposit (amount_of k)",
        OF assms(1) _ _ assms(4,5,7) op v assms(9) k fresh_request_length[OF assms(3)]]
    by (fastforce simp del: if_split)
qed

lemma fresh_request_key: "fresh_request rid w \<Longrightarrow> given rid \<longrightarrow> idempotencyKeys (db w) (the rid) = None"
  by (auto simp: fresh_request_def given_def split: option.splits)

text \<open>C25: When every call succeeds, a deposit into an active wallet resolves: the answer is the sum of
  the balance and the amount, exactly \<open>k\<close> cents are committed, and the next balance query
  gives the same answer.\<close>

theorem deposit_succeeds:
  assumes "decimal_column P" and "calm w" and "fresh_request rid w"
    and "wallets (db w) i = Some r" and "sound_row r" and "row_status r = ACTIVE" and "length i \<le> 255"
    and "row_balance r = Cents j" and "0 < k" and "j + k \<le> 10 ^ 15 - 10"
  shows "\<exists>w'. deposit P i (amount_of k) rid w =
      (Ok (balance_result (JNum (js_add (amount_of j) (amount_of k))) i), w') \<and>
    deposited i k rid (db w) (db w') \<and> balance_cents (db w') i = Some (j + k) \<and>
    getBalance P i w' = (Ok (balance_result (JNum (js_add (amount_of j) (amount_of k))) i), w')"
proof -
  have j: "0 \<le> j" using assms(5,8) by (auto simp: sound_row_def)
  then have k: "k \<le> 10 ^ 15 - 10" and ex: "exact_row k (db w) i"
    using assms(4,8,10) by (auto simp: exact_row_def)
  obtain w' where w': "deposit P i (amount_of k) rid w = (Ok (balance_result (JNum (js_add (amount_of j) (amount_of k))) i), w')"
      "getBalance P i w' = (Ok (balance_result (JNum (js_add (amount_of j) (amount_of k))) i), w')"
    using deposit_calm[OF assms] by blast
  then have d: "deposited i k rid (db w) (db w')"
    using deposit_cases[OF assms(1,9) k ex w'(1)] fresh_request_key[OF assms(3)] by auto
  then have "balance_cents (db w') i = Some (j + k)"
    using assms(4,8) by (auto simp: deposited_def balance_cents_def)
  then show ?thesis using w' d by blast
qed


lemma withdraw_op_calm:
  assumes "decimal_column P" and "sound_row r" and "row_status r = ACTIVE" and "length i \<le> 255"
    and "row_balance r = Cents j" and "0 < k" and "k \<le> j" and "j \<le> 10 ^ 15 - 10"
    and "row_total r = Cents d" and "d + k \<le> 10 ^ 15 - 10"
    and "case row_limit r of None \<Rightarrow> True | Some l \<Rightarrow> \<exists>c. l = Cents c \<and> d + k < c"
  shows "\<exists>v. wallet_withdraw n n (amount_of k) (wallet_of_row i r) = (Ok (), v) \<and> wallet_id v = i \<and>
    currency v = row_currency r \<and> balance v = js_sub (amount_of j) (amount_of k) \<and> savable P v"
proof -
  let ?b = "js_sub (amount_of j) (amount_of k)" and ?w = "wallet_of_row i r"
  let ?t = "js_add (dailyWithdrawalTotal (on_day n ?w)) (amount_of k)"
  let ?v = "(on_day n ?w)\<lparr>balance := ?b, dailyWithdrawalTotal := ?t, lastWithdrawalDate := DateObject n\<rparr>"
  have bd: "0 \<le> j" "0 \<le> d" using assms(2,5,9) by (auto simp: sound_row_def)
  have k: "k \<le> 10 ^ 15" using assms(7,8) by auto
  obtain d' where d': "dailyWithdrawalTotal (on_day n ?w) = decimal_from (Cents d')" "0 \<le> d'" "d' \<le> d"
  proof (cases "last_date (lastWithdrawalDate ?w) = Some (getTodayDate n)")
    case True
    then show ?thesis using that[of d] bd(2) assms(9) by (simp add: wallet_of_row_def del: decimal_from.simps)
  next
    case False
    then show ?thesis using that[of 0] bd(2) by (simp del: decimal_from.simps)
  qed
  have "decimal_to P ?b = Inr (Cents (j - k))" "decimal_to P ?t = Inr (Cents (d' + k))"
    unfolding amount_of_def d'(1)
    by (rule decimal_sub[OF assms(1)] decimal_add[OF assms(1)]; use bd d' assms(6-10) in simp)+
  then have v: "wallet_id ?v = i" "currency ?v = row_currency r" "balance ?v = ?b" "savable P ?v"
    using sound_row_savable[OF assms(1,4,2)] by (simp_all add: savable_def wallet_of_row_def)
  have lim: "case dailyWithdrawalLimit ?w of None \<Rightarrow> True | Some l \<Rightarrow> \<not> js_less l ?t"
  proof (cases "row_limit r")
    case (Some l)
    then obtain c where c: "l = Cents c" "d + k < c" "c \<le> 10 ^ 15" using assms(2,11) by (auto simp: sound_row_def)
    have "\<not> js_less (decimal_from (Cents c)) ?t"
      unfolding amount_of_def d'(1) by (rule decimal_sum_below) (use d' c assms(6) in auto)
    then show ?thesis using Some c(1) by (simp add: wallet_of_row_def del: decimal_from.simps)
  qed (simp add: wallet_of_row_def)
  have bal: "balance ?w = amount_of j" "status ?w = ACTIVE" using assms(3,5) by (simp_all add: wallet_of_row_def amount_of_def)
  have "\<not> js_less (amount_of j) (amount_of k)"
    using decimal_from_less[of j k] bd(1) assms(6,7,8) by (simp add: amount_of_def del: decimal_from.simps)
  then have op: "wallet_withdraw n n (amount_of k) ?w = (Ok (), ?v)"
    unfolding wallet_withdraw_run using amount_not_less_eq_zero[OF assms(6) k] bal lim
    by (cases "dailyWithdrawalLimit ?w") (simp_all del: if_split)
  then show ?thesis using v by blast
qed

lemma withdraw_calm:
  assumes "decimal_column P" and "calm w" and "fresh_request rid w"
    and "wallets (db w) i = Some r" and "sound_row r" and "row_status r = ACTIVE" and "length i \<le> 255"
    and "row_balance r = Cents j" and "0 < k" and "k \<le> j" and "j \<le> 10 ^ 15 - 10"
    and "row_total r = Cents d" and "d + k \<le> 10 ^ 15 - 10"
    and "case row_limit r of None \<Rightarrow> True | Some l \<Rightarrow> \<exists>c. l = Cents c \<and> d + k < c"
  shows "\<exists>w'. withdraw P i (amount_of k) rid w =
      (Ok (balance_result (JNum (js_sub (amount_of j) (amount_of k))) i), w') \<and>
    getBalance P i w' = (Ok (balance_result (JNum (js_sub (amount_of j) (amount_of k))) i), w') \<and> only_request_keys i w w'"
proof -
  let ?b = "js_sub (amount_of j) (amount_of k)"
  have k: "k \<le> 10 ^ 15" using assms(10,11) by auto
  obtain v where op: "wallet_withdraw (clock w) (clock w) (amount_of k) (wallet_of_row i r) = (Ok (), v)"
      and v: "wallet_id v = i" "currency v = row_currency r" "balance v = ?b" "savable P v"
    using withdraw_op_calm[OF assms(1,5-14)] by blast
  have body: "\<exists>t1 es. idempotent_operation P i (amount_of k) FUNDS_WITHDRAWN (\<lambda>now. wallet_withdraw now now (amount_of k)) rid False w' =
      (Ok (balance_result (JNum ?b) i), w'\<lparr>tx := Some t1, eventsToPublish := es\<rparr>)" if c: "calm w'" "tx w' = Some (db w)" "clock w' = clock w" for w'
  proof -
    have "(\<lambda>now. wallet_withdraw now now (amount_of k)) (clock w') (wallet_of_row i r) = (Ok (), v)"
      unfolding c(3) by (rule op)
    from movement_calm[where operation = "\<lambda>now. wallet_withdraw now now (amount_of k)",
        OF assms(1) c(1,2) assms(4,5,7) this v assms(9) k fresh_request_length[OF assms(3)]]
    show ?thesis by blast
  qed
  show ?thesis unfolding withdraw_def by (rule request_calm[OF assms(2,3) body])
qed


text \<open>When every call succeeds, a withdrawal of no more than the balance from an active wallet
  resolves, provided the day's withdrawals with it stay below the daily limit by at least a cent:
  exactly \<open>k\<close> cents leave the wallet, and the next balance query repeats the answer.\<close>

theorem withdraw_succeeds:
  assumes "decimal_column P" and "calm w" and "fresh_request rid w"
    and "wallets (db w) i = Some r" and "sound_row r" and "row_status r = ACTIVE" and "length i \<le> 255"
    and "row_balance r = Cents j" and "0 < k" and "k \<le> j" and "j \<le> 10 ^ 15 - 10"
    and "row_total r = Cents d" and "d + k \<le> 10 ^ 15 - 10"
    and "case row_limit r of None \<Rightarrow> True | Some l \<Rightarrow> \<exists>c. l = Cents c \<and> d + k < c"
  shows "\<exists>w'. withdraw P i (amount_of k) rid w =
      (Ok (balance_result (JNum (js_sub (amount_of j) (amount_of k))) i), w') \<and>
    paid_out i k rid (db w) (db w') \<and> balance_cents (db w') i = Some (j - k) \<and>
    getBalance P i w' = (Ok (balance_result (JNum (js_sub (amount_of j) (amount_of k))) i), w')"
proof -
  have j: "0 \<le> j" using assms(5,8) by (auto simp: sound_row_def)
  then have k: "k \<le> 10 ^ 15 - 10" and ex: "exact_row 0 (db w) i"
    using assms(4,8,10,11) by (auto simp: exact_row_def)
  obtain w' where w': "withdraw P i (amount_of k) rid w = (Ok (balance_result (JNum (js_sub (amount_of j) (amount_of k))) i), w')"
      "getBalance P i w' = (Ok (balance_result (JNum (js_sub (amount_of j) (amount_of k))) i), w')"
    using withdraw_calm[OF assms] by blast
  then have d: "paid_out i k rid (db w) (db w')"
    using withdraw_cases[OF assms(1,9) k ex w'(1)] fresh_request_key[OF assms(3)] by auto
  then have "balance_cents (db w') i = Some (j - k)"
    using assms(4,8) by (auto simp: paid_out_def balance_cents_def)
  then show ?thesis using w' d by blast
qed

section \<open>Concrete runs\<close>

text \<open>Two wallets of ten dollars and of nothing.\<close>

definition sample_row :: "int \<Rightarrow> wallet_row" where
  "sample_row j = (default_row 0 ''USD'')\<lparr>row_balance := Cents j\<rparr>"

definition sample_tables :: tables where
  "sample_tables = empty_tables\<lparr>wallets := [''a'' \<mapsto> sample_row 1000, ''b'' \<mapsto> sample_row 0]\<rparr>"

definition sample_world :: world where
  "sample_world = new_world sample_tables 0 []"

lemma sample_simps [simp]:
  "calm sample_world" "db sample_world = sample_tables" "fresh_request (Some ''r'') sample_world"
  "wallets sample_tables ''a'' = Some (sample_row 1000)" "wallets sample_tables ''b'' = Some (sample_row 0)"
  "sound_row (sample_row 1000)" "sound_row (sample_row 0)" "row_status (sample_row j) = ACTIVE"
  "row_balance (sample_row j) = Cents j" "row_total (sample_row j) = Cents 0" "row_limit (sample_row j) = None"
  "idempotencyKeys sample_tables q = None" "row_currency (sample_row j) = ''USD''"
  by (simp_all add: sample_world_def sample_tables_def new_world_def calm_def empty_tables_def fresh_request_def
      redis_lookup_def sample_row_def default_row_def sound_row_def)

lemma sample_exact [simp]: "k \<le> 100000 \<Longrightarrow> exact_row k sample_tables ''a''"
  by (simp add: exact_row_def)

lemma sample_deposit:
  "\<exists>a w'. deposit postgres ''a'' (amount_of 100) (Some ''r'') sample_world = (Ok a, w')"
  using deposit_calm[of postgres sample_world "Some ''r''" "''a''" "sample_row 1000" 1000 100] by auto

lemma sample_withdraw:
  "\<exists>a w'. withdraw postgres ''a'' (amount_of 100) (Some ''r'') sample_world = (Ok a, w')"
  using withdraw_calm[of postgres sample_world "Some ''r''" "''a''" "sample_row 1000" 1000 100 0] by auto

theorem deposit_all_or_nothing_witness:
  "deposited ''a'' 100 (Some ''r'') sample_tables
     (db (snd (deposit postgres ''a'' (amount_of 100) (Some ''r'') sample_world)))"
proof -
  obtain a w' where run: "deposit postgres ''a'' (amount_of 100) (Some ''r'') sample_world = (Ok a, w')"
    using sample_deposit by blast
  show ?thesis
    using deposit_all_or_nothing[of postgres 100 sample_world "''a''" "Some ''r''" "Ok a" w'] run by simp
qed

theorem withdraw_all_or_nothing_witness:
  "paid_out ''a'' 100 (Some ''r'') sample_tables
     (db (snd (withdraw postgres ''a'' (amount_of 100) (Some ''r'') sample_world)))"
proof -
  obtain a w' where run: "withdraw postgres ''a'' (amount_of 100) (Some ''r'') sample_world = (Ok a, w')"
    using sample_withdraw by blast
  show ?thesis
    using withdraw_all_or_nothing[of postgres 100 sample_world "''a''" "Some ''r''" "Ok a" w'] run by simp
qed

text \<open>The world of a second attempt: the tables the first one left, but for the row of another wallet, a later
  time and an empty cache.\<close>

definition second_visit :: "(world \<Rightarrow> (error, json) outcome \<times> world) \<Rightarrow> world" where
  "second_visit m = new_world ((db (snd (m sample_world)))\<lparr>wallets := (wallets (db (snd (m sample_world))))(''b'' \<mapsto> sample_row 7)\<rparr>) 5 []"

lemma second_visit_key: "idempotencyKeys (db (second_visit m)) q = idempotencyKeys (db (snd (m sample_world))) q"
  by (simp add: second_visit_def new_world_def)

theorem deposit_applied_once_witness:
  "let m = deposit postgres ''a'' (amount_of 100) (Some ''r'') in
   applied_once (deposited ''a'' 100 (Some ''r'')) ''r'' (map (attempted m) [sample_world, second_visit m])"
proof -
  let ?m = "deposit postgres ''a'' (amount_of 100) (Some ''r'')"
  obtain a w1 where run: "?m sample_world = (Ok a, w1)" using sample_deposit by blast
  obtain r w2 where again: "?m (second_visit ?m) = (r, w2)" by fastforce
  have "deposited ''a'' 100 (Some ''r'') sample_tables (db w1)"
    using deposit_cases[of postgres 100 sample_world "''a''" "Some ''r''" "Ok a" w1] run by simp
  then have "exact_row 100 (db (second_visit ?m)) ''a''"
    by (auto simp: deposited_def exact_row_def second_visit_def new_world_def run balance_cents_def)
  then show ?thesis
    using deposit_applied_once[of postgres 100 "[sample_world, second_visit ?m]" "''a''" "''r''"]
    by (simp add: attempted_run[of ?m, OF run] attempted_run[of ?m, OF again] second_visit_key run Let_def)
qed

theorem withdraw_applied_once_witness:
  "applied_once (paid_out ''a'' 100 (Some ''r'')) ''r''
     (map (attempted (withdraw postgres ''a'' (amount_of 100) (Some ''r''))) [sample_world])"
proof -
  let ?m = "withdraw postgres ''a'' (amount_of 100) (Some ''r'')"
  obtain a w1 where run: "?m sample_world = (Ok a, w1)" using sample_withdraw by blast
  then show ?thesis
    using withdraw_applied_once[of postgres 100 "[sample_world]" "''a''" "''r''"]
    by (simp add: attempted_run[of ?m, OF run])
qed

theorem deposit_succeeds_witness:
  "\<exists>w'. deposit postgres ''a'' (amount_of 100) (Some ''r'') sample_world =
      (Ok (balance_result (JNum (js_add (amount_of 1000) (amount_of 100))) ''a''), w') \<and>
    balance_cents (db w') ''a'' = Some 1100"
  using deposit_succeeds[of postgres sample_world "Some ''r''" "''a''" "sample_row 1000" 1000 100] by auto

theorem withdraw_succeeds_witness:
  "\<exists>w'. withdraw postgres ''a'' (amount_of 100) (Some ''r'') sample_world =
      (Ok (balance_result (JNum (js_sub (amount_of 1000) (amount_of 100))) ''a''), w') \<and>
    balance_cents (db w') ''a'' = Some 900"
  using withdraw_succeeds[of postgres sample_world "Some ''r''" "''a''" "sample_row 1000" 1000 100 0] by auto

end
