(* ===== verification/EventPublisher.thy ===== *)
theory EventPublisher imports Transaction
begin

text \<open>
  The configuration the services read (numeric settings are non-negative whole numbers here;
  \<open>Settings\<close> has the getters of \<open>src/config/app-config.service.ts\<close>), the publisher of
  \<open>src/infrastructure/messaging/event-publisher.service.ts\<close> and the relay of
  \<open>src/infrastructure/messaging/outbox-relay.service.ts\<close>, which publishes the outbox rows
  the transactions committed.

  This theory has the operations; \<open>OutboxRelay\<close> shows that the relay loses no event.
\<close>

record app_config =
  rabbitMqExchange :: string
  maxRetries :: nat
  initialBackoffMs :: nat
  sagaStuckThreshold :: nat
  fraudDetectionQueue :: string
  fraudDetectionThreshold :: nat
  fraudDetectionMaxWithdrawals :: nat
  fraudDetectionTimeWindowMinutes :: nat

definition default_config :: app_config where
  "default_config = \<lparr>rabbitMqExchange = ''wallet_events'', maxRetries = 10, initialBackoffMs = 50,
     sagaStuckThreshold = 60000, fraudDetectionQueue = ''fraud_detection'', fraudDetectionThreshold = 10000,
     fraudDetectionMaxWithdrawals = 3, fraudDetectionTimeWindowMinutes = 5\<rparr>"

section \<open>The publisher\<close>

text \<open>\<open>toLowerCase\<close> on the ASCII names of the event types.\<close>

definition lower_char :: "char \<Rightarrow> char" where
  "lower_char c = (if 65 \<le> (of_char c :: nat) \<and> (of_char c :: nat) \<le> 90 then char_of ((of_char c :: nat) + 32) else c)"

definition toLowerCase :: "string \<Rightarrow> string" where
  "toLowerCase s = map lower_char s"

definition routingKey :: "string \<Rightarrow> string" where
  "routingKey ty = ''wallet.'' @ toLowerCase ty"

definition channel_publish :: "string \<Rightarrow> string \<Rightarrow> json \<Rightarrow> unit handler" where
  "channel_publish exchange key event = extern (\<lambda>w. (Inr (), w\<lparr>broker := broker w @ [(exchange, key, event)]\<rparr>))"

text \<open>An event whose type is not a text has no \<open>toLowerCase\<close>: a type error.\<close>

definition publish :: "app_config \<Rightarrow> json \<Rightarrow> unit handler" where
  "publish C event = await get_state (\<lambda>w.
     if \<not> publisherConnected w then throw (PlainError ''EventPublisher not connected'')
     else case property event ''eventType'' of
       JStr ty \<Rightarrow> try_catch (channel_publish (rabbitMqExchange C) (routingKey ty) event) (\<lambda>e. throw e)
     | _ \<Rightarrow> throw (PlainError ''event.eventType.toLowerCase is not a function''))"

section \<open>The relay\<close>

definition RELAY_LOCK_KEY :: string where
  "RELAY_LOCK_KEY = ''lock:outbox-relay''"

text \<open>The loop over the batch collects the identifiers of the rows that were published.\<close>

fun relay_loop :: "app_config \<Rightarrow> outbox_row list \<Rightarrow> string list \<Rightarrow> string list handler" where
  "relay_loop C [] publishedIds = ret publishedIds"
| "relay_loop C (event # events) publishedIds =
     await (try_catch (await (publish C (out_payload event)) (\<lambda>_. ret (publishedIds @ [out_id event])))
                      (\<lambda>_. ret publishedIds)) (\<lambda>ids.
     relay_loop C events ids)"

definition set_processing :: "bool \<Rightarrow> unit handler" where
  "set_processing b = modify (\<lambda>w. w\<lparr>isProcessing := b\<rparr>)"

definition relay_body :: "app_config \<Rightarrow> unit handler" where
  "relay_body C =
     await (set_processing True) (\<lambda>_.
     await (findUnpublished 100) (\<lambda>events.
     if events = [] then ret ()
     else await (relay_loop C events []) (\<lambda>publishedIds.
          run_if (publishedIds \<noteq> []) (markAsPublished publishedIds))))"

text \<open>
  The outer \<open>try\<close> covers the lock and the body; its \<open>finally\<close> block clears the flag and,
  only if the lock was acquired, releases it. Whether it was is the value of the first part.
\<close>

definition handleCron :: "app_config \<Rightarrow> unit handler" where
  "handleCron C = await get_state (\<lambda>w.
     if isProcessing w then ret ()
     else await (try_catch (redis_set_ex_nx RELAY_LOCK_KEY (RStr ''PROCESSING'') 30) (\<lambda>_. ret False)) (\<lambda>lockAcquired.
       await (if lockAcquired then try_catch (relay_body C) (\<lambda>_. ret ()) else ret ()) (\<lambda>_.
       await (set_processing False) (\<lambda>_.
       if lockAcquired then try_catch (redis_del RELAY_LOCK_KEY) (\<lambda>_. ret ()) else ret ()))))"

end
