(* ===== verification/TransferService.thy ===== *)
theory TransferService imports WalletGuarantees EventPublisher
begin

text \<open>
  The transfer service, \<open>src/modules/transfer/services/transfer-saga.service.ts\<close>: a saga of
  three transactions (create, debit the sender, credit the receiver), its compensation, its
  recovery after a crash, and the retries with exponential backoff around each step.

  This theory has the operations and what their retries keep; \<open>TransferProtocol\<close> has the abstract
  protocol they implement, \<open>TransferGuarantees\<close> the properties, \<open>RetryLoop\<close> that of the retries.
\<close>

section \<open>Retries\<close>

text \<open>Only a driver error carries one of these codes or names.\<close>

fun isRetryableError :: "error \<Rightarrow> bool" where
  "isRetryableError (DriverError code name m) \<longleftrightarrow> code = ''40001'' \<or> code = ''40P01'' \<or> code = ''23505'' \<or>
     name = ''OptimisticLockVersionMismatchError''"
| "isRetryableError _ \<longleftrightarrow> False"

definition backoff_ms :: "nat \<Rightarrow> nat \<Rightarrow> rat \<Rightarrow> rat" where
  "backoff_ms attempt initial random = min (2 ^ attempt * of_nat initial) 5000 + random * 100"

definition sleep :: "rat \<Rightarrow> unit handler" where
  "sleep ms = modify (\<lambda>w. w\<lparr>clock := clock w + \<lceil>ms\<rceil>\<rparr>)"

definition performExponentialBackoff :: "platform \<Rightarrow> nat \<Rightarrow> nat \<Rightarrow> unit handler" where
  "performExponentialBackoff P attempt initial = await get_state (\<lambda>w.
     sleep (backoff_ms attempt initial (jitterOf P (nat (clock w)))))"

text \<open>The loop, by the number of attempts left.\<close>

fun retry_loop :: "platform \<Rightarrow> app_config \<Rightarrow> nat \<Rightarrow> nat \<Rightarrow> 'a handler \<Rightarrow> 'a handler" where
  "retry_loop P C 0 attempt operation =
     throw (PlainError ''Operation failed due to concurrent modification. Please retry.'')"
| "retry_loop P C (Suc left) attempt operation =
     try_catch operation (\<lambda>e.
       if isRetryableError e
       then await (performExponentialBackoff P attempt (initialBackoffMs C)) (\<lambda>_.
            retry_loop P C left (Suc attempt) operation)
       else throw e)"

definition executeWithRetry :: "platform \<Rightarrow> app_config \<Rightarrow> 'a handler \<Rightarrow> 'a handler" where
  "executeWithRetry P C operation = retry_loop P C (maxRetries C) 0 operation"

section \<open>One step of a saga\<close>

definition saga_not_found :: "string \<Rightarrow> error" where
  "saga_not_found sagaId = NotFoundException (''Saga '' @ sagaId @ '' not found'')"

text \<open>The operation on the wallet and the additional events get the time they run at.\<close>

definition step_operation ::
  "platform \<Rightarrow> string \<Rightarrow> string \<Rightarrow> number \<Rightarrow> (int \<Rightarrow> (wallet, error, unit) program) \<Rightarrow> wallet_event_type \<Rightarrow> json \<Rightarrow>
   (transfer_saga, error, unit) program \<Rightarrow> (transfer_saga \<Rightarrow> int \<Rightarrow> outbox_event list) \<Rightarrow> unit handler" where
  "step_operation P sagaId walletId amount operation eventType eventMetadata updateSaga additionalOutboxEvents =
     await (sql True (find_wallet walletId)) (\<lambda>found.
     case found of
       None \<Rightarrow> throw (wallet_not_found walletId)
     | Some wallet \<Rightarrow>
         await get_state (\<lambda>w.
         await (call_method (operation (clock w)) wallet) (\<lambda>wallet.
         await (sql True (save_wallet P wallet)) (\<lambda>_.
         await (sql True (find_saga sagaId)) (\<lambda>found.
         case found of
           None \<Rightarrow> throw (saga_not_found sagaId)
         | Some saga \<Rightarrow>
             await (call_method updateSaga saga) (\<lambda>saga.
             await (sql True (save_saga P saga)) (\<lambda>saga.
             await (sql True (insert_event P
               (new_wallet_event walletId eventType (currency wallet) (Some amount) (Some eventMetadata)))) (\<lambda>_.
             await get_state (\<lambda>w.
             await (publishEvent (new_outbox_event walletId eventType
               (money_payload eventType walletId amount eventMetadata (clock w)))) (\<lambda>_.
             for_each (additionalOutboxEvents saga (clock w)) publishEvent))))))))))"

definition executeTransactionalStep ::
  "platform \<Rightarrow> app_config \<Rightarrow> string \<Rightarrow> string \<Rightarrow> number \<Rightarrow> (int \<Rightarrow> (wallet, error, unit) program) \<Rightarrow>
   wallet_event_type \<Rightarrow> json \<Rightarrow> (transfer_saga, error, unit) program \<Rightarrow>
   (transfer_saga \<Rightarrow> int \<Rightarrow> outbox_event list) \<Rightarrow> unit handler" where
  "executeTransactionalStep P C sagaId walletId amount operation eventType eventMetadata updateSaga additionalOutboxEvents =
     executeWithRetry P C (execute P
       (step_operation P sagaId walletId amount operation eventType eventMetadata updateSaga additionalOutboxEvents)
       default_options)"

section \<open>The steps\<close>

definition createSaga_operation ::
  "platform \<Rightarrow> string \<Rightarrow> string \<Rightarrow> number \<Rightarrow> string \<Rightarrow> string option \<Rightarrow> transfer_saga handler" where
  "createSaga_operation P from_id to_id amount cur requestId =
     await (sql True (save_saga P (new_transfer_saga from_id to_id amount cur))) (\<lambda>createdSaga.
     await get_state (\<lambda>w.
     await (publishEvent (new_outbox_event from_id TRANSFER_INITIATED
       (money_payload TRANSFER_INITIATED from_id amount
         (JObj [(''sagaId'', JStr (saga_id createdSaga)), (''toWalletId'', JStr to_id),
            (''requestId'', js_option JStr requestId)]) (clock w)))) (\<lambda>_.
     ret createdSaga)))"

definition createSaga ::
  "platform \<Rightarrow> string \<Rightarrow> string \<Rightarrow> number \<Rightarrow> string \<Rightarrow> string option \<Rightarrow> transfer_saga handler" where
  "createSaga P from_id to_id amount cur requestId =
     execute P (createSaga_operation P from_id to_id amount cur requestId) default_options"

definition debitFromSender :: "platform \<Rightarrow> app_config \<Rightarrow> transfer_saga \<Rightarrow> unit handler" where
  "debitFromSender P C saga =
     await (executeTransactionalStep P C (saga_id saga) (fromWalletId saga) (saga_amount saga)
       (\<lambda>now. wallet_withdraw now now (saga_amount saga)) FUNDS_WITHDRAWN
       (JObj [(''sagaId'', JStr (saga_id saga)), (''transferTo'', JStr (toWalletId saga))])
       markAsDebited (\<lambda>_ _. [])) (\<lambda>_.
     invalidateBalanceCache (fromWalletId saga))"

definition completion_event :: "bool \<Rightarrow> transfer_saga \<Rightarrow> int \<Rightarrow> outbox_event" where
  "completion_event recovered saga now = new_outbox_event (fromWalletId saga) TRANSFER_COMPLETED
     (money_payload TRANSFER_COMPLETED (fromWalletId saga) (saga_amount saga)
       (JObj ([(''sagaId'', JStr (saga_id saga)), (''toWalletId'', JStr (toWalletId saga))] @
          (if recovered then [(''recovered'', JBool True)] else []))) now)"

definition creditToReceiver :: "platform \<Rightarrow> app_config \<Rightarrow> transfer_saga \<Rightarrow> bool \<Rightarrow> unit handler" where
  "creditToReceiver P C saga recovered =
     await (executeTransactionalStep P C (saga_id saga) (toWalletId saga) (saga_amount saga)
       (\<lambda>now. wallet_credit (saga_amount saga)) FUNDS_DEPOSITED
       (JObj [(''sagaId'', JStr (saga_id saga)), (''transferFrom'', JStr (fromWalletId saga))])
       markAsCompleted (\<lambda>currentSaga now. [completion_event recovered currentSaga now])) (\<lambda>_.
     invalidateBalanceCache (toWalletId saga))"

definition compensate :: "platform \<Rightarrow> app_config \<Rightarrow> string \<Rightarrow> string \<Rightarrow> number \<Rightarrow> string \<Rightarrow> unit handler" where
  "compensate P C sagaId from_id amount errorMessage = try_catch
     (await (executeTransactionalStep P C sagaId from_id amount (\<lambda>now. wallet_credit amount) TRANSFER_COMPENSATED
        (JObj [(''sagaId'', JStr sagaId), (''reason'', JStr errorMessage)])
        (markAsCompensated errorMessage) (\<lambda>_ _. [])) (\<lambda>_.
      await get_state (\<lambda>w.
      publish C (money_payload TRANSFER_FAILED from_id amount
        (JObj [(''sagaId'', JStr sagaId), (''reason'', JStr errorMessage)]) (clock w)))))
     (\<lambda>e. throw e)"

section \<open>The transfer and its recovery\<close>

definition transfer_result :: "string \<Rightarrow> string \<Rightarrow> string \<Rightarrow> number \<Rightarrow> json" where
  "transfer_result sagaId from_id to_id amount = JObj
     [(''sagaId'', JStr sagaId), (''state'', JStr (saga_state_text COMPLETED)),
      (''fromWalletId'', JStr from_id), (''toWalletId'', JStr to_id), (''amount'', JNum amount)]"

text \<open>The \<open>catch\<close> block of a transfer that was started.\<close>

definition handle_failure :: "platform \<Rightarrow> app_config \<Rightarrow> transfer_saga \<Rightarrow> error \<Rightarrow> json handler" where
  "handle_failure P C saga e =
     await (saga_findById (saga_id saga)) (\<lambda>found.
     case found of
       None \<Rightarrow> throw (PlainError (''Saga '' @ saga_id saga @ '' not found during error handling''))
     | Some currentSaga \<Rightarrow>
         await (if saga_state currentSaga = DEBITED
             then compensate P C (saga_id currentSaga) (fromWalletId currentSaga) (saga_amount currentSaga) (error_message e)
             else if saga_state currentSaga \<noteq> COMPLETED \<and> saga_state currentSaga \<noteq> COMPENSATED \<and>
                     saga_state currentSaga \<noteq> FAILED
             then await (call_method (markAsFailed (error_message e)) currentSaga) (\<lambda>currentSaga.
                  await (saga_save P currentSaga) (\<lambda>_. ret ()))
             else ret ()) (\<lambda>_.
         throw e))"

definition run_saga :: "platform \<Rightarrow> app_config \<Rightarrow> transfer_saga \<Rightarrow> string \<Rightarrow> string \<Rightarrow> number \<Rightarrow> string option \<Rightarrow> json handler" where
  "run_saga P C saga from_id to_id amount requestId =
     await (debitFromSender P C saga) (\<lambda>_.
     await (creditToReceiver P C saga False) (\<lambda>_.
     let result = transfer_result (saga_id saga) from_id to_id amount in
     await (run_if (given requestId)
       (idempotency_save \<lparr>key_requestId = the requestId, key_response = result\<rparr> False)) (\<lambda>_.
     ret result)))"

definition start_transfer ::
  "platform \<Rightarrow> app_config \<Rightarrow> string \<Rightarrow> string \<Rightarrow> number \<Rightarrow> string option \<Rightarrow> json handler" where
  "start_transfer P C from_id to_id amount requestId =
     (if from_id = to_id then throw (BadRequestException ''Cannot transfer to the same wallet'')
      else await (findById from_id) (\<lambda>found.
      case found of
        None \<Rightarrow> throw (wallet_not_found from_id)
      | Some fromWallet \<Rightarrow>
          await (getOrCreate P to_id (currency fromWallet) False) (\<lambda>toWallet.
          if currency toWallet \<noteq> currency fromWallet
          then throw (CurrencyMismatchError (currency fromWallet) (currency toWallet) from_id to_id)
          else await (createSaga P from_id to_id amount (currency fromWallet) requestId) (\<lambda>saga.
            try_catch (run_saga P C saga from_id to_id amount requestId) (handle_failure P C saga)))))"

definition executeTransfer ::
  "platform \<Rightarrow> app_config \<Rightarrow> string \<Rightarrow> string \<Rightarrow> number \<Rightarrow> string option \<Rightarrow> json handler" where
  "executeTransfer P C from_id to_id amount requestId =
     await (if given requestId then findByRequestId (the requestId) else ret None) (\<lambda>existing.
     case existing of
       Some key \<Rightarrow> ret (key_response key)
     | None \<Rightarrow> start_transfer P C from_id to_id amount requestId)"

definition recoverSaga :: "platform \<Rightarrow> app_config \<Rightarrow> string \<Rightarrow> unit handler" where
  "recoverSaga P C sagaId =
     await (saga_findById sagaId) (\<lambda>found.
     case found of
       None \<Rightarrow> ret ()
     | Some saga \<Rightarrow>
         run_if (saga_state saga = DEBITED)
           (try_catch (creditToReceiver P C saga True) (\<lambda>e.
              compensate P C (saga_id saga) (fromWalletId saga) (saga_amount saga)
                (''Recovery failed: '' @ error_message e))))"


section \<open>What retries, publishing and the cache keep\<close>

lemma tables_sleep [step_rules]: "obeys same_tables (sleep ms)"
  by (simp add: obeys_def sleep_def modify_def same_tables_def)

lemma tables_backoff [step_rules]: "obeys same_tables (performExponentialBackoff P n i)"
  unfolding performExponentialBackoff_def by (intro tables_contract.obeys_control step_rules)

lemma tables_channel_publish [step_rules]: "obeys same_tables (channel_publish x k e)"
  unfolding channel_publish_def by (rule obeys_extern) (auto simp: same_tables_def)

lemma tables_publish [step_rules]: "obeys same_tables (publish C e)"
  unfolding publish_def
  by (intro tables_contract.obeys_control step_rules, cases "property e ''eventType''")
     (simp_all add: tables_contract.obeys_control step_rules)

lemma tables_saga_findById [step_rules]: "obeys same_tables (saga_findById s)"
  by (simp add: saga_findById_def find_saga_def step_rules)

text \<open>What one attempt and the wait between attempts keep, the retries keep.\<close>

locale retry_contract = step_contract R for R :: "world \<Rightarrow> world \<Rightarrow> bool" +
  assumes backoff: "obeys R (performExponentialBackoff P n i)"
begin

lemma obeys_retry_loop: "obeys R operation \<Longrightarrow> obeys R (retry_loop P C left attempt operation)"
  by (induction left arbitrary: attempt)
     (simp_all add: backoff obeys_throw obeys_try_catch obeys_await)

lemma obeys_executeWithRetry: "obeys R operation \<Longrightarrow> obeys R (executeWithRetry P C operation)"
  unfolding executeWithRetry_def by (rule obeys_retry_loop)

end

interpretation table_retries: retry_contract "invariant_step (\<lambda>w. J (db w))"
  by unfold_locales (rule keeps_of_same_tables, rule step_rules)

interpretation same_table_retries: retry_contract same_tables
  by unfold_locales (rule step_rules)

end
