(* ===== verification/WalletController.thy ===== *)
theory WalletController imports TransferService
begin

text \<open>
  The HTTP surface: the routes of \<open>src/modules/wallet/controllers/wallet.controller.ts\<close>, the
  bodies they accept (\<open>src/modules/wallet/dtos/wallet.dto.ts\<close>, checked by the global
  \<open>ValidationPipe\<close> of \<open>src/main.ts\<close>, which forbids other properties) and the filter
  \<open>src/common/filters/wallet-exception.filter.ts\<close>.

  The validators of \<open>class-validator\<close> are the parameter \<open>validators\<close>; what is relied on of them
  is \<open>documented_validators\<close>, and \<open>class_validators\<close> is an instance. Errors the filter does not
  catch go to the framework (\<open>FrameworkError\<close>). A history query has whole numbers, or none.
\<close>

section \<open>Bodies\<close>

record validators =
  isNumber :: "json \<Rightarrow> bool"
  isPositive :: "json \<Rightarrow> bool"
  isString :: "json \<Rightarrow> bool"

definition documented_validators :: "validators \<Rightarrow> bool" where
  "documented_validators V \<longleftrightarrow> (\<forall>j. isNumber V j \<longleftrightarrow> (\<exists>x. j = JNum (Fin x))) \<and>
     (\<forall>x. isPositive V (JNum (Fin x)) \<longleftrightarrow> 0 < x) \<and> (\<forall>j. isString V j \<longleftrightarrow> (\<exists>s. j = JStr s))"

definition class_validators :: validators where
  "class_validators = \<lparr>
     isNumber = (\<lambda>j. case j of JNum (Fin x) \<Rightarrow> True | _ \<Rightarrow> False),
     isPositive = (\<lambda>j. case j of JNum (Fin x) \<Rightarrow> 0 < x | JNum PosInf \<Rightarrow> True | _ \<Rightarrow> False),
     isString = (\<lambda>j. case j of JStr s \<Rightarrow> True | _ \<Rightarrow> False)\<rparr>"

lemma class_validators_documented: "documented_validators class_validators"
  by (auto simp: documented_validators_def class_validators_def split: json.split number.split)

text \<open>\<open>whitelist\<close> with \<open>forbidNonWhitelisted\<close>.\<close>

fun whitelisted :: "string list \<Rightarrow> json \<Rightarrow> bool" where
  "whitelisted names (JObj ps) \<longleftrightarrow> list_all (\<lambda>p. fst p \<in> set names) ps"
| "whitelisted names _ \<longleftrightarrow> False"

definition DepositDto :: "validators \<Rightarrow> json \<Rightarrow> bool" where
  "DepositDto V body \<longleftrightarrow> whitelisted [''amount''] body \<and>
     isNumber V (property body ''amount'') \<and> isPositive V (property body ''amount'')"

definition WithdrawDto :: "validators \<Rightarrow> json \<Rightarrow> bool" where
  "WithdrawDto V body \<longleftrightarrow> whitelisted [''amount''] body \<and>
     isNumber V (property body ''amount'') \<and> isPositive V (property body ''amount'')"

definition TransferDto :: "validators \<Rightarrow> json \<Rightarrow> bool" where
  "TransferDto V body \<longleftrightarrow> whitelisted [''toWalletId'', ''amount''] body \<and> isString V (property body ''toWalletId'') \<and>
     isNumber V (property body ''amount'') \<and> isPositive V (property body ''amount'')"

fun number_field :: "json \<Rightarrow> number" where
  "number_field (JNum x) = x"
| "number_field _ = NaN"

fun string_field :: "json \<Rightarrow> string" where
  "string_field (JStr s) = s"
| "string_field _ = []"

section \<open>Responses\<close>

fun exception_name :: "error \<Rightarrow> string" where
  "exception_name (InsufficientFundsError b r) = ''InsufficientFundsError''"
| "exception_name (WalletNotActiveError s) = ''WalletNotActiveError''"
| "exception_name (WithdrawalLimitExceededError r l) = ''WithdrawalLimitExceededError''"
| "exception_name (InvalidAmountError a p) = ''InvalidAmountError''"
| "exception_name WalletClosedError = ''WalletClosedError''"
| "exception_name (NonZeroBalanceError b) = ''NonZeroBalanceError''"
| "exception_name (CurrencyMismatchError a b c d) = ''CurrencyMismatchError''"
| "exception_name (NotFoundException m) = ''NotFoundException''"
| "exception_name (BadRequestException m) = ''BadRequestException''"
| "exception_name (ConflictException m) = ''ConflictException''"
| "exception_name (PlainError m) = ''Error''"
| "exception_name (DriverError c n m) = n"

datatype response = Response nat json | FrameworkError error

definition exception_body :: "error \<Rightarrow> json" where
  "exception_body exception = JObj
     [(''statusCode'', JNum (Fin 422)), (''error'', JStr ''Unprocessable Entity''),
      (''message'', JStr (error_message exception)), (''type'', JStr (exception_name exception))]"

definition filter_exception :: "error \<Rightarrow> response" where
  "filter_exception exception = (if is_domain_exception exception
     then Response 422 (exception_body exception) else FrameworkError exception)"

definition respond :: "json handler \<Rightarrow> response handler" where
  "respond m = try_catch (await m (\<lambda>j. ret (Response 200 j))) (\<lambda>e. ret (filter_exception e))"

definition invalid_body :: "response" where
  "invalid_body = FrameworkError (BadRequestException ''Bad Request Exception'')"

section \<open>Routes\<close>

definition post_deposit :: "validators \<Rightarrow> platform \<Rightarrow> string \<Rightarrow> json \<Rightarrow> string option \<Rightarrow> response handler" where
  "post_deposit V P walletId depositDto requestId =
     (if \<not> DepositDto V depositDto then ret invalid_body
      else respond (deposit P walletId (number_field (property depositDto ''amount'')) requestId))"

definition post_withdraw :: "validators \<Rightarrow> platform \<Rightarrow> string \<Rightarrow> json \<Rightarrow> string option \<Rightarrow> response handler" where
  "post_withdraw V P walletId withdrawDto requestId =
     (if \<not> WithdrawDto V withdrawDto then ret invalid_body
      else respond (withdraw P walletId (number_field (property withdrawDto ''amount'')) requestId))"

definition post_transfer ::
  "validators \<Rightarrow> platform \<Rightarrow> app_config \<Rightarrow> string \<Rightarrow> json \<Rightarrow> string option \<Rightarrow> response handler" where
  "post_transfer V P C walletId transferDto requestId =
     (if \<not> TransferDto V transferDto then ret invalid_body
      else respond (executeTransfer P C walletId (string_field (property transferDto ''toWalletId''))
        (number_field (property transferDto ''amount'')) requestId))"

definition get_balance :: "platform \<Rightarrow> string \<Rightarrow> response handler" where
  "get_balance P walletId = respond (getBalance P walletId)"

text \<open>The defaults of the route: zero is falsy too.\<close>

definition history_page :: "nat option \<Rightarrow> nat \<Rightarrow> nat" where
  "history_page n fallback = (case n of None \<Rightarrow> fallback | Some m \<Rightarrow> if m = 0 then fallback else m)"

definition get_history :: "string \<Rightarrow> nat option \<Rightarrow> nat option \<Rightarrow> (event_row \<times> number option) list handler" where
  "get_history walletId limit offset = getHistory walletId (history_page limit 100) (history_page offset 0)"

section \<open>What reaches the services\<close>

lemma accepted_amount:
  assumes "documented_validators V"
  shows "DepositDto V body \<Longrightarrow> \<exists>x > 0. property body ''amount'' = JNum (Fin x)"
    "WithdrawDto V body \<Longrightarrow> \<exists>x > 0. property body ''amount'' = JNum (Fin x)"
    "TransferDto V body \<Longrightarrow> \<exists>x > 0. property body ''amount'' = JNum (Fin x)"
    "TransferDto V body \<Longrightarrow> \<exists>g. property body ''toWalletId'' = JStr g"
  using assms by (auto simp: documented_validators_def DepositDto_def WithdrawDto_def TransferDto_def)

lemma respond_outcomes:
  assumes "outcomes I m (\<lambda>r w. J w)"
  shows "outcomes I (respond m) (\<lambda>r w. J w \<and> (\<forall>e. r \<noteq> Throw e))"
  unfolding respond_def
  by (rule outcomes_try_catch[OF outcomes_await[OF assms]]) (auto intro: outcomes_ret)

text \<open>C27: Whatever body a client posts, the services only see positive finite amounts: a body is
  refused before anything happens, or its amount is a positive number, on which the entity's
  guard never fails. \<open>NaN\<close>, which the guard would let through, cannot come in over HTTP.\<close>

theorem posted_amounts_are_positive:
  assumes "documented_validators V"
  shows "(post_deposit V P i body rid = ret invalid_body \<or>
      (\<exists>x > 0. post_deposit V P i body rid = respond (deposit P i (Fin x) rid) \<and>
        validatePositiveAmount (Fin x) ''Deposit'' = ret ())) \<and>
    (post_withdraw V P i body rid = ret invalid_body \<or>
      (\<exists>x > 0. post_withdraw V P i body rid = respond (withdraw P i (Fin x) rid) \<and>
        validatePositiveAmount (Fin x) ''Withdrawal'' = ret ())) \<and>
    (post_transfer V P C i body rid = ret invalid_body \<or>
      (\<exists>x > 0. \<exists>g. post_transfer V P C i body rid = respond (executeTransfer P C i g (Fin x) rid)))"
proof -
  have ok: "0 < x \<Longrightarrow> validatePositiveAmount (Fin x) op = ret ()" for x op
    by (simp add: validatePositiveAmount_def)
  show ?thesis
    using accepted_amount[OF assms, of body] ok
    by (fastforce simp: post_deposit_def post_withdraw_def post_transfer_def)
qed

theorem posted_amounts_are_positive_witness:
  "\<exists>x > 0. post_deposit class_validators postgres ''a'' (JObj [(''amount'', JNum (Fin 5))]) None =
     respond (deposit postgres ''a'' (Fin x) None)"
proof -
  let ?b = "JObj [(''amount'', JNum (Fin 5))]"
  have "DepositDto class_validators ?b" by (simp add: DepositDto_def class_validators_def)
  moreover have "respond (deposit postgres ''a'' (Fin 5) None) \<noteq> ret invalid_body"
  proof
    assume e: "respond (deposit postgres ''a'' (Fin 5) None) = ret invalid_body"
    have "fst (respond (deposit postgres ''a'' (Fin 5) None) (new_world empty_tables 0 [Die False])) = Crash"
      by (simp add: respond_def deposit_def executeIdempotentTransaction_def execute_def acquireLock_def connect_def
        extern_def new_world_def await_def ret_def try_catch_def given_def run_if_def)
    then show False unfolding e by (simp add: ret_def)
  qed
  ultimately show ?thesis
    using posted_amounts_are_positive[OF class_validators_documented, of postgres "''a''" ?b None default_config]
    by (auto simp: post_deposit_def)
qed

end
