(* ===== verification/TransferProtocol.thy ===== *)
theory TransferProtocol imports TransferService
begin

text \<open>
  The abstract protocol of transfers: a ledger of balances in cents and of transfers with their
  states, and the six steps that change it. The theorems of \<open>TransferRefinement\<close> show that
  whatever the transfer service does to the committed tables, under every script of the
  environment, is a sequence of these steps; here the protocol itself is shown to conserve money,
  to keep balances from going negative, and to move every transfer along the documented state
  machine.
\<close>

record transfer =
  tr_from :: string
  tr_to :: string
  tr_cents :: int
  tr_state :: saga_state

record ledger =
  balances :: "string \<Rightarrow> int option"
  transfers :: "string \<Rightarrow> transfer option"

inductive ledger_step :: "ledger \<Rightarrow> ledger \<Rightarrow> bool" where
  open_wallet: "balances l i = None \<Longrightarrow> ledger_step l (l\<lparr>balances := (balances l)(i \<mapsto> 0)\<rparr>)"
| begin_transfer: "transfers l s = None \<Longrightarrow> tr_state x = PENDING \<Longrightarrow> 0 < tr_cents x \<Longrightarrow>
    ledger_step l (l\<lparr>transfers := (transfers l)(s \<mapsto> x)\<rparr>)"
| debit: "transfers l s = Some x \<Longrightarrow> tr_state x = PENDING \<Longrightarrow> balances l (tr_from x) = Some b \<Longrightarrow> tr_cents x \<le> b \<Longrightarrow>
    ledger_step l (l\<lparr>balances := (balances l)(tr_from x \<mapsto> b - tr_cents x),
      transfers := (transfers l)(s \<mapsto> x\<lparr>tr_state := DEBITED\<rparr>)\<rparr>)"
| credit: "transfers l s = Some x \<Longrightarrow> tr_state x = DEBITED \<Longrightarrow> balances l (tr_to x) = Some b \<Longrightarrow>
    ledger_step l (l\<lparr>balances := (balances l)(tr_to x \<mapsto> b + tr_cents x),
      transfers := (transfers l)(s \<mapsto> x\<lparr>tr_state := COMPLETED\<rparr>)\<rparr>)"
| refund: "transfers l s = Some x \<Longrightarrow> tr_state x = DEBITED \<Longrightarrow> balances l (tr_from x) = Some b \<Longrightarrow>
    ledger_step l (l\<lparr>balances := (balances l)(tr_from x \<mapsto> b + tr_cents x),
      transfers := (transfers l)(s \<mapsto> x\<lparr>tr_state := COMPENSATED\<rparr>)\<rparr>)"
| give_up: "transfers l s = Some x \<Longrightarrow> tr_state x = PENDING \<Longrightarrow>
    ledger_step l (l\<lparr>transfers := (transfers l)(s \<mapsto> x\<lparr>tr_state := FAILED\<rparr>)\<rparr>)"

section \<open>Money\<close>

definition in_flight :: "transfer \<Rightarrow> int" where
  "in_flight x = (if tr_state x = DEBITED then tr_cents x else 0)"

text \<open>The sum of the values of a finite map.\<close>

definition total_of :: "('a \<Rightarrow> int) \<Rightarrow> ('k \<Rightarrow> 'a option) \<Rightarrow> int" where
  "total_of f m = (\<Sum>k \<in> dom m. f (the (m k)))"

definition money :: "ledger \<Rightarrow> int" where
  "money l = total_of id (balances l) + total_of in_flight (transfers l)"

definition sound_ledger :: "ledger \<Rightarrow> bool" where
  "sound_ledger l \<longleftrightarrow> finite (dom (balances l)) \<and> finite (dom (transfers l)) \<and>
     (\<forall>i b. balances l i = Some b \<longrightarrow> 0 \<le> b) \<and> (\<forall>s x. transfers l s = Some x \<longrightarrow> 0 < tr_cents x)"

lemma total_of_update:
  assumes "finite (dom m)"
  shows "total_of f (m(k \<mapsto> v)) = total_of f m + f v - (case m k of None \<Rightarrow> 0 | Some u \<Rightarrow> f u)"
proof -
  have "total_of f (m(k \<mapsto> v)) = f v + (\<Sum>j \<in> dom m - {k}. f (the (m j)))"
  proof -
    have "dom (m(k \<mapsto> v)) = insert k (dom m - {k})" by auto
    then have "total_of f (m(k \<mapsto> v)) = (\<Sum>j \<in> insert k (dom m - {k}). f (the ((m(k \<mapsto> v)) j)))"
      by (simp only: total_of_def)
    also have "\<dots> = f v + (\<Sum>j \<in> dom m - {k}. f (the ((m(k \<mapsto> v)) j)))"
      using assms by (subst sum.insert) auto
    also have "(\<Sum>j \<in> dom m - {k}. f (the ((m(k \<mapsto> v)) j))) = (\<Sum>j \<in> dom m - {k}. f (the (m j)))"
      by (rule sum.cong) auto
    finally show ?thesis .
  qed
  moreover have "total_of f m = (\<Sum>j \<in> dom m - {k}. f (the (m j))) + (case m k of None \<Rightarrow> 0 | Some u \<Rightarrow> f u)"
    unfolding total_of_def using assms
    by (cases "m k") (auto simp: sum.remove[of "dom m" k] domIff)
  ultimately show ?thesis by simp
qed

lemma total_of_nonneg: "(\<And>k v. m k = Some v \<Longrightarrow> 0 \<le> f v) \<Longrightarrow> 0 \<le> total_of f m"
  unfolding total_of_def by (rule sum_nonneg) auto

lemma total_of_member:
  assumes "finite (dom m)" "m k = Some v" "\<And>j u. m j = Some u \<Longrightarrow> 0 \<le> f u"
  shows "f v \<le> total_of f m"
proof -
  have "f (the (m k)) \<le> (\<Sum>j \<in> dom m. f (the (m j)))"
    by (rule member_le_sum) (use assms in auto)
  then show ?thesis using assms(2) by (simp add: total_of_def)
qed

section \<open>The steps are sound\<close>

text \<open>One step keeps soundness and the money, and moves a transfer along the state machine.\<close>

lemma step_sound: "ledger_step l l' \<Longrightarrow> sound_ledger l \<Longrightarrow> sound_ledger l'"
  by (induction rule: ledger_step.induct) (auto simp: sound_ledger_def split: if_splits; fastforce)+

lemma step_money: "ledger_step l l' \<Longrightarrow> sound_ledger l \<Longrightarrow> money l' = money l"
  by (induction rule: ledger_step.induct)
     (auto simp: sound_ledger_def money_def total_of_update in_flight_def)

lemma step_transfer:
  "ledger_step l l' \<Longrightarrow> transfers l s = Some x \<Longrightarrow>
   \<exists>y. transfers l' s = Some y \<and> saga_moves\<^sup>*\<^sup>* (tr_state x) (tr_state y) \<and>
     tr_from y = tr_from x \<and> tr_to y = tr_to x \<and> tr_cents y = tr_cents x"
  by (induction rule: ledger_step.induct) auto

definition ledger_run :: "ledger \<Rightarrow> ledger \<Rightarrow> bool" where
  "ledger_run = ledger_step\<^sup>*\<^sup>*"

lemma run_sound: "ledger_run l l' \<Longrightarrow> sound_ledger l \<Longrightarrow> sound_ledger l' \<and> money l' = money l"
  unfolding ledger_run_def
  by (induction rule: rtranclp_induct) (auto simp: step_sound step_money)

lemma run_transfer:
  "ledger_run l l' \<Longrightarrow> transfers l s = Some x \<Longrightarrow>
   \<exists>y. transfers l' s = Some y \<and> saga_moves\<^sup>*\<^sup>* (tr_state x) (tr_state y) \<and>
     tr_from y = tr_from x \<and> tr_to y = tr_to x \<and> tr_cents y = tr_cents x"
  unfolding ledger_run_def
proof (induction rule: rtranclp_induct)
  case (step l1 l2)
  then obtain y where "transfers l1 s = Some y" "saga_moves\<^sup>*\<^sup>* (tr_state x) (tr_state y)"
      "tr_from y = tr_from x" "tr_to y = tr_to x" "tr_cents y = tr_cents x"
    by blast
  then show ?case using step_transfer[OF step.hyps(2), of s y] by (metis rtranclp_trans)
qed auto

lemma run_refl: "ledger_run l l" by (simp add: ledger_run_def)

lemma run_step: "ledger_run l l1 \<Longrightarrow> ledger_step l1 l2 \<Longrightarrow> ledger_run l l2"
  unfolding ledger_run_def by (rule rtranclp.rtrancl_into_rtrancl)

section \<open>What a transfer does to the balances\<close>

text \<open>What the transfer has moved in the state it is in.\<close>

definition moved :: "transfer \<Rightarrow> string \<Rightarrow> int" where
  "moved x i = (if tr_state x \<in> {DEBITED, COMPLETED} \<and> i = tr_from x then - tr_cents x else 0) +
     (if tr_state x = COMPLETED \<and> i = tr_to x then tr_cents x else 0)"

text \<open>From the ledger \<open>l\<close>, which has the transfer \<open>s\<close>, only \<open>s\<close> got on, and the balances
  with it.\<close>

definition settled :: "ledger \<Rightarrow> string \<Rightarrow> transfer \<Rightarrow> ledger \<Rightarrow> bool" where
  "settled l s y l' \<longleftrightarrow> transfers l' = (transfers l)(s \<mapsto> y) \<and>
     (\<forall>i. balances l' i = map_option (\<lambda>b. b + moved y i - moved (the (transfers l s)) i) (balances l i))"

lemma settled_refl: "transfers l s = Some x \<Longrightarrow> settled l s x l"
  by (simp add: settled_def fun_upd_idem option.map_ident)

lemma step_moves:
  assumes "ledger_step l l'" "transfers l s = Some x" "transfers l' = (transfers l)(s \<mapsto> y)" "tr_state y \<noteq> tr_state x"
  shows "balances l' i = map_option (\<lambda>b. b + moved y i - moved x i) (balances l i)"
  using assms
proof (cases rule: ledger_step.cases)
  case (open_wallet i)
  then show ?thesis using assms(2-4) by (auto simp: fun_upd_idem_iff dest: fun_cong[of _ _ s])
next
  case (begin_transfer s' z)
  then show ?thesis using assms(2-4) by (auto dest: fun_cong[of _ _ s] split: if_splits)
next
  case (debit s' z b)
  then have e: "s' = s" using assms(2-4) by (auto dest: fun_cong[of _ _ s] split: if_splits)
  then have "x = z" "y = z\<lparr>tr_state := DEBITED\<rparr>" using debit assms(2,3) by (auto dest: fun_upd_eqD)
  then show ?thesis using debit e by (auto simp: moved_def option.map_ident)
next
  case (credit s' z b)
  then have e: "s' = s" using assms(2-4) by (auto dest: fun_cong[of _ _ s] split: if_splits)
  then have "x = z" "y = z\<lparr>tr_state := COMPLETED\<rparr>" using credit assms(2,3) by (auto dest: fun_upd_eqD)
  then show ?thesis using credit e by (auto simp: moved_def option.map_ident)
next
  case (refund s' z b)
  then have e: "s' = s" using assms(2-4) by (auto dest: fun_cong[of _ _ s] split: if_splits)
  then have "x = z" "y = z\<lparr>tr_state := COMPENSATED\<rparr>" using refund assms(2,3) by (auto dest: fun_upd_eqD)
  then show ?thesis using refund e by (auto simp: moved_def option.map_ident)
next
  case (give_up s' z)
  then have e: "s' = s" using assms(2-4) by (auto dest: fun_cong[of _ _ s] split: if_splits)
  then have "x = z" "y = z\<lparr>tr_state := FAILED\<rparr>" using give_up assms(2,3) by (auto dest: fun_upd_eqD)
  then show ?thesis using give_up e by (auto simp: moved_def option.map_ident)
qed

lemma settled_step:
  assumes "settled l s y l1" "ledger_step l1 l2" "transfers l2 = (transfers l1)(s \<mapsto> z)" "tr_state z \<noteq> tr_state y"
  shows "settled l s z l2"
  using step_moves[OF assms(2) _ assms(3,4)] assms(1,3)
  by (auto simp: settled_def option.map_comp o_def intro!: option.map_cong)

end
