(* ===== verification/Books.thy ===== *)
theory Books imports TransferProtocol
begin

text \<open>
  The audit trail: what the log of wallet events (\<open>wallet_events\<close>) says a wallet has, and
  the difference between that and its balance. A change of the tables that leaves the difference
  alone is recorded to the cent.
\<close>

text \<open>What an event adds to its wallet; the other types carry no amount, or move none.\<close>

fun signed_cents :: "wallet_event_type \<Rightarrow> int \<Rightarrow> int" where
  "signed_cents FUNDS_DEPOSITED k = k"
| "signed_cents TRANSFER_COMPENSATED k = k"
| "signed_cents FUNDS_WITHDRAWN k = - k"
| "signed_cents _ k = 0"

definition event_cents :: "string \<Rightarrow> event_row \<Rightarrow> int" where
  "event_cents i e = (if log_walletId e = i
     then case log_amount e of None \<Rightarrow> 0 | Some a \<Rightarrow> signed_cents (log_type e) (cents a) else 0)"

definition recorded :: "string \<Rightarrow> event_row list \<Rightarrow> int" where
  "recorded i es = sum_list (map (event_cents i) es)"

definition owned :: "tables \<Rightarrow> string \<Rightarrow> int" where
  "owned t i = (case balance_cents t i of None \<Rightarrow> 0 | Some b \<Rightarrow> b)"

definition unexplained :: "tables \<Rightarrow> string \<Rightarrow> int" where
  "unexplained t i = owned t i - recorded i (walletEvents t)"

lemma recorded_simps [simp]:
  "recorded i [] = 0" "recorded i (es @ es') = recorded i es + recorded i es'"
  "recorded i (e # es) = event_cents i e + recorded i es"
  by (simp_all add: recorded_def)

lemma unexplained_cong:
  "wallets t' = wallets t \<Longrightarrow> walletEvents t' = walletEvents t \<Longrightarrow> unexplained t' = unexplained t"
  by (simp add: unexplained_def owned_def balance_cents_def fun_eq_iff)

text \<open>A new balance with events that account for it.\<close>

lemma unexplained_put:
  assumes "wallets t' = (wallets t)(i \<mapsto> r)" "walletEvents t' = walletEvents t @ es"
    and "cents (row_balance r) = owned t i + recorded i es" "\<And>j. j \<noteq> i \<Longrightarrow> recorded j es = 0"
  shows "unexplained t' = unexplained t"
proof
  fix j
  show "unexplained t' j = unexplained t j"
    using assms by (cases "j = i") (auto simp: unexplained_def owned_def balance_cents_def)
qed

lemma recorded_elsewhere: "\<forall>e \<in> set es. log_walletId e = i \<Longrightarrow> j \<noteq> i \<Longrightarrow> recorded j es = 0"
  by (induction es) (auto simp: event_cents_def)

lemma recorded_created: "\<forall>e \<in> set es. log_type e = WALLET_CREATED \<Longrightarrow> recorded j es = 0"
  by (induction es) (auto simp: event_cents_def split: option.split)

lemma logged_cents:
  "logged P i ty cur (Some (amount_of k)) m e \<Longrightarrow> decimal_column P \<Longrightarrow> 0 < k \<Longrightarrow> k \<le> 10 ^ 15 \<Longrightarrow>
   event_cents i e = signed_cents ty k \<and> log_walletId e = i"
  using logged_amount[of P i ty cur k m e] by (simp add: event_cents_def)

lemma logged_no_cents:
  "logged P i ty cur None m e \<Longrightarrow> event_cents i e = 0 \<and> log_walletId e = i"
  by (auto simp: logged_def new_wallet_event_def decimal_to_nullable_def event_cents_def)

end
