(* ===== verification/TransferRefinement.thy ===== *)
theory TransferRefinement imports Books
begin

text \<open>
  The transfer service implements the protocol. \<open>ledger_of\<close> reads a ledger off the committed
  tables. Each transaction body is an \<open>atomic_operation\<close> whose relation is shown to be a step
  of the protocol (or none); the calls between them touch no table that the ledger sees, except
  the save of a failed saga, which is the step \<open>give_up\<close>. \<open>follows\<close> is the simulation
  relation that every part of the service keeps.
\<close>

section \<open>The ledger of the tables\<close>

definition transfer_of_row :: "saga_row \<Rightarrow> transfer" where
  "transfer_of_row r = \<lparr>tr_from = srow_from r, tr_to = srow_to r, tr_cents = cents (srow_amount r), tr_state = srow_state r\<rparr>"

definition ledger_of :: "tables \<Rightarrow> ledger" where
  "ledger_of t = \<lparr>balances = balance_cents t, transfers = (\<lambda>s. map_option transfer_of_row (sagas t s))\<rparr>"

text \<open>
  The tables are sound: amounts are numbers, balances are not negative, there is no more money
  than entity arithmetic is exact for, and identifiers are generated ones.
\<close>

definition sound_tables :: "platform \<Rightarrow> tables \<Rightarrow> bool" where
  "sound_tables P t \<longleftrightarrow> sound_ledger (ledger_of t) \<and> money (ledger_of t) \<le> 10 ^ 15 - 10 \<and>
     (\<forall>i r. wallets t i = Some r \<longrightarrow> row_balance r = Cents (cents (row_balance r))) \<and>
     (\<forall>s r. sagas t s = Some r \<longrightarrow> srow_amount r = Cents (cents (srow_amount r)) \<and> cents (srow_amount r) \<le> 10 ^ 15 - 10) \<and>
     (\<forall>s r. sagas t s = Some r \<longrightarrow> (\<exists>n < uuidCount t. s = uuidOf P n))"

lemma ledger_of_simps [simp]:
  "balances (ledger_of t) = balance_cents t" "transfers (ledger_of t) s = map_option transfer_of_row (sagas t s)"
  by (simp_all add: ledger_of_def)

lemma dom_ledger_of [simp]:
  "dom (\<lambda>s. map_option transfer_of_row (sagas t s)) = dom (sagas t)" "dom (transfers (ledger_of t)) = dom (sagas t)"
  by (auto simp: dom_def)

lemma balance_cents_put: "wallets t' = (wallets t)(i \<mapsto> r) \<Longrightarrow> balance_cents t' = (balance_cents t)(i \<mapsto> cents (row_balance r))"
  by (auto simp: balance_cents_def fun_eq_iff)

lemma ledger_of_cong: "wallets t' = wallets t \<Longrightarrow> sagas t' = sagas t \<Longrightarrow> ledger_of t' = ledger_of t"
  by (simp add: ledger_of_def balance_cents_def fun_eq_iff)

lemma insert_outbox_count: "uuidCount t \<le> uuidCount (insert_outbox P es now t)"
  by (induction P es now t rule: insert_outbox.induct) auto

lemma sound_tables_outbox: "sound_tables P t \<Longrightarrow> sound_tables P (insert_outbox P es now t)"
  unfolding sound_tables_def insert_outbox_frame
  using insert_outbox_count[of t P es now] ledger_of_cong[of "insert_outbox P es now t" t]
  by (simp del: insert_outbox.simps) (meson less_le_trans)

lemma ledger_of_outbox [simp]: "ledger_of (insert_outbox P es now t) = ledger_of t"
  by (rule ledger_of_cong) simp_all

lemma balance_bound:
  assumes "sound_tables P t" "wallets t i = Some r"
  obtains j where "row_balance r = Cents j" "balance_cents t i = Some j" "0 \<le> j" "j \<le> money (ledger_of t)"
proof -
  let ?j = "cents (row_balance r)"
  have s: "sound_ledger (ledger_of t)" and c: "row_balance r = Cents ?j" using assms by (auto simp: sound_tables_def)
  have b: "balance_cents t i = Some ?j" using assms(2) by (simp add: balance_cents_def)
  have "0 \<le> total_of in_flight (transfers (ledger_of t))"
    by (rule total_of_nonneg) (use s in \<open>auto simp: sound_ledger_def in_flight_def less_imp_le\<close>)
  moreover have "id ?j \<le> total_of id (balances (ledger_of t))"
    by (rule total_of_member) (use s b in \<open>auto simp: sound_ledger_def\<close>)
  ultimately show ?thesis using that[OF c b] s b by (auto simp: money_def sound_ledger_def)
qed

lemma transfer_amount:
  assumes "sound_tables P t" "sagas t s = Some r"
  shows "0 < cents (srow_amount r)" "cents (srow_amount r) \<le> 10 ^ 15 - 10" "srow_amount r = Cents (cents (srow_amount r))"
proof -
  have "transfers (ledger_of t) s = Some (transfer_of_row r)" using assms(2) by simp
  then have "0 < tr_cents (transfer_of_row r)" using assms(1) unfolding sound_tables_def sound_ledger_def by blast
  then show "0 < cents (srow_amount r)" by (simp add: transfer_of_row_def)
qed (use assms in \<open>auto simp: sound_tables_def\<close>)

text \<open>With a debited transfer besides, balance and transfer fit together.\<close>

lemma balance_and_transfer_bound:
  assumes "sound_tables P t" "wallets t i = Some r" "row_balance r = Cents j"
    and "sagas t s = Some x" "srow_state x = DEBITED"
  shows "j + cents (srow_amount x) \<le> money (ledger_of t)"
proof -
  have s: "sound_ledger (ledger_of t)" using assms by (auto simp: sound_tables_def)
  have b: "balance_cents t i = Some j" using assms(2,3) by (simp add: balance_cents_def)
  have "in_flight (transfer_of_row x) \<le> total_of in_flight (transfers (ledger_of t))"
    by (rule total_of_member) (use s assms(4) in \<open>auto simp: sound_ledger_def in_flight_def less_imp_le\<close>)
  moreover have "id j \<le> total_of id (balances (ledger_of t))"
    by (rule total_of_member[of _ i]) (use s b in \<open>auto simp: sound_ledger_def\<close>)
  ultimately show ?thesis using assms(5) by (simp add: money_def in_flight_def transfer_of_row_def)
qed

section \<open>The effect of the step transactions\<close>

definition saga_stored :: "platform \<Rightarrow> transfer_saga \<Rightarrow> saga_row \<Rightarrow> bool" where
  "saga_stored P s r \<longleftrightarrow> srow_from r = fromWalletId s \<and> srow_to r = toWalletId s \<and>
     decimal_to P (saga_amount s) = Inr (srow_amount r) \<and> srow_state r = saga_state s"

lemma row_of_saga_stored: "row_of_saga P now old s = Inr r \<Longrightarrow> saga_stored P s r"
  by (auto simp: row_of_saga_def saga_stored_def check_Inr)

definition step_effect ::
  "platform \<Rightarrow> string \<Rightarrow> string \<Rightarrow> number \<Rightarrow> (int \<Rightarrow> (wallet, error, unit) program) \<Rightarrow> wallet_event_type \<Rightarrow>
   (transfer_saga, error, unit) program \<Rightarrow> tables \<Rightarrow> tables \<Rightarrow> bool" where
  "step_effect P s i a operation ty updateSaga t t' \<longleftrightarrow> (\<exists>r0 now v r x0 x x1 e m.
     wallets t i = Some r0 \<and> operation now (wallet_of_row i r0) = (Ok (), v) \<and> stored P v r \<and>
     sagas t s = Some x0 \<and> updateSaga (saga_of_row s x0) = (Ok (), x) \<and> saga_stored P x x1 \<and>
     logged P i ty (currency v) (Some a) m e \<and>
     wallets t' = (wallets t)(i \<mapsto> r) \<and> sagas t' = (sagas t)(s \<mapsto> x1) \<and> uuidCount t' = uuidCount t \<and>
     walletEvents t' = walletEvents t @ [e])"

lemma inside_step [step_rules]: "obeys inside_tx (step_operation P s i a operation ty m updateSaga extra)"
  unfolding step_operation_def by (intro tx_contract.obeys_control step_rules)

lemma for_each_publish_Ok:
  "for_each es publishEvent w = (Ok u, w') \<Longrightarrow> tx w' = tx w"
  by (induction es arbitrary: w) (auto simp: run_inv)

lemma save_saga_Inr:
  "save_saga P s now t = Inr (s', t') \<Longrightarrow> saga_id s \<noteq> [] \<Longrightarrow>
   \<exists>r. row_of_saga P now (sagas t (saga_id s)) s = Inr r \<and> t' = t\<lparr>sagas := (sagas t)(saga_id s \<mapsto> r)\<rparr>"
  by (auto simp: save_saga_def check_Inr)

lemma step_operation_effect:
  assumes keeps: "\<And>now v v'. operation now v = (Ok (), v') \<Longrightarrow> wallet_id v' = wallet_id v"
    and keeps_saga: "\<And>x x'. updateSaga x = (Ok (), x') \<Longrightarrow> saga_id x' = saga_id x"
  shows "establishes (entry t) (step_operation P s i a operation ty m updateSaga extra)
    (\<lambda>u w. \<forall>t'. tx w = Some t' \<longrightarrow> s \<noteq> [] \<longrightarrow> step_effect P s i a operation ty updateSaga t t')"
proof -
  have "step_effect P s i a operation ty updateSaga t t'"
    if w: "entry t w" "step_operation P s i a operation ty m updateSaga extra w = (Ok u, w')" "tx w' = Some t'" "s \<noteq> []" for w u w' t'
  proof -
    obtain v w1 v' saved w2 x w3 x' x'' w4 n w5 os where run:
        "sql True (find_wallet i) w = (Ok (Some v), w1)" "operation (clock w1) v = (Ok (), v')"
        "sql True (save_wallet P v') w1 = (Ok saved, w2)" "sql True (find_saga s) w2 = (Ok (Some x), w3)"
        "updateSaga x = (Ok (), x')" "sql True (save_saga P x') w3 = (Ok x'', w4)"
        "sql True (insert_event P (new_wallet_event i ty (currency v') (Some a) (Some m))) w4 = (Ok n, w5)"
        "for_each (extra x'' (clock w5)) publishEvent (w5\<lparr>eventsToPublish := os\<rparr>) = (Ok (), w')"
      using w(2) unfolding step_operation_def
      by (auto simp: await_Ok call_method_Ok publishEvent_Ok get_state_Ok throw_Ok split: option.split_asm)
    have t: "tx w = Some t" using w(1) by (simp add: entry_def)
    obtain r0 where r0: "wallets t i = Some r0" "v = wallet_of_row i r0" "tx w1 = Some t"
      using sql_Ok[OF run(1)] t by (cases "wallets t i") auto
    have i: "wallet_id v' = i" using keeps[OF run(2)] r0(2) by simp
    obtain r where r: "stored P v' r" "tx w2 = Some (t\<lparr>wallets := (wallets t)(i \<mapsto> r)\<rparr>)"
      using sql_Ok[OF run(3)] r0(3) i by (auto simp: save_wallet_Inr dest: row_of_wallet_stored)
    obtain x0 where x0: "sagas t s = Some x0" "x = saga_of_row s x0" "tx w3 = tx w2"
      using sql_Ok[OF run(4)] r(2) by (cases "sagas t s") auto
    have sid: "saga_id x' = s" using keeps_saga[OF run(5)] x0(2) by (simp add: saga_of_row_def)
    obtain x1 where x1: "saga_stored P x' x1"
        "tx w4 = Some (t\<lparr>wallets := (wallets t)(i \<mapsto> r), sagas := (sagas t)(s \<mapsto> x1)\<rparr>)"
      using sql_Ok[OF run(6)] x0(3) r(2) sid w(4) by (auto dest!: save_saga_Inr row_of_saga_stored)
    obtain e where e: "logged P i ty (currency v') (Some a) (Some m) e"
        "tx w5 = Some (t\<lparr>wallets := (wallets t)(i \<mapsto> r), sagas := (sagas t)(s \<mapsto> x1), walletEvents := walletEvents t @ [e]\<rparr>)"
      using sql_Ok[OF run(7)] x1(2) by (auto simp: insert_event_Inr dest: event_row_of_logged)
    then have "t' = t\<lparr>wallets := (wallets t)(i \<mapsto> r), sagas := (sagas t)(s \<mapsto> x1), walletEvents := walletEvents t @ [e]\<rparr>"
      using for_each_publish_Ok[OF run(8)] w(3) by simp
    then show ?thesis
      unfolding step_effect_def using r0 run(2,5) r(1) x0 x1(1) e(1) by fastforce
  qed
  then show ?thesis unfolding establishes_def by blast
qed


section \<open>Each step transaction is a step of the protocol\<close>

text \<open>A saved saga keeps the identity and the amount of its row; its amount is exact in the column.\<close>

lemma saga_saved:
  assumes "decimal_column P" "sound_tables P t" "sagas t s = Some x0" "saga_stored P x x1"
    and "fromWalletId x = srow_from x0" "toWalletId x = srow_to x0" "saga_amount x = decimal_from (srow_amount x0)"
  shows "srow_amount x1 = srow_amount x0" "transfer_of_row x1 = (transfer_of_row x0)\<lparr>tr_state := saga_state x\<rparr>"
proof -
  obtain k where k: "srow_amount x0 = Cents k" "0 < k" "k \<le> 10 ^ 15 - 10"
    using transfer_amount[OF assms(2,3)] by metis
  have "decimal_to P (decimal_from (Cents k)) = Inr (Cents k)"
    by (rule decimal_roundtrip[OF assms(1)]) (use k in auto)
  then show a: "srow_amount x1 = srow_amount x0"
    using assms(4,7) k(1) by (simp add: saga_stored_def del: decimal_from.simps)
  show "transfer_of_row x1 = (transfer_of_row x0)\<lparr>tr_state := saga_state x\<rparr>"
    using assms(4,5,6) a by (simp add: transfer_of_row_def saga_stored_def)
qed

text \<open>Tables that a step of the protocol leads to are sound again.\<close>

lemma sound_after_step:
  assumes "sound_tables P t" "ledger_step (ledger_of t) (ledger_of t')"
    and "wallets t' = (wallets t)(i \<mapsto> r)" "row_balance r = Cents b"
    and "sagas t' = (sagas t)(s \<mapsto> x1)" "sagas t s = Some x0" "srow_amount x1 = srow_amount x0" "uuidCount t \<le> uuidCount t'"
  shows "sound_tables P t'"
  unfolding sound_tables_def
proof (intro conjI allI impI)
  show "sound_ledger (ledger_of t')" using assms(1,2) step_sound by (auto simp: sound_tables_def)
  show "money (ledger_of t') \<le> 10 ^ 15 - 10" using assms(1,2) step_money by (auto simp: sound_tables_def)
  show "row_balance r' = Cents (cents (row_balance r'))" if "wallets t' i' = Some r'" for i' r'
    using that assms(1,3,4) by (auto simp: sound_tables_def split: if_splits)
  show "srow_amount r' = Cents (cents (srow_amount r'))" "cents (srow_amount r') \<le> 10 ^ 15 - 10"
      "\<exists>n < uuidCount t'. s' = uuidOf P n" if "sagas t' s' = Some r'" for s' r'
    using that assms(1,5,6,7,8) unfolding sound_tables_def
    by (auto split: if_splits intro: less_le_trans) (metis less_le_trans)+
qed

lemma ledger_of_step:
  "wallets t' = (wallets t)(i \<mapsto> r) \<Longrightarrow> sagas t' = (sagas t)(s \<mapsto> x1) \<Longrightarrow>
   ledger_of t' = (ledger_of t)\<lparr>balances := (balance_cents t)(i \<mapsto> cents (row_balance r)),
     transfers := (transfers (ledger_of t))(s \<mapsto> transfer_of_row x1)\<rparr>"
  by (simp add: ledger_of_def balance_cents_put) auto

text \<open>A step of the protocol that moves the transfer \<open>s\<close> to the state \<open>S\<close>.\<close>

definition advances :: "platform \<Rightarrow> tables \<Rightarrow> string \<Rightarrow> transfer \<Rightarrow> saga_state \<Rightarrow> tables \<Rightarrow> bool" where
  "advances P t s x S t' \<longleftrightarrow> ledger_step (ledger_of t) (ledger_of t') \<and> sound_tables P t' \<and>
     transfers (ledger_of t') = (transfers (ledger_of t))(s \<mapsto> x\<lparr>tr_state := S\<rparr>) \<and> tr_state x \<noteq> S \<and>
     unexplained t' = unexplained t"

lemma debit_refines:
  assumes P: "decimal_column P" and t: "sound_tables P t"
    and x: "transfers (ledger_of t) s = Some x" "tr_from x = i" "tr_cents x = k"
    and e: "step_effect P s i (amount_of k) (\<lambda>now. wallet_withdraw now now (amount_of k)) FUNDS_WITHDRAWN markAsDebited t t'"
  shows "advances P t s x DEBITED t'"
proof -
  obtain r0 n v r x0 y x1 ev m where st: "wallets t i = Some r0" "wallet_withdraw n n (amount_of k) (wallet_of_row i r0) = (Ok (), v)"
      "stored P v r" "sagas t s = Some x0" "markAsDebited (saga_of_row s x0) = (Ok (), y)" "saga_stored P y x1"
      "wallets t' = (wallets t)(i \<mapsto> r)" "sagas t' = (sagas t)(s \<mapsto> x1)" "uuidCount t' = uuidCount t"
      "logged P i FUNDS_WITHDRAWN (currency v) (Some (amount_of k)) m ev" "walletEvents t' = walletEvents t @ [ev]"
    using e unfolding step_effect_def by blast
  have y: "srow_state x0 = PENDING" "y = (saga_of_row s x0)\<lparr>saga_state := DEBITED\<rparr>"
    using st(5) by (auto simp: run_simps saga_of_row_def split: if_splits)
  note saved = saga_saved[OF P t st(4,6)] 
  have x1: "srow_amount x1 = srow_amount x0" "transfer_of_row x1 = x\<lparr>tr_state := DEBITED\<rparr>"
    using saved y(2) x(1) st(4) by (auto simp: saga_of_row_def)
  obtain j where j: "row_balance r0 = Cents j" "balance_cents t i = Some j" "0 \<le> j" "j \<le> money (ledger_of t)"
    using t st(1) by (rule balance_bound)
  have k: "0 < k" "k \<le> 10 ^ 15 - 10" using transfer_amount[OF t st(4)] x st(4) by (auto simp: transfer_of_row_def)
  have jm: "j \<le> 10 ^ 15 - 10" using j(4) t by (simp add: sound_tables_def)
  have w: "k \<le> j" "row_balance r = Cents (j - k)"
    using withdraw_in_cents[OF st(2) j(1) P k j(3) jm] st(3) by (auto simp: stored_def)
  have l: "ledger_of t' = (ledger_of t)\<lparr>balances := (balances (ledger_of t))(tr_from x \<mapsto> j - tr_cents x),
      transfers := (transfers (ledger_of t))(s \<mapsto> x\<lparr>tr_state := DEBITED\<rparr>)\<rparr>"
    using ledger_of_step[OF st(7,8)] w(2) x1(2) x by simp
  have step: "ledger_step (ledger_of t) (ledger_of t')"
    unfolding l by (rule ledger_step.debit[OF x(1)]) (use x st(4) y(1) j w(1) in \<open>auto simp: transfer_of_row_def\<close>)
  have "unexplained t' = unexplained t"
    by (rule unexplained_put[OF st(7,11) _ recorded_elsewhere]) (use logged_cents[OF st(10) P k(1)] k(2) j(2) w(2) in \<open>auto simp: owned_def\<close>)
  then show ?thesis
    using step sound_after_step[OF t step st(7) w(2) st(8,4) x1(1)] st(4,9) y(1) x
    by (auto simp: advances_def l transfer_of_row_def simp del: ledger_of_simps(1))
qed

text \<open>Credit and refund: the same but for the wallet and the state they lead to.\<close>

lemma credit_refines:
  assumes P: "decimal_column P" and t: "sound_tables P t"
    and x: "transfers (ledger_of t) s = Some x" "tr_cents x = k"
    and e: "step_effect P s i (amount_of k) (\<lambda>now. wallet_credit (amount_of k)) ty updateSaga t t'"
    and ty: "ty = FUNDS_DEPOSITED \<or> ty = TRANSFER_COMPENSATED"
    and upd: "\<And>s0 y. updateSaga s0 = (Ok (), y) \<Longrightarrow> saga_state s0 = DEBITED \<and> saga_state y = S \<and>
      fromWalletId y = fromWalletId s0 \<and> toWalletId y = toWalletId s0 \<and> saga_amount y = saga_amount s0"
    and S: "S = COMPLETED \<and> tr_to x = i \<or> S = COMPENSATED \<and> tr_from x = i"
  shows "advances P t s x S t'"
proof -
  obtain r0 n v r x0 y x1 ev m where st: "wallets t i = Some r0" "wallet_credit (amount_of k) (wallet_of_row i r0) = (Ok (), v)"
      "stored P v r" "sagas t s = Some x0" "updateSaga (saga_of_row s x0) = (Ok (), y)" "saga_stored P y x1"
      "wallets t' = (wallets t)(i \<mapsto> r)" "sagas t' = (sagas t)(s \<mapsto> x1)" "uuidCount t' = uuidCount t"
      "logged P i ty (currency v) (Some (amount_of k)) m ev" "walletEvents t' = walletEvents t @ [ev]"
    using e unfolding step_effect_def by blast
  have y: "srow_state x0 = DEBITED" "saga_state y = S" "fromWalletId y = srow_from x0" "toWalletId y = srow_to x0"
      "saga_amount y = decimal_from (srow_amount x0)"
    using upd[OF st(5)] by (auto simp: saga_of_row_def)
  have x1: "srow_amount x1 = srow_amount x0" "transfer_of_row x1 = x\<lparr>tr_state := S\<rparr>"
    using saga_saved[OF P t st(4,6) y(3,4,5)] x(1) st(4) y(2) by auto
  obtain j where j: "row_balance r0 = Cents j" "balance_cents t i = Some j" "0 \<le> j" "j \<le> money (ledger_of t)"
    using t st(1) by (rule balance_bound)
  have k: "0 < k" "k \<le> 10 ^ 15 - 10" using transfer_amount[OF t st(4)] x st(4) by (auto simp: transfer_of_row_def)
  have "j + k \<le> money (ledger_of t)"
    using balance_and_transfer_bound[OF t st(1) j(1) st(4) y(1)] x st(4) by (auto simp: transfer_of_row_def)
  then have jk: "j + k \<le> 10 ^ 15 - 10" using t by (simp add: sound_tables_def)
  have v: "balance v = js_add (decimal_from (Cents j)) (amount_of k)"
    using st(2) j(1) by (auto simp: run_simps wallet_of_row_def simp del: decimal_from.simps split: if_splits)
  have "decimal_to P (balance v) = Inr (Cents (j + k))"
    unfolding v amount_of_def by (rule decimal_add[OF P]) (use j(3) k jk in auto)
  then have w: "row_balance r = Cents (j + k)" using st(3) by (auto simp: stored_def)
  have l: "ledger_of t' = (ledger_of t)\<lparr>balances := (balances (ledger_of t))(i \<mapsto> j + tr_cents x),
      transfers := (transfers (ledger_of t))(s \<mapsto> x\<lparr>tr_state := S\<rparr>)\<rparr>"
    using ledger_of_step[OF st(7,8)] w x1(2) x by simp
  have d: "tr_state x = DEBITED" using x(1) st(4) y(1) by (auto simp: transfer_of_row_def)
  have step: "ledger_step (ledger_of t) (ledger_of t')"
    unfolding l using S ledger_step.credit[OF x(1) d, of j] ledger_step.refund[OF x(1) d, of j] j(2) by auto
  have "unexplained t' = unexplained t"
    by (rule unexplained_put[OF st(7,11) _ recorded_elsewhere]) (use logged_cents[OF st(10) P k(1)] ty k(2) j(2) w in \<open>auto simp: owned_def\<close>)
  then show ?thesis
    using step sound_after_step[OF t step st(7) w st(8,4) x1(1)] st(9) d S
    by (auto simp: advances_def l simp del: ledger_of_simps(1))
qed


section \<open>Creating a saga and opening a wallet\<close>

definition created ::
  "platform \<Rightarrow> string \<Rightarrow> string \<Rightarrow> number \<Rightarrow> tables \<Rightarrow> transfer_saga \<Rightarrow> tables \<Rightarrow> bool" where
  "created P f to_id a t s t' \<longleftrightarrow> (\<exists>r. saga_id s = uuidOf P (uuidCount t) \<and> fromWalletId s = f \<and> toWalletId s = to_id \<and>
     saga_amount s = a \<and> srow_from r = f \<and> srow_to r = to_id \<and> decimal_to P a = Inr (srow_amount r) \<and>
     srow_state r = PENDING \<and> wallets t' = wallets t \<and> sagas t' = (sagas t)(saga_id s \<mapsto> r) \<and>
     uuidCount t' = Suc (uuidCount t) \<and> walletEvents t' = walletEvents t)"

lemma inside_createSaga [step_rules]: "obeys inside_tx (createSaga_operation P f to_id a cur rid)"
  unfolding createSaga_operation_def by (intro tx_contract.obeys_control step_rules)

lemma createSaga_effect:
  "establishes (entry t) (createSaga_operation P f to_id a cur rid)
    (\<lambda>s w. \<forall>t'. tx w = Some t' \<longrightarrow> created P f to_id a t s t')"
proof -
  have "created P f to_id a t s t'"
    if w: "entry t w" "createSaga_operation P f to_id a cur rid w = (Ok s, w')" "tx w' = Some t'" for w s w' t'
  proof -
    obtain w1 es where run: "sql True (save_saga P (new_transfer_saga f to_id a cur)) w = (Ok s, w1)"
        "w' = w1\<lparr>eventsToPublish := es\<rparr>"
      using w(2) unfolding createSaga_operation_def by (auto simp: run_inv)
    have "tx w = Some t" using w(1) by (simp add: entry_def)
    then obtain now where "save_saga P (new_transfer_saga f to_id a cur) now t = Inr (s, t')"
      using sql_Ok[OF run(1)] run(2) w(3) by auto
    then obtain r where r: "row_of_saga P now None (new_transfer_saga f to_id a cur) = Inr r"
        "s = (new_transfer_saga f to_id a cur)\<lparr>saga_id := uuidOf P (uuidCount t), saga_createdAt := Some now, saga_updatedAt := Some now\<rparr>"
        "t' = t\<lparr>sagas := (sagas t)(uuidOf P (uuidCount t) \<mapsto> r), uuidCount := Suc (uuidCount t)\<rparr>"
      by (auto simp: save_saga_def Let_def check_Inr new_transfer_saga_def)
    have "saga_stored P (new_transfer_saga f to_id a cur) r" using r(1) by (rule row_of_saga_stored)
    then show ?thesis
      unfolding created_def r(2,3) by (intro exI[of _ r]) (auto simp: saga_stored_def new_transfer_saga_def)
  qed
  then show ?thesis unfolding establishes_def by blast
qed

interpretation create_tx: atomic_operation
  "createSaga_operation P f to_id a cur rid" "\<lambda>t s es t'. created P f to_id a t s t'"
  by unfold_locales (rule step_rules createSaga_effect)+

lemma debit_effect:
  "establishes (entry t) (step_operation P s i a (\<lambda>now. wallet_withdraw now now a) FUNDS_WITHDRAWN m markAsDebited extra)
    (\<lambda>u w. \<forall>t'. tx w = Some t' \<longrightarrow> s \<noteq> [] \<longrightarrow> step_effect P s i a (\<lambda>now. wallet_withdraw now now a) FUNDS_WITHDRAWN markAsDebited t t')"
  by (rule step_operation_effect, erule operations_keep_identity(2)[THEN conjunct1], erule marks_keep_id)

lemma credit_effect:
  "establishes (entry t) (step_operation P s i a (\<lambda>now. wallet_credit a) FUNDS_DEPOSITED m markAsCompleted extra)
    (\<lambda>u w. \<forall>t'. tx w = Some t' \<longrightarrow> s \<noteq> [] \<longrightarrow> step_effect P s i a (\<lambda>now. wallet_credit a) FUNDS_DEPOSITED markAsCompleted t t')"
  by (rule step_operation_effect, erule operations_keep_identity(3)[THEN conjunct1], erule marks_keep_id)

lemma refund_effect:
  "establishes (entry t) (step_operation P s i a (\<lambda>now. wallet_credit a) TRANSFER_COMPENSATED m (markAsCompensated reason) extra)
    (\<lambda>u w. \<forall>t'. tx w = Some t' \<longrightarrow> s \<noteq> [] \<longrightarrow> step_effect P s i a (\<lambda>now. wallet_credit a) TRANSFER_COMPENSATED (markAsCompensated reason) t t')"
  by (rule step_operation_effect, erule operations_keep_identity(3)[THEN conjunct1], erule marks_keep_id)

interpretation debit_tx: atomic_operation
  "step_operation P s i a (\<lambda>now. wallet_withdraw now now a) FUNDS_WITHDRAWN m markAsDebited extra"
  "\<lambda>t u es t'. s \<noteq> [] \<longrightarrow> step_effect P s i a (\<lambda>now. wallet_withdraw now now a) FUNDS_WITHDRAWN markAsDebited t t'"
  by unfold_locales (rule step_rules debit_effect)+

interpretation credit_tx: atomic_operation
  "step_operation P s i a (\<lambda>now. wallet_credit a) FUNDS_DEPOSITED m markAsCompleted extra"
  "\<lambda>t u es t'. s \<noteq> [] \<longrightarrow> step_effect P s i a (\<lambda>now. wallet_credit a) FUNDS_DEPOSITED markAsCompleted t t'"
  by unfold_locales (rule step_rules credit_effect)+

interpretation refund_tx: atomic_operation
  "step_operation P s i a (\<lambda>now. wallet_credit a) TRANSFER_COMPENSATED m (markAsCompensated reason) extra"
  "\<lambda>t u es t'. s \<noteq> [] \<longrightarrow> step_effect P s i a (\<lambda>now. wallet_credit a) TRANSFER_COMPENSATED (markAsCompensated reason) t t'"
  by unfold_locales (rule step_rules refund_effect)+

end
