(* ===== verification/TransferSimulation.thy ===== *)
theory TransferSimulation imports TransferRefinement
begin

text \<open>
  Every part of the transfer service follows the protocol, under every script of the environment:
  from sound tables, whatever it commits is a run of the protocol on the ledger. The properties
  are consequences of the protocol's own theorems: no transfer, retry, failure, crash or recovery
  creates or destroys money, and a saga's recorded state only moves along the documented state
  machine.
\<close>

section \<open>The simulation relation\<close>

definition follows :: "platform \<Rightarrow> tables \<Rightarrow> tables \<Rightarrow> bool" where
  "follows P t t' \<longleftrightarrow> sound_tables P t' \<and> ledger_run (ledger_of t) (ledger_of t') \<and> unexplained t' = unexplained t"

text \<open>And only the transfer \<open>s\<close>, which is \<open>x\<close>, got on: it is in the state \<open>st\<close> now.\<close>

definition stage :: "platform \<Rightarrow> tables \<Rightarrow> string \<Rightarrow> transfer \<Rightarrow> saga_state \<Rightarrow> tables \<Rightarrow> bool" where
  "stage P t s x st t' \<longleftrightarrow> follows P t t' \<and> settled (ledger_of t) s (x\<lparr>tr_state := st\<rparr>) (ledger_of t')"

definition carries :: "platform \<Rightarrow> tables \<Rightarrow> string \<Rightarrow> transfer \<Rightarrow> tables \<Rightarrow> bool" where
  "carries P t s x t' \<longleftrightarrow> (\<exists>st. stage P t s x st t')"

lemma follows_cong:
  "wallets t2 = wallets t1 \<Longrightarrow> sagas t2 = sagas t1 \<Longrightarrow> walletEvents t2 = walletEvents t1 \<Longrightarrow>
   uuidCount t1 \<le> uuidCount t2 \<Longrightarrow> follows P t t1 \<Longrightarrow> follows P t t2"
  unfolding follows_def sound_tables_def using ledger_of_cong[of t2 t1] unexplained_cong[of t2 t1]
  by simp (meson less_le_trans)

lemma stage_cong:
  "wallets t2 = wallets t1 \<Longrightarrow> sagas t2 = sagas t1 \<Longrightarrow> walletEvents t2 = walletEvents t1 \<Longrightarrow>
   uuidCount t1 \<le> uuidCount t2 \<Longrightarrow> stage P t s x st t1 \<Longrightarrow> stage P t s x st t2"
  unfolding stage_def using follows_cong ledger_of_cong[of t2 t1] by simp

lemma follows_outbox: "follows P t t' \<Longrightarrow> follows P t (insert_outbox P es now t')"
  using unexplained_cong[of "insert_outbox P es now t'" t'] by (simp add: follows_def sound_tables_outbox)

lemma stage_outbox: "stage P t s x st t' \<Longrightarrow> stage P t s x st (insert_outbox P es now t')"
  by (simp add: stage_def follows_outbox)

lemma carries_outbox: "carries P t s x t' \<Longrightarrow> carries P t s x (insert_outbox P es now t')"
  by (auto simp: carries_def intro: stage_outbox)

lemma stage_carries: "stage P t s x st t' \<Longrightarrow> carries P t s x t'"
  by (auto simp: carries_def)

lemma carries_follows: "carries P t s x t' \<Longrightarrow> follows P t t'"
  by (auto simp: carries_def stage_def)

lemma carries_sound: "carries P t s x t' \<Longrightarrow> sound_tables P t'"
  using carries_follows by (auto simp: follows_def)

lemma stage_transfer: "stage P t s x st t' \<Longrightarrow> transfers (ledger_of t') s = Some (x\<lparr>tr_state := st\<rparr>)"
  by (simp add: stage_def settled_def del: ledger_of_simps)

lemma stage_start:
  assumes "sound_tables P t" "transfers (ledger_of t) s = Some x"
  shows "stage P t s x (tr_state x) t"
  using assms settled_refl[OF assms(2)] by (simp add: stage_def follows_def run_refl)

lemma stage_advances:
  assumes "stage P t s x st t1" "advances P t1 s (x\<lparr>tr_state := st\<rparr>) S t2"
  shows "stage P t s x S t2"
proof -
  have "settled (ledger_of t) s (x\<lparr>tr_state := S\<rparr>) (ledger_of t2)"
    by (rule settled_step[of _ _ "x\<lparr>tr_state := st\<rparr>" "ledger_of t1"])
       (use assms in \<open>auto simp: stage_def advances_def simp del: ledger_of_simps\<close>)
  then show ?thesis using assms by (auto simp: stage_def follows_def advances_def intro: run_step)
qed

section \<open>The steps\<close>

text \<open>The effect of each of the three step transactions moves the transfer.\<close>

lemma debit_stage:
  assumes "decimal_column P" "s \<noteq> []" "carries P t s x t1"
    and "s \<noteq> [] \<longrightarrow> step_effect P s (tr_from x) (amount_of (tr_cents x))
      (\<lambda>now. wallet_withdraw now now (amount_of (tr_cents x))) FUNDS_WITHDRAWN markAsDebited t1 t2"
  shows "stage P t s x DEBITED t2"
proof -
  obtain st where st: "stage P t s x st t1" using assms(3) by (auto simp: carries_def)
  show ?thesis
    by (rule stage_advances[OF st debit_refines[OF assms(1) carries_sound[OF assms(3)] stage_transfer[OF st]]])
       (use assms(2,4) in simp_all)
qed

lemma marks_move:
  "markAsCompleted s0 = (Ok (), y) \<Longrightarrow> saga_state s0 = DEBITED \<and> saga_state y = COMPLETED \<and>
     fromWalletId y = fromWalletId s0 \<and> toWalletId y = toWalletId s0 \<and> saga_amount y = saga_amount s0"
  "markAsCompensated e s0 = (Ok (), y) \<Longrightarrow> saga_state s0 = DEBITED \<and> saga_state y = COMPENSATED \<and>
     fromWalletId y = fromWalletId s0 \<and> toWalletId y = toWalletId s0 \<and> saga_amount y = saga_amount s0"
  by (auto simp: run_simps split: if_splits)

lemma credit_stage:
  assumes "decimal_column P" "s \<noteq> []" "carries P t s x t1"
    and "s \<noteq> [] \<longrightarrow> step_effect P s (tr_to x) (amount_of (tr_cents x))
      (\<lambda>now. wallet_credit (amount_of (tr_cents x))) FUNDS_DEPOSITED markAsCompleted t1 t2"
  shows "stage P t s x COMPLETED t2"
proof -
  obtain st where st: "stage P t s x st t1" using assms(3) by (auto simp: carries_def)
  have e: "step_effect P s (tr_to x) (amount_of (tr_cents x))
      (\<lambda>now. wallet_credit (amount_of (tr_cents x))) FUNDS_DEPOSITED markAsCompleted t1 t2"
    using assms(2,4) by simp
  show ?thesis
    by (rule stage_advances[OF st credit_refines[OF assms(1) carries_sound[OF assms(3)] stage_transfer[OF st] _ e _ marks_move(1)]])
       simp_all
qed

lemma refund_stage:
  assumes "decimal_column P" "s \<noteq> []" "carries P t s x t1"
    and "s \<noteq> [] \<longrightarrow> step_effect P s (tr_from x) (amount_of (tr_cents x))
      (\<lambda>now. wallet_credit (amount_of (tr_cents x))) TRANSFER_COMPENSATED (markAsCompensated reason) t1 t2"
  shows "stage P t s x COMPENSATED t2"
proof -
  obtain st where st: "stage P t s x st t1" using assms(3) by (auto simp: carries_def)
  have e: "step_effect P s (tr_from x) (amount_of (tr_cents x))
      (\<lambda>now. wallet_credit (amount_of (tr_cents x))) TRANSFER_COMPENSATED (markAsCompensated reason) t1 t2"
    using assms(2,4) by simp
  show ?thesis
    by (rule stage_advances[OF st credit_refines[OF assms(1) carries_sound[OF assms(3)] stage_transfer[OF st] _ e _ marks_move(2)]])
       simp_all
qed

text \<open>The three step transactions: what they keep, and the state a resolved one has reached.\<close>

lemma debit_outcomes:
  assumes "decimal_column P" "s \<noteq> []"
  shows "outcomes (\<lambda>w. carries P t s x (db w))
    (execute P (step_operation P s (tr_from x) (amount_of (tr_cents x))
       (\<lambda>now. wallet_withdraw now now (amount_of (tr_cents x))) FUNDS_WITHDRAWN m markAsDebited extra) opts)
    (\<lambda>r w. carries P t s x (db w) \<and> (\<forall>a. r = Ok a \<longrightarrow> stage P t s x DEBITED (db w)))"
  by (rule debit_tx.execute_outcomes)
     (use debit_stage[OF assms] stage_carries in blast, (rule carries_outbox stage_outbox, assumption)+)

lemma credit_outcomes:
  assumes "decimal_column P" "s \<noteq> []"
  shows "outcomes (\<lambda>w. carries P t s x (db w))
    (execute P (step_operation P s (tr_to x) (amount_of (tr_cents x))
       (\<lambda>now. wallet_credit (amount_of (tr_cents x))) FUNDS_DEPOSITED m markAsCompleted extra) opts)
    (\<lambda>r w. carries P t s x (db w) \<and> (\<forall>a. r = Ok a \<longrightarrow> stage P t s x COMPLETED (db w)))"
  by (rule credit_tx.execute_outcomes)
     (use credit_stage[OF assms] stage_carries in blast, (rule carries_outbox stage_outbox, assumption)+)

lemma refund_outcomes:
  assumes "decimal_column P" "s \<noteq> []"
  shows "outcomes (\<lambda>w. carries P t s x (db w))
    (execute P (step_operation P s (tr_from x) (amount_of (tr_cents x))
       (\<lambda>now. wallet_credit (amount_of (tr_cents x))) TRANSFER_COMPENSATED m (markAsCompensated reason) extra) opts)
    (\<lambda>r w. carries P t s x (db w) \<and> (\<forall>a. r = Ok a \<longrightarrow> stage P t s x COMPENSATED (db w)))"
  by (rule refund_tx.execute_outcomes)
     (use refund_stage[OF assms] stage_carries in blast, (rule carries_outbox stage_outbox, assumption)+)

text \<open>Retrying keeps what one attempt keeps, and a resolved retry is a resolved attempt.\<close>

lemma outcomes_retry_loop:
  assumes "outcomes (\<lambda>w. J (db w)) operation (\<lambda>r w. J (db w) \<and> (\<forall>a. r = Ok a \<longrightarrow> K a (db w)))"
  shows "outcomes (\<lambda>w. J (db w)) (retry_loop P C left attempt operation) (\<lambda>r w. J (db w) \<and> (\<forall>a. r = Ok a \<longrightarrow> K a (db w)))"
proof (induction left arbitrary: attempt)
  case 0
  then show ?case by (auto intro: outcomes_throw)
next
  case (Suc n)
  have again: "outcomes (\<lambda>w. J (db w)) (await (performExponentialBackoff P attempt (initialBackoffMs C))
      (\<lambda>_. retry_loop P C n (Suc attempt) operation)) (\<lambda>r w. J (db w) \<and> (\<forall>a. r = Ok a \<longrightarrow> K a (db w)))"
    by (rule outcomes_await[OF outcomes_same_tables[OF tables_backoff] Suc.IH]) simp_all
  show ?case
    unfolding retry_loop.simps
  proof (rule outcomes_try_catch[OF assms])
    fix e
    show "outcomes (\<lambda>w. J (db w) \<and> (\<forall>a. Throw e = Ok a \<longrightarrow> K a (db w)))
      (if isRetryableError e then await (performExponentialBackoff P attempt (initialBackoffMs C))
         (\<lambda>_. retry_loop P C n (Suc attempt) operation) else throw e) (\<lambda>r w. J (db w) \<and> (\<forall>a. r = Ok a \<longrightarrow> K a (db w)))"
      by (cases "isRetryableError e") (auto intro: outcomes_weaken[OF again] outcomes_throw)
  qed simp_all
qed

lemma outcomes_step:
  assumes "outcomes (\<lambda>w. J (db w)) (execute P (step_operation P s i a operation ty m upd extra) default_options)
      (\<lambda>r w. J (db w) \<and> (\<forall>a. r = Ok a \<longrightarrow> K (db w)))"
  shows "outcomes (\<lambda>w. J (db w)) (executeTransactionalStep P C s i a operation ty m upd extra)
    (\<lambda>r w. J (db w) \<and> (\<forall>a. r = Ok a \<longrightarrow> K (db w)))"
  unfolding executeTransactionalStep_def executeWithRetry_def using assms by (rule outcomes_retry_loop)

section \<open>The parts of the service\<close>

text \<open>The saga object in memory and the transfer it stands for.\<close>

definition stands_for :: "transfer_saga \<Rightarrow> string \<Rightarrow> transfer \<Rightarrow> bool" where
  "stands_for saga s x \<longleftrightarrow> saga_id saga = s \<and> fromWalletId saga = tr_from x \<and> toWalletId saga = tr_to x \<and>
     saga_amount saga = amount_of (tr_cents x)"

text \<open>A call that leaves the tables alone after a step keeps what the step established.\<close>

lemma outcomes_then:
  assumes "outcomes (\<lambda>w. J (db w)) m (\<lambda>r w. J (db w) \<and> (\<forall>a. r = Ok a \<longrightarrow> K (db w)))" "obeys same_tables n"
  shows "outcomes (\<lambda>w. J (db w)) (await m (\<lambda>_. n)) (\<lambda>r w. J (db w) \<and> (\<forall>a. r = Ok a \<longrightarrow> K (db w)))"
proof (rule outcomes_await[OF assms(1)])
  fix a
  show "outcomes (\<lambda>w. J (db w) \<and> (\<forall>b. Ok a = Ok b \<longrightarrow> K (db w))) n (\<lambda>r w. J (db w) \<and> (\<forall>a. r = Ok a \<longrightarrow> K (db w)))"
    by (rule outcomes_weaken[OF outcomes_same_tables[OF assms(2), where J = "\<lambda>t. J t \<and> K t"]]) auto
qed auto

lemma debitFromSender_outcomes:
  assumes "decimal_column P" "s \<noteq> []" "stands_for saga s x"
  shows "outcomes (\<lambda>w. carries P t s x (db w)) (debitFromSender P C saga)
    (\<lambda>r w. carries P t s x (db w) \<and> (\<forall>a. r = Ok a \<longrightarrow> stage P t s x DEBITED (db w)))"
proof -
  have saga: "saga_id saga = s" "fromWalletId saga = tr_from x" "toWalletId saga = tr_to x" "saga_amount saga = amount_of (tr_cents x)"
    using assms(3) by (simp_all add: stands_for_def)
  show ?thesis
    unfolding debitFromSender_def saga
    by (rule outcomes_then[OF outcomes_step[OF debit_outcomes[OF assms(1,2)]] tables_invalidateBalanceCache])
qed

lemma creditToReceiver_outcomes:
  assumes "decimal_column P" "s \<noteq> []" "stands_for saga s x"
  shows "outcomes (\<lambda>w. carries P t s x (db w)) (creditToReceiver P C saga recovered)
    (\<lambda>r w. carries P t s x (db w) \<and> (\<forall>a. r = Ok a \<longrightarrow> stage P t s x COMPLETED (db w)))"
proof -
  have saga: "saga_id saga = s" "fromWalletId saga = tr_from x" "toWalletId saga = tr_to x" "saga_amount saga = amount_of (tr_cents x)"
    using assms(3) by (simp_all add: stands_for_def)
  show ?thesis
    unfolding creditToReceiver_def saga
    by (rule outcomes_then[OF outcomes_step[OF credit_outcomes[OF assms(1,2)]] tables_invalidateBalanceCache])
qed

lemma compensate_outcomes:
  assumes "decimal_column P" "s \<noteq> []"
  shows "outcomes (\<lambda>w. carries P t s x (db w))
    (compensate P C s (tr_from x) (amount_of (tr_cents x)) reason)
    (\<lambda>r w. carries P t s x (db w) \<and> (\<forall>a. r = Ok a \<longrightarrow> stage P t s x COMPENSATED (db w)))"
  unfolding compensate_def
proof (rule outcomes_try_catch)
  show "outcomes (\<lambda>w. carries P t s x (db w))
    (await (executeTransactionalStep P C s (tr_from x) (amount_of (tr_cents x))
        (\<lambda>now. wallet_credit (amount_of (tr_cents x))) TRANSFER_COMPENSATED
        (JObj [(''sagaId'', JStr s), (''reason'', JStr reason)]) (markAsCompensated reason) (\<lambda>_ _. [])) (\<lambda>_.
      await get_state (\<lambda>w. publish C (money_payload TRANSFER_FAILED (tr_from x) (amount_of (tr_cents x))
        (JObj [(''sagaId'', JStr s), (''reason'', JStr reason)]) (clock w)))))
    (\<lambda>r w. carries P t s x (db w) \<and> (\<forall>a. r = Ok a \<longrightarrow> stage P t s x COMPENSATED (db w)))"
    by (rule outcomes_then[OF outcomes_step[OF refund_outcomes[OF assms]]])
       (intro tables_contract.obeys_control step_rules)
qed (auto intro: outcomes_throw)

lemma repository_outcomes:
  assumes "repository_sql f w = (r, w')"
  obtains (nothing) "db w' = db w" "\<forall>a. r \<noteq> Ok a"
  | (effect) now a where "f now (db w) = Inr (a, db w')" "\<forall>b. r = Ok b \<longrightarrow> b = a"
  using assms unfolding repository_sql_def extern_def perform_def in_db_def
  by (auto split: list.splits reply.splits sum.splits prod.splits if_splits)

lemma row_stands_for:
  assumes "carries P t s x t'" "sagas t' s = Some r"
  shows "stands_for (saga_of_row s r) s x"
proof -
  obtain st where "transfer_of_row r = x\<lparr>tr_state := st\<rparr>"
    using assms stage_transfer by (fastforce simp: carries_def)
  then have "tr_from (transfer_of_row r) = tr_from x" "tr_to (transfer_of_row r) = tr_to x" "tr_cents (transfer_of_row r) = tr_cents x"
    by simp_all
  moreover have "srow_amount r = Cents (cents (srow_amount r))"
    using transfer_amount(3)[OF carries_sound[OF assms(1)] assms(2)] .
  ultimately have "srow_from r = tr_from x" "srow_to r = tr_to x" "srow_amount r = Cents (tr_cents x)"
    by (simp_all add: transfer_of_row_def)
  then show ?thesis by (simp add: stands_for_def saga_of_row_def amount_of_def del: decimal_from.simps)
qed

lemma saga_findById_outcomes:
  "outcomes (\<lambda>w. J (db w)) (saga_findById s) (\<lambda>r w. J (db w) \<and>
     (\<forall>z. r = Ok z \<longrightarrow> z = map_option (saga_of_row s) (sagas (db w) s)))"
proof (rule outcomesI)
  fix w r w' assume w: "J (db w)" "saga_findById s w = (r, w')"
  show "J (db w') \<and> (\<forall>z. r = Ok z \<longrightarrow> z = map_option (saga_of_row s) (sagas (db w') s))"
    using w(2) unfolding saga_findById_def by (cases rule: repository_outcomes) (use w(1) in auto)
qed

text \<open>
  The save of the saga that could not be debited is the step \<open>give_up\<close>; the object may have been
  read before the row was last written, as long as the row is still pending.
\<close>

lemma give_up_carries:
  assumes P: "decimal_column P" "s \<noteq> []" and cur: "stands_for cur s x" "saga_state cur = PENDING"
    and c: "carries P t s x (db w)" "transfers (ledger_of (db w)) s = Some (x\<lparr>tr_state := PENDING\<rparr>)"
    and run: "saga_save P (snd (markAsFailed reason cur)) w = (r, w')"
  shows "carries P t s x (db w')"
  using run unfolding saga_save_def
proof (cases rule: repository_outcomes)
  case (effect now a)
  let ?y = "snd (markAsFailed reason cur)"
  obtain x0 where x0: "sagas (db w) s = Some x0" "transfer_of_row x0 = x\<lparr>tr_state := PENDING\<rparr>" using c(2) by auto
  have y: "saga_id ?y = s" "fromWalletId ?y = tr_from x" "toWalletId ?y = tr_to x" "saga_amount ?y = amount_of (tr_cents x)"
      "saga_state ?y = FAILED"
    using cur by (simp_all add: run_simps stands_for_def)
  obtain x1 where x1: "row_of_saga P now (sagas (db w) s) ?y = Inr x1" "db w' = (db w)\<lparr>sagas := (sagas (db w))(s \<mapsto> x1)\<rparr>"
    using save_saga_Inr[OF effect(1)] y(1) assms(2) by auto
  have row: "srow_from x0 = tr_from x" "srow_to x0 = tr_to x" "cents (srow_amount x0) = tr_cents x" "srow_state x0 = PENDING"
    using arg_cong[OF x0(2), of tr_from] arg_cong[OF x0(2), of tr_to] arg_cong[OF x0(2), of tr_cents] arg_cong[OF x0(2), of tr_state]
    by (simp_all add: transfer_of_row_def)
  have am: "saga_amount ?y = decimal_from (srow_amount x0)"
    using y(4) row(3) transfer_amount(3)[OF carries_sound[OF c(1)] x0(1)] by (metis amount_of_def)
  have x1': "srow_amount x1 = srow_amount x0" "transfer_of_row x1 = (transfer_of_row x0)\<lparr>tr_state := FAILED\<rparr>"
    using saga_saved[OF P(1) carries_sound[OF c(1)] x0(1) row_of_saga_stored[OF x1(1)]] y row(1,2) am by simp_all
  have l: "ledger_of (db w') = (ledger_of (db w))\<lparr>transfers := (transfers (ledger_of (db w)))(s \<mapsto> (transfer_of_row x0)\<lparr>tr_state := FAILED\<rparr>)\<rparr>"
    by (auto simp: ledger_of_def x1(2) x1'(2) balance_cents_def fun_eq_iff)
  have step: "ledger_step (ledger_of (db w)) (ledger_of (db w'))"
    unfolding l by (rule ledger_step.give_up) (use x0 in simp_all)
  have sound: "sound_tables P (db w')"
    using carries_sound[OF c(1)] step_sound[OF step] step_money[OF step] x0(1) x1(2) x1'(1)
    by (auto simp: sound_tables_def split: if_splits)
  have un: "unexplained (db w') = unexplained (db w)" by (rule unexplained_cong) (simp_all add: x1(2))
  obtain st where st: "stage P t s x st (db w)" using c(1) by (auto simp: carries_def)
  then have "x\<lparr>tr_state := st\<rparr> = x\<lparr>tr_state := PENDING\<rparr>"
    using stage_transfer[OF st] c(2) by (simp del: ledger_of_simps)
  then have "advances P (db w) s (x\<lparr>tr_state := st\<rparr>) FAILED (db w')"
    using step sound x0 un by (auto simp: advances_def l simp del: ledger_of_simps)
  then show ?thesis using stage_carries[OF stage_advances[OF st]] by blast
qed (use c in simp)

lemma mark_failed_run:
  "await (call_method (markAsFailed reason) cur) (\<lambda>cur. await (saga_save P cur) (\<lambda>_. ret ())) w =
   await (saga_save P (snd (markAsFailed reason cur))) (\<lambda>_. ret ()) w"
  by (simp add: await_def call_method_def run_simps)

lemma give_up_keeps:
  assumes P: "decimal_column P" "s \<noteq> []" and row: "saga_state cur = PENDING"
  shows "outcomes (\<lambda>w. carries P t s x (db w) \<and> map_option (saga_of_row s) (sagas (db w) s) = Some cur)
    (await (call_method (markAsFailed reason) cur) (\<lambda>cur. await (saga_save P cur) (\<lambda>_. ret ())))
    (\<lambda>r w. carries P t s x (db w))"
proof (rule outcomesI)
  fix w r w' assume w: "carries P t s x (db w) \<and> map_option (saga_of_row s) (sagas (db w) s) = Some cur"
    and run: "await (call_method (markAsFailed reason) cur) (\<lambda>cur. await (saga_save P cur) (\<lambda>_. ret ())) w = (r, w')"
  obtain x0 where x0: "sagas (db w) s = Some x0" "cur = saga_of_row s x0" using w by auto
  obtain st where st: "stage P t s x st (db w)" using w by (auto simp: carries_def)
  have "tr_state (transfer_of_row x0) = PENDING" using row x0(2) by (simp add: saga_of_row_def transfer_of_row_def)
  then have "transfers (ledger_of (db w)) s = Some (x\<lparr>tr_state := PENDING\<rparr>)"
    using stage_transfer[OF st] x0(1) by auto
  then show "carries P t s x (db w')"
    using run give_up_carries[OF P _ row, of x t w reason] row_stands_for[of P t s x "db w"] w x0
    unfolding mark_failed_run by (auto simp: await_def ret_def split: prod.splits outcome.splits)
qed

lemma handle_failure_outcomes:
  assumes P: "decimal_column P" "s \<noteq> []" and s: "stands_for saga s x"
  shows "outcomes (\<lambda>w. carries P t s x (db w)) (handle_failure P C saga e) (\<lambda>r w. carries P t s x (db w) \<and> (\<forall>a. r \<noteq> Ok a))"
proof -
  let ?J = "\<lambda>w::world. carries P t s x (db w)"
  let ?settle = "\<lambda>cur. if saga_state cur = DEBITED
       then compensate P C (saga_id cur) (fromWalletId cur) (saga_amount cur) (error_message e)
       else if saga_state cur \<noteq> COMPLETED \<and> saga_state cur \<noteq> COMPENSATED \<and> saga_state cur \<noteq> FAILED
       then await (call_method (markAsFailed (error_message e)) cur) (\<lambda>cur. await (saga_save P cur) (\<lambda>_. ret ()))
       else ret ()"
  have sid: "saga_id saga = s" using s by (simp add: stands_for_def)
  have settled: "outcomes (\<lambda>w. ?J w \<and> map_option (saga_of_row s) (sagas (db w) s) = Some cur) (?settle cur) (\<lambda>r w. ?J w)" for cur
  proof (rule outcomes_by_state)
    fix w :: world assume w: "?J w \<and> map_option (saga_of_row s) (sagas (db w) s) = Some cur"
    then have c: "stands_for cur s x" using row_stands_for[of P t s x "db w"] by auto
    have comp: "outcomes (\<lambda>v. v = w) (compensate P C (saga_id cur) (fromWalletId cur) (saga_amount cur) (error_message e)) (\<lambda>r w. ?J w)"
      using outcomes_weaken[OF compensate_outcomes[OF P, of t x C "error_message e"], of "\<lambda>v. v = w" "\<lambda>r w. ?J w"] c w
      unfolding stands_for_def by simp
    have fail: "saga_state cur = PENDING \<Longrightarrow> outcomes (\<lambda>v. v = w)
      (await (call_method (markAsFailed (error_message e)) cur) (\<lambda>cur. await (saga_save P cur) (\<lambda>_. ret ()))) (\<lambda>r w. ?J w)"
      by (rule outcomes_weaken[OF give_up_keeps[OF P, of cur t x "error_message e"]]) (use w in blast)+
    have skip: "outcomes (\<lambda>v. v = w) (ret ()) (\<lambda>r w. ?J w)" using w by (auto intro: outcomes_ret)
    show "outcomes (\<lambda>v. v = w) (?settle cur) (\<lambda>r w. ?J w)"
      using comp fail skip by (cases "saga_state cur") simp_all
  qed
  show ?thesis
    unfolding handle_failure_def sid
  proof (rule outcomes_await[OF saga_findById_outcomes])
    fix z
    show "outcomes (\<lambda>w. ?J w \<and> (\<forall>y. Ok z = Ok y \<longrightarrow> y = map_option (saga_of_row s) (sagas (db w) s)))
      (case z of None \<Rightarrow> throw (PlainError (''Saga '' @ s @ '' not found during error handling''))
       | Some cur \<Rightarrow> await (?settle cur) (\<lambda>_. throw e)) (\<lambda>r w. ?J w \<and> (\<forall>a. r \<noteq> Ok a))"
    proof (cases z)
      case None
      then show ?thesis by (auto intro: outcomes_throw)
    next
      case (Some cur)
      show ?thesis
        unfolding Some option.case
        by (rule outcomes_await[OF outcomes_weaken[OF settled, where Q' = "\<lambda>r w. ?J w"]])
           (auto intro: outcomes_throw)
    qed
  qed auto
qed

end
