(* ===== verification/TransferGuarantees.thy ===== *)
theory TransferGuarantees imports TransferSimulation
begin

text \<open>
  What a whole transfer and a whole recovery do to the committed tables, under every script of the
  environment: the composition of the parts \<open>TransferSimulation\<close> judged, and the properties
  of the transfer service.
\<close>

section \<open>From the request to the saga\<close>

text \<open>Every transfer starts with a receiver, whose wallet may have to be opened.\<close>

definition with_receiver :: "string \<Rightarrow> (string \<Rightarrow> int option) \<Rightarrow> string \<Rightarrow> int option" where
  "with_receiver i m = (if m i = None then m(i \<mapsto> 0) else m)"

lemma opened_ledger:
  assumes "opened P i cur t v t'" "sound_tables P t"
  shows "sound_tables P t'" "ledger_run (ledger_of t) (ledger_of t')" "transfers (ledger_of t') = transfers (ledger_of t)"
    "balances (ledger_of t') = with_receiver i (balances (ledger_of t))" "unexplained t' = unexplained t"
proof -
  show "unexplained t' = unexplained t"
  proof (cases "wallets t i")
    case None
    then obtain now es where t': "t' = put i (default_row now cur) es t" "\<forall>e \<in> set es. logged P i WALLET_CREATED cur None None e"
      using assms(1) by (auto simp: opened_def split: if_splits)
    have "recorded j es = 0" for j by (rule recorded_created) (use t'(2) in \<open>auto simp: logged_def\<close>)
    then show ?thesis
      by (intro unexplained_put[of t' t i "default_row now cur" es])
         (use t' None in \<open>auto simp: default_row_def owned_def balance_cents_def\<close>)
  qed (use assms(1) in \<open>simp add: opened_def\<close>)
  have "sound_tables P t' \<and> ledger_run (ledger_of t) (ledger_of t') \<and> transfers (ledger_of t') = transfers (ledger_of t) \<and>
    balances (ledger_of t') = with_receiver i (balances (ledger_of t))"
  proof (cases "wallets t i")
    case (Some r)
    then show ?thesis using assms by (auto simp: opened_def with_receiver_def balance_cents_def run_refl)
  next
    case None
    then obtain now es where t': "t' = put i (default_row now cur) es t" using assms(1) by (auto simp: opened_def)
    have c: "row_balance (default_row now cur) = Cents 0" by (simp add: default_row_def)
    have b: "balance_cents t i = None" using None by (simp add: balance_cents_def)
    have l: "ledger_of t' = (ledger_of t)\<lparr>balances := (balances (ledger_of t))(i \<mapsto> 0)\<rparr>"
      by (simp add: ledger_of_def t' balance_cents_put[of "put i (default_row now cur) es t"] c)
    have step: "ledger_step (ledger_of t) (ledger_of t')"
      unfolding l by (rule ledger_step.open_wallet) (simp add: b)
    have "sound_tables P t'"
      using assms(2) step_sound[OF step] step_money[OF step] c
      by (auto simp: sound_tables_def t' split: if_splits)
    then show ?thesis using run_step[OF run_refl step] b by (simp add: l with_receiver_def)
  qed
  then show "sound_tables P t'" "ledger_run (ledger_of t) (ledger_of t')" "transfers (ledger_of t') = transfers (ledger_of t)"
    "balances (ledger_of t') = with_receiver i (balances (ledger_of t))" by blast+
qed

lemma getOrCreate_outcomes:
  "outcomes (\<lambda>w. db w = t) (getOrCreate P i cur False)
    (\<lambda>r w. (db w = t \<and> (\<forall>a. r \<noteq> Ok a)) \<or> (\<exists>v. opened P i cur t v (db w)))"
proof (rule outcomesI)
  fix w r w' assume t: "db w = t" and run: "getOrCreate P i cur False w = (r, w')"
  have "transacted_plain (getOrCreate_execute P i cur) t r (db w')"
    by (rule outcomesD[OF runInTransaction_transacted[OF inside_getOrCreate_execute] t])
       (use run in \<open>simp add: getOrCreate_def\<close>)
  then show "(db w' = t \<and> (\<forall>a. r \<noteq> Ok a)) \<or> (\<exists>v. opened P i cur t v (db w'))"
    unfolding transacted_plain_def by (auto dest!: getOrCreate_execute_Ok)
qed

lemma createSaga_outcomes:
  "outcomes (\<lambda>w. db w = t) (createSaga P f g a cur rid)
    (\<lambda>r w. (db w = t \<and> (\<forall>s. r \<noteq> Ok s)) \<or>
       (\<exists>s t1 es now. created P f g a t s t1 \<and> db w = insert_outbox P es now t1 \<and> (\<forall>b. r = Ok b \<longrightarrow> b = s)))"
proof (rule outcomesI)
  fix w r w' assume t: "db w = t" and run: "createSaga P f g a cur rid w = (r, w')"
  from run[unfolded createSaga_def]
  show "(db w' = t \<and> (\<forall>s. r \<noteq> Ok s)) \<or>
       (\<exists>s t1 es now. created P f g a t s t1 \<and> db w' = insert_outbox P es now t1 \<and> (\<forall>b. r = Ok b \<longrightarrow> b = s))"
  proof (cases rule: create_tx.execute_all_or_nothing)
    case nothing
    then show ?thesis using t by simp
  next
    case (all s es t1 now)
    then show ?thesis using t by blast
  qed
qed

text \<open>The new transfer of \<open>k\<close> cents.\<close>

definition new_transfer :: "string \<Rightarrow> string \<Rightarrow> int \<Rightarrow> transfer" where
  "new_transfer f g k = \<lparr>tr_from = f, tr_to = g, tr_cents = k, tr_state = PENDING\<rparr>"

lemma created_ledger:
  assumes P: "decimal_column P" "distinct_uuids P" and t: "sound_tables P t" and k: "0 < k" "k \<le> 10 ^ 15 - 10"
    and c: "created P f g (amount_of k) t saga t'"
  shows "sound_tables P t'" "ledger_step (ledger_of t) (ledger_of t')" "transfers (ledger_of t) (saga_id saga) = None"
    "balances (ledger_of t') = balances (ledger_of t)" "saga_id saga \<noteq> []"
    "transfers (ledger_of t') = (transfers (ledger_of t))(saga_id saga \<mapsto> new_transfer f g k)"
    "stands_for saga (saga_id saga) (new_transfer f g k)" "unexplained t' = unexplained t"
proof -
  obtain r where r: "saga_id saga = uuidOf P (uuidCount t)" "srow_from r = f" "srow_to r = g"
      "decimal_to P (amount_of k) = Inr (srow_amount r)" "srow_state r = PENDING" "wallets t' = wallets t"
      "sagas t' = (sagas t)(saga_id saga \<mapsto> r)" "uuidCount t' = Suc (uuidCount t)"
      "fromWalletId saga = f" "toWalletId saga = g" "saga_amount saga = amount_of k" "walletEvents t' = walletEvents t"
    using c unfolding created_def by blast
  show "unexplained t' = unexplained t" by (rule unexplained_cong[OF r(6,12)])
  have a: "srow_amount r = Cents k" using r(4) amount_to[OF P(1), of k] k by simp
  have fresh: "sagas t (saga_id saga) = None"
  proof (rule ccontr)
    assume "sagas t (saga_id saga) \<noteq> None"
    then obtain n where "n < uuidCount t" "saga_id saga = uuidOf P n" using t unfolding sound_tables_def by blast
    then show False using r(1) P(2) by (auto simp: distinct_uuids_def inj_def)
  qed
  then show n: "transfers (ledger_of t) (saga_id saga) = None" by simp
  show "saga_id saga \<noteq> []" using P(2) r(1) by (simp add: distinct_uuids_def)
  have x: "transfer_of_row r = new_transfer f g k" using r a by (simp add: transfer_of_row_def new_transfer_def)
  have l: "ledger_of t' = (ledger_of t)\<lparr>transfers := (transfers (ledger_of t))(saga_id saga \<mapsto> new_transfer f g k)\<rparr>"
    using r(6,7) x by (auto simp: ledger_of_def balance_cents_def fun_eq_iff)
  then show "balances (ledger_of t') = balances (ledger_of t)"
    "transfers (ledger_of t') = (transfers (ledger_of t))(saga_id saga \<mapsto> new_transfer f g k)" by simp_all
  show step: "ledger_step (ledger_of t) (ledger_of t')"
    unfolding l by (rule ledger_step.begin_transfer[OF n]) (use k in \<open>simp_all add: new_transfer_def\<close>)
  show "sound_tables P t'"
    using t step_sound[OF step] step_money[OF step] r(1,6,7,8) a k
    unfolding sound_tables_def by (auto split: if_splits) (meson less_SucI)
  show "stands_for saga (saga_id saga) (new_transfer f g k)"
    using r by (simp add: stands_for_def new_transfer_def)
qed

section \<open>The whole transfer\<close>

lemma idempotency_save_outcomes:
  "(\<And>t i j now. J t \<Longrightarrow> J (put_key i j now t)) \<Longrightarrow>
   outcomes (\<lambda>w. J (db w)) (idempotency_save k False) (\<lambda>r w. J (db w))"
proof (rule outcomesI)
  fix w r w' assume keep: "\<And>t i j now. J t \<Longrightarrow> J (put_key i j now t)" and J: "J (db w)"
    and run: "idempotency_save k False w = (r, w')"
  from run[unfolded idempotency_save_def sql_def if_False if_distrib] show "J (db w')"
  proof (cases rule: repository_outcomes)
    case (effect now a)
    then obtain i j where "db w' = put_key i j now (db w)"
      by (auto simp: save_idempotency_key_def check_Inr dest: sym)
    then show ?thesis using keep[OF J] by simp
  qed (use J in simp)
qed

lemma stage_keys: "stage P t s x st t' \<Longrightarrow> stage P t s x st (put_key i j now t')"
  by (rule stage_cong[of _ t']) simp_all

lemma carries_keys: "carries P t s x t' \<Longrightarrow> carries P t s x (put_key i j now t')"
  by (auto simp: carries_def intro: stage_keys)

lemma run_saga_outcomes:
  assumes "decimal_column P" "s \<noteq> []" "stands_for saga s x"
  shows "outcomes (\<lambda>w. carries P t s x (db w)) (run_saga P C saga f g a rid)
    (\<lambda>r w. carries P t s x (db w) \<and> (\<forall>j. r = Ok j \<longrightarrow> stage P t s x COMPLETED (db w)))"
proof -
  let ?done = "\<lambda>w::world. stage P t s x COMPLETED (db w)"
  have save: "outcomes ?done (run_if (given rid) (idempotency_save k False)) (\<lambda>r. ?done)" for k
    by (rule outcomes_run_if[OF idempotency_save_outcomes]) (auto intro: stage_keys)
  have last: "outcomes ?done (let result = j in await (run_if (given rid) (idempotency_save (k result) False)) (\<lambda>_. ret result))
      (\<lambda>r w. carries P t s x (db w) \<and> (\<forall>j. r = Ok j \<longrightarrow> ?done w))" for j k
    unfolding Let_def by (rule outcomes_await[OF save]) (auto intro: outcomes_ret stage_carries)
  have credit: "outcomes (\<lambda>w. carries P t s x (db w) \<and> (\<forall>a. Ok u = Ok a \<longrightarrow> stage P t s x DEBITED (db w)))
      (creditToReceiver P C saga False)
      (\<lambda>r w. carries P t s x (db w) \<and> (\<forall>a. r = Ok a \<longrightarrow> ?done w))" for u :: unit
    by (rule outcomes_weaken[OF creditToReceiver_outcomes[OF assms]]) auto
  show ?thesis
    unfolding run_saga_def
    by (rule outcomes_await[OF debitFromSender_outcomes[OF assms] outcomes_await[OF credit outcomes_weaken[OF last]]]) auto
qed

section \<open>A transfer under every script\<close>

text \<open>
  What a call of \<open>executeTransfer\<close> for \<open>k\<close> cents leaves: no saga, at most an opened
  receiver (\<open>None\<close>), or one new saga in some state, with the balances of that state.
\<close>

definition transfer_outcome :: "string \<Rightarrow> string \<Rightarrow> int \<Rightarrow> ledger \<Rightarrow> saga_state option \<Rightarrow> ledger \<Rightarrow> bool" where
  "transfer_outcome f g k l z l' \<longleftrightarrow> (case z of
     None \<Rightarrow> transfers l' = transfers l \<and> (balances l' = balances l \<or> balances l' = with_receiver g (balances l))
   | Some st \<Rightarrow> (\<exists>s. transfers l s = None \<and>
       transfers l' = (transfers l)(s \<mapsto> (new_transfer f g k)\<lparr>tr_state := st\<rparr>) \<and>
       (\<forall>i. balances l' i = map_option (\<lambda>b. b + moved ((new_transfer f g k)\<lparr>tr_state := st\<rparr>) i)
          (with_receiver g (balances l) i))))"

definition transfer_post :: "platform \<Rightarrow> string \<Rightarrow> string \<Rightarrow> int \<Rightarrow> tables \<Rightarrow> (error, json) outcome \<Rightarrow> tables \<Rightarrow> bool" where
  "transfer_post P f g k t r t' \<longleftrightarrow> follows P t t' \<and>
     (\<exists>z. transfer_outcome f g k (ledger_of t) z (ledger_of t') \<and> (\<forall>j. r = Ok j \<longrightarrow> z = Some COMPLETED))"

lemma transfer_post_same:
  "sound_tables P t \<Longrightarrow> \<forall>j. r \<noteq> Ok j \<Longrightarrow> transfer_post P f g k t r t"
  unfolding transfer_post_def transfer_outcome_def
  by (auto simp: follows_def run_refl intro!: exI[of _ None])

lemma transfer_post_opened:
  assumes "sound_tables P t" "opened P g cur t v t'" "\<forall>j. r \<noteq> Ok j"
  shows "transfer_post P f g k t r t'"
  unfolding transfer_post_def transfer_outcome_def
  using opened_ledger[OF assms(2,1)] assms(3)
  by (auto simp: follows_def intro!: exI[of _ None] simp del: ledger_of_simps)

lemma moved_pending [simp]: "moved (new_transfer f g k) i = 0"
  by (simp add: moved_def new_transfer_def)

lemma transfer_post_staged:
  assumes "sound_tables P t" "opened P g cur t v t1"
    and k: "decimal_column P" "distinct_uuids P" "0 < k" "k \<le> 10 ^ 15 - 10"
    and c: "created P f g (amount_of k) t1 saga t2"
    and st: "stage P t2 (saga_id saga) (new_transfer f g k) st t'" "\<forall>j. r = Ok j \<longrightarrow> st = COMPLETED"
  shows "transfer_post P f g k t r t'"
proof -
  note o1 = opened_ledger[OF assms(2,1)]
  note c1 = created_ledger[OF k(1,2) o1(1) k(3,4) c]
  let ?y = "(new_transfer f g k)\<lparr>tr_state := st\<rparr>"
  have "ledger_run (ledger_of t) (ledger_of t')"
    using o1(2) run_step[OF _ c1(2)] st(1) unfolding stage_def follows_def ledger_run_def by (meson rtranclp_trans)
  then have "follows P t t'" using st(1) o1(5) c1(8) by (simp add: stage_def follows_def)
  moreover have "transfer_outcome f g k (ledger_of t) (Some st) (ledger_of t')"
    using st(1) c1(3,4,6) o1(3,4)
    by (auto simp: transfer_outcome_def stage_def settled_def simp del: ledger_of_simps intro!: exI[of _ "saga_id saga"])
  ultimately show ?thesis using st(2) unfolding transfer_post_def by blast
qed

lemma start_transfer_post:
  assumes P: "decimal_column P" "distinct_uuids P" and t: "sound_tables P t" and k: "0 < k" "k \<le> 10 ^ 15 - 10"
  shows "outcomes (\<lambda>w. db w = t) (start_transfer P C f g (amount_of k) rid) (\<lambda>r w. transfer_post P f g k t r (db w))"
proof -
  let ?Q = "\<lambda>r w. transfer_post P f g k t r (db w)"
  have rest: "outcomes (\<lambda>w. w = w0) (try_catch (run_saga P C saga f g (amount_of k) rid) (handle_failure P C saga)) ?Q"
    if o: "opened P g cur' t v t1" and c: "created P f g (amount_of k) t1 saga t2"
      and w0: "db w0 = insert_outbox P es now t2" for cur' v t1 t2 saga es now and w0 :: world
  proof -
    let ?s = "saga_id saga" and ?x = "new_transfer f g k"
    note c1 = created_ledger[OF P opened_ledger(1)[OF o t] k c]
    have start: "carries P t2 ?s ?x (insert_outbox P es now t2)"
      by (rule carries_outbox, rule stage_carries, rule stage_start[OF c1(1)]) (simp add: c1(6) del: ledger_of_simps)
    have post: "?Q r w" if q: "carries P t2 ?s ?x (db w)" "\<forall>j. r = Ok j \<longrightarrow> stage P t2 ?s ?x COMPLETED (db w)" for r and w :: world
    proof -
      obtain st where "stage P t2 ?s ?x st (db w)" "\<forall>j. r = Ok j \<longrightarrow> st = COMPLETED"
        using q unfolding carries_def by (cases r) auto
      then show ?thesis by (rule transfer_post_staged[OF t o P k c])
    qed
    have "outcomes (\<lambda>w. carries P t2 ?s ?x (db w)) (try_catch (run_saga P C saga f g (amount_of k) rid) (handle_failure P C saga))
      (\<lambda>r w. carries P t2 ?s ?x (db w) \<and> (\<forall>j. r = Ok j \<longrightarrow> stage P t2 ?s ?x COMPLETED (db w)))"
      by (rule outcomes_try_catch[OF run_saga_outcomes[OF P(1) c1(5,7)]])
         (auto intro: outcomes_weaken[OF handle_failure_outcomes[OF P(1) c1(5,7)]])
    then show ?thesis by (rule outcomes_weaken) (use w0 start post in auto)
  qed
  have create: "outcomes (\<lambda>w. db w = t1) (await (createSaga P f g (amount_of k) cur rid) (\<lambda>saga.
      try_catch (run_saga P C saga f g (amount_of k) rid) (handle_failure P C saga))) ?Q"
    if o: "opened P g cur' t v t1" for cur cur' v t1
  proof (rule outcomes_await[OF createSaga_outcomes])
    fix saga
    show "outcomes (\<lambda>w. (db w = t1 \<and> (\<forall>s. Ok saga \<noteq> Ok s)) \<or> (\<exists>s t2 es now. created P f g (amount_of k) t1 s t2 \<and>
        db w = insert_outbox P es now t2 \<and> (\<forall>b. Ok saga = Ok b \<longrightarrow> b = s)))
      (try_catch (run_saga P C saga f g (amount_of k) rid) (handle_failure P C saga)) ?Q"
      by (rule outcomes_by_state) (use rest[OF o] in auto)
  next
    fix r and w :: world
    have created: "?Q r w" if "\<forall>j. r \<noteq> Ok j" "created P f g (amount_of k) t1 s t2" "db w = insert_outbox P es now t2"
      for r s t2 es now and w :: world
    proof (rule transfer_post_staged[OF t o P k that(2)])
      note c1 = created_ledger[OF P opened_ledger(1)[OF o t] k that(2)]
      show "stage P t2 (saga_id s) (new_transfer f g k) PENDING (db w)"
        unfolding that(3) using stage_start[OF c1(1), of "saga_id s" "new_transfer f g k"] c1(6)
        by (intro stage_outbox) (simp add: new_transfer_def del: ledger_of_simps)
    qed (use that(1) in simp)
    show "(db w = t1 \<and> (\<forall>s. Throw e \<noteq> Ok s)) \<or> (\<exists>s t2 es now. created P f g (amount_of k) t1 s t2 \<and>
        db w = insert_outbox P es now t2 \<and> (\<forall>b. Throw e = Ok b \<longrightarrow> b = s)) \<Longrightarrow> ?Q (Throw e) w" for e
      using created transfer_post_opened[OF t o] by fastforce
    show "(db w = t1 \<and> (\<forall>s. Crash \<noteq> Ok s)) \<or> (\<exists>s t2 es now. created P f g (amount_of k) t1 s t2 \<and>
        db w = insert_outbox P es now t2 \<and> (\<forall>b. Crash = Ok b \<longrightarrow> b = s)) \<Longrightarrow> ?Q Crash w"
      using created transfer_post_opened[OF t o] by fastforce
  qed
  have receive: "outcomes (\<lambda>w. db w = t) (await (getOrCreate P g cur False) (\<lambda>toWallet.
      if currency toWallet \<noteq> cur then throw (CurrencyMismatchError cur (currency toWallet) f g)
      else await (createSaga P f g (amount_of k) cur rid) (\<lambda>saga.
        try_catch (run_saga P C saga f g (amount_of k) rid) (handle_failure P C saga)))) ?Q" for cur
  proof (rule outcomes_await[OF getOrCreate_outcomes])
    fix a
    show "outcomes (\<lambda>w. (db w = t \<and> (\<forall>b. Ok a \<noteq> Ok b)) \<or> (\<exists>v. opened P g cur t v (db w)))
      (if currency a \<noteq> cur then throw (CurrencyMismatchError cur (currency a) f g)
       else await (createSaga P f g (amount_of k) cur rid) (\<lambda>saga.
        try_catch (run_saga P C saga f g (amount_of k) rid) (handle_failure P C saga))) ?Q"
    proof (rule outcomes_by_state)
      fix w0 :: world assume "(db w0 = t \<and> (\<forall>b. Ok a \<noteq> Ok b)) \<or> (\<exists>v. opened P g cur t v (db w0))"
      then obtain v where o: "opened P g cur t v (db w0)" by blast
      show "outcomes (\<lambda>w. w = w0) (if currency a \<noteq> cur then throw (CurrencyMismatchError cur (currency a) f g)
         else await (createSaga P f g (amount_of k) cur rid) (\<lambda>saga.
          try_catch (run_saga P C saga f g (amount_of k) rid) (handle_failure P C saga))) ?Q"
      proof (cases "currency a = cur")
        case True
        have "outcomes (\<lambda>w. w = w0) (await (createSaga P f g (amount_of k) cur rid) (\<lambda>saga.
          try_catch (run_saga P C saga f g (amount_of k) rid) (handle_failure P C saga))) ?Q"
          by (rule outcomes_weaken[OF create[OF o]]) auto
        then show ?thesis using True by simp
      qed (auto intro!: outcomes_throw transfer_post_opened[OF t o])
    qed
  qed (use transfer_post_same[OF t] transfer_post_opened[OF t] in fastforce)+
  show ?thesis
  proof (cases "f = g")
    case True
    then show ?thesis using transfer_post_same[OF t] by (fastforce simp: start_transfer_def intro!: outcomes_throw)
  next
    case False
    have "outcomes (\<lambda>w. db w = t) (await (findById f) (\<lambda>found. case found of None \<Rightarrow> throw (wallet_not_found f)
       | Some fromWallet \<Rightarrow> await (getOrCreate P g (currency fromWallet) False) (\<lambda>toWallet.
          if currency toWallet \<noteq> currency fromWallet
          then throw (CurrencyMismatchError (currency fromWallet) (currency toWallet) f g)
          else await (createSaga P f g (amount_of k) (currency fromWallet) rid) (\<lambda>saga.
            try_catch (run_saga P C saga f g (amount_of k) rid) (handle_failure P C saga))))) ?Q"
    proof (rule outcomes_await[OF outcomes_same_tables[OF tables_findById]])
      fix found
      show "outcomes (\<lambda>w. db w = t) (case found of None \<Rightarrow> throw (wallet_not_found f)
       | Some fromWallet \<Rightarrow> await (getOrCreate P g (currency fromWallet) False) (\<lambda>toWallet.
          if currency toWallet \<noteq> currency fromWallet
          then throw (CurrencyMismatchError (currency fromWallet) (currency toWallet) f g)
          else await (createSaga P f g (amount_of k) (currency fromWallet) rid) (\<lambda>saga.
            try_catch (run_saga P C saga f g (amount_of k) rid) (handle_failure P C saga)))) ?Q"
        using transfer_post_same[OF t] receive by (cases found) (fastforce intro!: outcomes_throw)+
    qed (use transfer_post_same[OF t] in fastforce)+
    then show ?thesis using False by (simp add: start_transfer_def)
  qed
qed

text \<open>With the idempotency key stored, the call replays it; without, it starts a transfer.\<close>

definition stored_response :: "string option \<Rightarrow> tables \<Rightarrow> json option" where
  "stored_response rid t = (if given rid then idempotencyKeys t (the rid) else None)"

lemma executeTransfer_post:
  assumes "decimal_column P" "distinct_uuids P" "sound_tables P t" "0 < k" "k \<le> 10 ^ 15 - 10"
  shows "outcomes (\<lambda>w. db w = t) (executeTransfer P C f g (amount_of k) rid) (\<lambda>r w. case stored_response rid t of
      None \<Rightarrow> transfer_post P f g k t r (db w)
    | Some j \<Rightarrow> db w = t \<and> (\<forall>i. r = Ok i \<longrightarrow> i = j))"
  unfolding executeTransfer_def
proof (rule outcomes_await[OF outcomes_existing])
  fix found
  let ?found = "if given rid
    then map_option (\<lambda>j. \<lparr>key_requestId = the rid, key_response = j\<rparr>) (idempotencyKeys t (the rid)) else None"
  show "outcomes (\<lambda>w. db w = t \<and> (\<forall>z. Ok found = Ok z \<longrightarrow> z = ?found))
    (case found of None \<Rightarrow> start_transfer P C f g (amount_of k) rid | Some key \<Rightarrow> ret (key_response key))
    (\<lambda>r w. case stored_response rid t of None \<Rightarrow> transfer_post P f g k t r (db w)
     | Some j \<Rightarrow> db w = t \<and> (\<forall>i. r = Ok i \<longrightarrow> i = j))"
  proof (rule outcomes_by_state)
    fix w0 :: world assume w0: "db w0 = t \<and> (\<forall>z. Ok found = Ok z \<longrightarrow> z = ?found)"
    show "outcomes (\<lambda>w. w = w0)
      (case found of None \<Rightarrow> start_transfer P C f g (amount_of k) rid | Some key \<Rightarrow> ret (key_response key))
      (\<lambda>r w. case stored_response rid t of None \<Rightarrow> transfer_post P f g k t r (db w)
       | Some j \<Rightarrow> db w = t \<and> (\<forall>i. r = Ok i \<longrightarrow> i = j))"
    proof (cases "stored_response rid t")
      case None
      then have "found = None" using w0 by (auto simp: stored_response_def split: if_splits)
      then show ?thesis using None w0 by (auto intro: outcomes_weaken[OF start_transfer_post[OF assms]])
    next
      case (Some j)
      then have f: "found = Some \<lparr>key_requestId = the rid, key_response = j\<rparr>" using w0 by (auto simp: stored_response_def split: if_splits)
      show ?thesis unfolding Some f option.case using conjunct1[OF w0] by (auto intro!: outcomes_ret)
    qed
  qed
qed (use transfer_post_same[OF assms(3)] in \<open>fastforce split: option.split\<close>)+

section \<open>Recovery under every script\<close>

lemma run_if_False [simp]: "run_if False m = ret ()" and run_if_True [simp]: "run_if True m = m"
  by (simp_all add: run_if_def)

lemma recovered_outcomes:
  assumes P: "decimal_column P" "s \<noteq> []" and saga: "stands_for saga s x"
  shows "outcomes (\<lambda>w. carries P t s x (db w)) (try_catch (creditToReceiver P C saga True) (\<lambda>e.
      compensate P C (saga_id saga) (fromWalletId saga) (saga_amount saga) (''Recovery failed: '' @ error_message e)))
    (\<lambda>r w. carries P t s x (db w) \<and> (\<forall>a. r = Ok a \<longrightarrow> (\<exists>st \<in> {COMPLETED, COMPENSATED}. stage P t s x st (db w))))"
proof (rule outcomes_try_catch[OF creditToReceiver_outcomes[OF assms]])
  have f: "saga_id saga = s" "fromWalletId saga = tr_from x" "saga_amount saga = amount_of (tr_cents x)"
    using saga by (simp_all add: stands_for_def)
  show "outcomes (\<lambda>w. carries P t s x (db w) \<and> (\<forall>a. Throw e = Ok a \<longrightarrow> stage P t s x COMPLETED (db w)))
      (compensate P C (saga_id saga) (fromWalletId saga) (saga_amount saga) (''Recovery failed: '' @ error_message e))
      (\<lambda>r w. carries P t s x (db w) \<and> (\<forall>a. r = Ok a \<longrightarrow> (\<exists>st \<in> {COMPLETED, COMPENSATED}. stage P t s x st (db w))))" for e
    unfolding f by (rule outcomes_weaken[OF compensate_outcomes[OF P]]) auto
qed auto

lemma recoverSaga_outcomes:
  assumes P: "decimal_column P" "s \<noteq> []" and t: "sound_tables P t" and x: "sagas t s = Some x"
  shows "outcomes (\<lambda>w. db w = t) (recoverSaga P C s) (\<lambda>r w. if srow_state x = DEBITED
    then carries P t s (transfer_of_row x) (db w) \<and>
      (\<forall>a. r = Ok a \<longrightarrow> (\<exists>st \<in> {COMPLETED, COMPENSATED}. stage P t s (transfer_of_row x) st (db w)))
    else db w = t)"
proof -
  let ?x = "transfer_of_row x"
  have start: "carries P t s ?x t" using stage_carries[OF stage_start[OF t]] x by simp
  note main = recovered_outcomes[OF P row_stands_for[OF start x], of t C]
  show ?thesis
    unfolding recoverSaga_def
  proof (rule outcomes_await[OF saga_findById_outcomes[where J = "\<lambda>t'. t' = t"]])
    fix found
    show "outcomes (\<lambda>w. db w = t \<and> (\<forall>z. Ok found = Ok z \<longrightarrow> z = map_option (saga_of_row s) (sagas (db w) s)))
      (case found of None \<Rightarrow> ret () | Some saga \<Rightarrow> run_if (saga_state saga = DEBITED)
         (try_catch (creditToReceiver P C saga True) (\<lambda>e. compensate P C (saga_id saga) (fromWalletId saga) (saga_amount saga)
            (''Recovery failed: '' @ error_message e))))
      (\<lambda>r w. if srow_state x = DEBITED then carries P t s ?x (db w) \<and>
        (\<forall>a. r = Ok a \<longrightarrow> (\<exists>st \<in> {COMPLETED, COMPENSATED}. stage P t s ?x st (db w))) else db w = t)"
    proof (rule outcomes_by_state)
      fix w0 :: world assume "db w0 = t \<and> (\<forall>z. Ok found = Ok z \<longrightarrow> z = map_option (saga_of_row s) (sagas (db w0) s))"
      then have w0: "db w0 = t" "found = Some (saga_of_row s x)" using x by auto
      have st: "saga_state (saga_of_row s x) = srow_state x" by (simp add: saga_of_row_def)
      show "outcomes (\<lambda>w. w = w0)
        (case found of None \<Rightarrow> ret () | Some saga \<Rightarrow> run_if (saga_state saga = DEBITED)
           (try_catch (creditToReceiver P C saga True) (\<lambda>e. compensate P C (saga_id saga) (fromWalletId saga) (saga_amount saga)
              (''Recovery failed: '' @ error_message e))))
        (\<lambda>r w. if srow_state x = DEBITED then carries P t s ?x (db w) \<and>
          (\<forall>a. r = Ok a \<longrightarrow> (\<exists>st \<in> {COMPLETED, COMPENSATED}. stage P t s ?x st (db w))) else db w = t)"
      proof (cases "srow_state x = DEBITED")
        case True
        have "outcomes (\<lambda>w. w = w0) (try_catch (creditToReceiver P C (saga_of_row s x) True) (\<lambda>e. compensate P C
            (saga_id (saga_of_row s x)) (fromWalletId (saga_of_row s x)) (saga_amount (saga_of_row s x))
            (''Recovery failed: '' @ error_message e)))
          (\<lambda>r w. carries P t s ?x (db w) \<and>
            (\<forall>a. r = Ok a \<longrightarrow> (\<exists>st \<in> {COMPLETED, COMPENSATED}. stage P t s ?x st (db w))))"
          by (rule outcomes_weaken[OF main]) (use start w0(1) in auto)
        then show ?thesis using True w0(2) st by simp
      qed (use w0 st in \<open>auto intro: outcomes_ret\<close>)
    qed
  qed (use start in auto)
qed

section \<open>Any sequence of transfers and recoveries\<close>

text \<open>Transfers and recoveries, each under its own behaviour of the environment; between them
  anything but the committed tables may change (the process restarts, time passes, the cache and
  the broker lose what they hold).\<close>

inductive transfers_run :: "platform \<Rightarrow> app_config \<Rightarrow> world \<Rightarrow> world \<Rightarrow> bool" for P C where
  nothing: "transfers_run P C w w"
| environment: "transfers_run P C w w1 \<Longrightarrow> db w2 = db w1 \<Longrightarrow> transfers_run P C w w2"
| a_transfer: "transfers_run P C w w1 \<Longrightarrow> 0 < k \<Longrightarrow> k \<le> 10 ^ 15 - 10 \<Longrightarrow>
    executeTransfer P C f g (amount_of k) rid w1 = (r, w2) \<Longrightarrow> transfers_run P C w w2"
| a_recovery: "transfers_run P C w w1 \<Longrightarrow> recoverSaga P C s w1 = (r, w2) \<Longrightarrow> transfers_run P C w w2"

lemma transfer_follows:
  assumes "decimal_column P" "distinct_uuids P" "sound_tables P (db w)" "0 < k" "k \<le> 10 ^ 15 - 10"
    and "executeTransfer P C f g (amount_of k) rid w = (r, w')"
  shows "follows P (db w) (db w')"
  using outcomesD[OF executeTransfer_post[OF assms(1-5)] refl assms(6)] assms(3)
  by (auto simp: transfer_post_def follows_def run_refl split: option.splits)

lemma recovery_follows:
  assumes "decimal_column P" "distinct_uuids P" "sound_tables P (db w)" "recoverSaga P C s w = (r, w')"
  shows "follows P (db w) (db w')"
proof (cases "sagas (db w) s")
  case None
  have "outcomes (\<lambda>v. db v = db w) (recoverSaga P C s) (\<lambda>r v. db v = db w)"
    unfolding recoverSaga_def
  proof (rule outcomes_await[OF saga_findById_outcomes[where J = "\<lambda>t'. t' = db w"]])
    fix found
    show "outcomes (\<lambda>v. db v = db w \<and> (\<forall>z. Ok found = Ok z \<longrightarrow> z = map_option (saga_of_row s) (sagas (db v) s)))
      (case found of None \<Rightarrow> ret () | Some saga \<Rightarrow> run_if (saga_state saga = DEBITED)
         (try_catch (creditToReceiver P C saga True) (\<lambda>e. compensate P C (saga_id saga) (fromWalletId saga) (saga_amount saga)
            (''Recovery failed: '' @ error_message e))))
      (\<lambda>r v. db v = db w)"
      using None by (cases found) (auto simp: outcomes_def ret_def)
  qed auto
  then show ?thesis using assms(3,4) by (auto simp: follows_def run_refl dest: outcomesD)
next
  case (Some x)
  then have "s \<noteq> []" using assms(2,3) unfolding sound_tables_def distinct_uuids_def by metis
  then show ?thesis
    using outcomesD[OF recoverSaga_outcomes[OF assms(1) _ assms(3) Some] refl assms(4)] assms(3)
    by (auto simp: follows_def run_refl dest: carries_follows split: if_splits)
qed

lemma follows_trans: "follows P t t1 \<Longrightarrow> follows P t1 t2 \<Longrightarrow> follows P t t2"
  unfolding follows_def ledger_run_def by (metis rtranclp_trans)

lemma transfers_run_follows:
  assumes "transfers_run P C w w'" "decimal_column P" "distinct_uuids P" "sound_tables P (db w)"
  shows "follows P (db w) (db w')"
  using assms
proof (induction rule: transfers_run.induct)
  case (nothing w)
  then show ?case by (simp add: follows_def run_refl)
next
  case (a_transfer w w1 k f g rid r w2)
  then have f: "follows P (db w) (db w1)" by blast
  then have "sound_tables P (db w1)" by (simp add: follows_def)
  then show ?case using follows_trans[OF f transfer_follows] a_transfer by blast
next
  case (a_recovery w w1 s r w2)
  then have f: "follows P (db w) (db w1)" by blast
  then have "sound_tables P (db w1)" by (simp add: follows_def)
  then show ?case using follows_trans[OF f recovery_follows] a_recovery by blast
qed simp

section \<open>The properties\<close>

text \<open>C4: A transfer of \<open>k\<close> cents under every script of the environment, whichever call fails,
  before or after it took effect, and wherever the process dies: either there is no saga and at
  most the receiver's wallet was opened, or there is exactly one new saga, and the balances of all
  wallets are those its state stands for: the sender is short of exactly \<open>k\<close> cents if it is
  debited or completed, the receiver has them if it is completed, and nobody else's balance
  changed. A resolved transfer is a completed one.\<close>

theorem transfer_all_or_nothing:
  assumes "decimal_column P" and "distinct_uuids P" and "sound_tables P (db w)"
    and "0 < k" and "k \<le> 10 ^ 15 - 10" and "stored_response rid (db w) = None"
    and "executeTransfer P C f g (amount_of k) rid w = (r, w')"
  shows "\<exists>z. transfer_outcome f g k (ledger_of (db w)) z (ledger_of (db w')) \<and> (\<forall>j. r = Ok j \<longrightarrow> z = Some COMPLETED)"
  using outcomesD[OF executeTransfer_post[OF assms(1-5)] refl assms(7)] assms(6) by (auto simp: transfer_post_def)

text \<open>A transfer whose idempotency key has a response replays it: it resolves to nothing else and
  changes no table.\<close>

theorem transfer_replays:
  assumes "decimal_column P" and "distinct_uuids P" and "sound_tables P (db w)"
    and "0 < k" and "k \<le> 10 ^ 15 - 10" and "stored_response rid (db w) = Some j"
    and "executeTransfer P C f g (amount_of k) rid w = (r, w')"
  shows "db w' = db w \<and> (\<forall>i. r = Ok i \<longrightarrow> i = j)"
  using outcomesD[OF executeTransfer_post[OF assms(1-5)] refl assms(7)] assms(6) by simp

text \<open>C16: The recovery of a debited saga under every script of the environment: only that transfer
  gets on, the balances of all wallets are those of its new state, and if the recovery resolves the
  money in flight is settled: the transfer is completed or the sender has been refunded.\<close>

theorem recovery_settles:
  assumes "decimal_column P" and "distinct_uuids P" and "sound_tables P (db w)"
    and "sagas (db w) s = Some x" and "srow_state x = DEBITED"
    and "recoverSaga P C s w = (r, w')"
  shows "\<exists>st. settled (ledger_of (db w)) s ((transfer_of_row x)\<lparr>tr_state := st\<rparr>) (ledger_of (db w')) \<and>
    (\<forall>a. r = Ok a \<longrightarrow> st = COMPLETED \<or> st = COMPENSATED)"
proof -
  have "s \<noteq> []" using assms(2,3,4) unfolding sound_tables_def distinct_uuids_def by metis
  then have "carries P (db w) s (transfer_of_row x) (db w')"
    and "\<forall>a. r = Ok a \<longrightarrow> (\<exists>st \<in> {COMPLETED, COMPENSATED}. stage P (db w) s (transfer_of_row x) st (db w'))"
    using outcomesD[OF recoverSaga_outcomes[OF assms(1) _ assms(3,4)] refl assms(6)] assms(5) by auto
  then show ?thesis unfolding carries_def stage_def by (cases r) auto
qed

text \<open>C2: The service implements the protocol: whatever any sequence of transfers and recoveries
  does to the committed tables, under every script of the environment, is a run of the protocol's
  steps on the ledger the tables stand for.\<close>

theorem transfers_refine_protocol:
  assumes "transfers_run P C w w'" and "decimal_column P" and "distinct_uuids P" and "sound_tables P (db w)"
  shows "ledger_run (ledger_of (db w)) (ledger_of (db w')) \<and> sound_tables P (db w')"
  using transfers_run_follows[OF assms] by (simp add: follows_def)

text \<open>No sequence of transfers and recoveries, with any failures and crashes, creates or destroys
  a cent: the balances together with the amounts of the debited sagas stay the same, and no
  balance is ever negative.\<close>

theorem transfers_conserve_money:
  assumes "transfers_run P C w w'" and "decimal_column P" and "distinct_uuids P" and "sound_tables P (db w)"
  shows "money (ledger_of (db w')) = money (ledger_of (db w)) \<and>
    (\<forall>i b. balance_cents (db w') i = Some b \<longrightarrow> 0 \<le> b)"
  using transfers_run_follows[OF assms] assms(4) run_sound
  by (auto simp: follows_def sound_tables_def sound_ledger_def)

text \<open>A committed saga is never lost, keeps its parties and its amount, and its state only moves
  along the documented state machine; a final state stays.\<close>

theorem saga_moves_along_state_machine:
  assumes "transfers_run P C w w'" and "decimal_column P" and "distinct_uuids P" and "sound_tables P (db w)"
    and "sagas (db w) s = Some x"
  shows "\<exists>y. sagas (db w') s = Some y \<and> saga_moves\<^sup>*\<^sup>* (srow_state x) (srow_state y) \<and>
    srow_from y = srow_from x \<and> srow_to y = srow_to x \<and> srow_amount y = srow_amount x"
proof -
  have f: "follows P (db w) (db w')" using transfers_run_follows[OF assms(1-4)] .
  obtain y where y: "sagas (db w') s = Some y" "saga_moves\<^sup>*\<^sup>* (srow_state x) (srow_state y)"
      "srow_from y = srow_from x" "srow_to y = srow_to x" "cents (srow_amount y) = cents (srow_amount x)"
    using run_transfer[of "ledger_of (db w)" "ledger_of (db w')" s "transfer_of_row x"] f assms(5)
    by (auto simp: follows_def transfer_of_row_def)
  have "srow_amount y = Cents (cents (srow_amount y))" using f y(1) by (auto simp: follows_def sound_tables_def)
  moreover have "srow_amount x = Cents (cents (srow_amount x))" using assms(4,5) by (auto simp: sound_tables_def)
  ultimately show ?thesis using y by metis
qed

end
