(* ===== verification/TransferRuns.thy ===== *)
theory TransferRuns imports TransferGuarantees
begin

text \<open>
  Transfers and recoveries when every call succeeds: the steps computed one after the other, and
  the liveness of the service. Concrete runs at the end are the witnesses of the properties of
  \<open>TransferGuarantees\<close>.
\<close>

section \<open>One step\<close>

text \<open>A saga's row whose values fit their columns.\<close>

definition saga_fits :: "saga_row \<Rightarrow> bool" where
  "saga_fits x \<longleftrightarrow> length (srow_from x) \<le> 255 \<and> length (srow_to x) \<le> 255 \<and> length (srow_currency x) \<le> 3 \<and>
     (\<exists>k. srow_amount x = Cents k \<and> 0 < k \<and> k \<le> 10 ^ 15 - 10)"

lemma saga_fits_save:
  assumes "decimal_column P" "saga_fits x" "fromWalletId y = srow_from x" "toWalletId y = srow_to x"
    "saga_amount y = decimal_from (srow_amount x)" "saga_currency y = srow_currency x"
  shows "\<exists>x1. row_of_saga P now old y = Inr x1 \<and> saga_fits x1 \<and> srow_state x1 = saga_state y \<and>
    srow_from x1 = srow_from x \<and> srow_to x1 = srow_to x \<and> srow_amount x1 = srow_amount x"
proof -
  obtain k where k: "srow_amount x = Cents k" "0 < k" "k \<le> 10 ^ 15 - 10" using assms(2) by (auto simp: saga_fits_def)
  have "decimal_to P (decimal_from (Cents k)) = Inr (Cents k)"
    by (rule decimal_roundtrip[OF assms(1)]) (use k in auto)
  then show ?thesis
    using assms(2-6) k by (simp add: row_of_saga_def saga_fits_def varchar_def del: decimal_from.simps)
qed

lemma for_each_publish_calm:
  "calm w \<Longrightarrow> \<exists>os. for_each es publishEvent w = (Ok (), w\<lparr>eventsToPublish := os\<rparr>)"
proof (induction es arbitrary: w)
  case Nil
  then show ?case by (intro exI[of _ "eventsToPublish w"]) (simp add: ret_run)
next
  case (Cons e es)
  obtain os where "for_each es publishEvent (w\<lparr>eventsToPublish := eventsToPublish w @ [e]\<rparr>) =
      (Ok (), w\<lparr>eventsToPublish := eventsToPublish w @ [e]\<rparr>\<lparr>eventsToPublish := os\<rparr>)"
    using Cons.IH[of "w\<lparr>eventsToPublish := eventsToPublish w @ [e]\<rparr>"] Cons.prems by auto
  moreover have "publishEvent e w = (Ok (), w\<lparr>eventsToPublish := eventsToPublish w @ [e]\<rparr>)"
    by (simp add: publishEvent_def modify_def)
  ultimately show ?case by (auto simp: await_run)
qed

text \<open>A step in two halves: up to the read of the saga, and from there on.\<close>

definition step_front ::
  "platform \<Rightarrow> string \<Rightarrow> string \<Rightarrow> (int \<Rightarrow> (wallet, error, unit) program) \<Rightarrow> (wallet \<times> transfer_saga) handler" where
  "step_front P sagaId walletId operation =
     await (sql True (find_wallet walletId)) (\<lambda>found.
     case found of
       None \<Rightarrow> throw (wallet_not_found walletId)
     | Some wallet \<Rightarrow>
         await get_state (\<lambda>w.
         await (call_method (operation (clock w)) wallet) (\<lambda>wallet.
         await (sql True (save_wallet P wallet)) (\<lambda>_.
         await (sql True (find_saga sagaId)) (\<lambda>found.
         case found of
           None \<Rightarrow> throw (saga_not_found sagaId)
         | Some saga \<Rightarrow> ret (wallet, saga))))))"

definition step_back ::
  "platform \<Rightarrow> string \<Rightarrow> number \<Rightarrow> wallet_event_type \<Rightarrow> json \<Rightarrow> (transfer_saga, error, unit) program \<Rightarrow>
   (transfer_saga \<Rightarrow> int \<Rightarrow> outbox_event list) \<Rightarrow> wallet \<times> transfer_saga \<Rightarrow> unit handler" where
  "step_back P walletId amount eventType eventMetadata updateSaga additionalOutboxEvents = (\<lambda>(wallet, saga).
     await (call_method updateSaga saga) (\<lambda>saga.
     await (sql True (save_saga P saga)) (\<lambda>saga.
     await (sql True (insert_event P
       (new_wallet_event walletId eventType (currency wallet) (Some amount) (Some eventMetadata)))) (\<lambda>_.
     await get_state (\<lambda>w.
     await (publishEvent (new_outbox_event walletId eventType
       (money_payload eventType walletId amount eventMetadata (clock w)))) (\<lambda>_.
     for_each (additionalOutboxEvents saga (clock w)) publishEvent))))))"

lemma await_case_option: "await (case z of None \<Rightarrow> m | Some a \<Rightarrow> f a) k = (case z of None \<Rightarrow> await m k | Some a \<Rightarrow> await (f a) k)"
  by (cases z) simp_all

lemma await_throw: "await (throw e) k = throw e"
  by (simp add: await_def throw_def fun_eq_iff)

lemma step_halves:
  "step_operation P s i amount operation ty m upd extra = await (step_front P s i operation) (step_back P i amount ty m upd extra)"
  by (simp add: step_operation_def step_front_def step_back_def await_assoc await_case_option await_throw
      cong: option.case_cong)

lemma step_front_calm:
  assumes c: "calm w" "tx w = Some t" and row: "wallets t i = Some r"
    and op: "operation (clock w) (wallet_of_row i r) = (Ok (), v)" "wallet_id v = i" "savable P v"
    and saga: "sagas t s = Some x"
  shows "\<exists>r1. stored P v r1 \<and> step_front P s i operation w =
    (Ok (v, saga_of_row s x), w\<lparr>tx := Some (t\<lparr>wallets := (wallets t)(i \<mapsto> r1)\<rparr>)\<rparr>)"
proof -
  obtain r1 where r1: "row_of_wallet P (clock w) (wallets t (wallet_id v)) v = Inr r1" using save_succeeds[OF op(3)] by blast
  let ?t1 = "t\<lparr>wallets := (wallets t)(i \<mapsto> r1)\<rparr>"
  have run: "sql True (find_wallet i) w = (Ok (Some (wallet_of_row i r)), w)"
    "sql True (save_wallet P v) w = (Ok (saved_wallet (wallets t (wallet_id v)) r1 v), w\<lparr>tx := Some ?t1\<rparr>)"
    "sql True (find_saga s) (w\<lparr>tx := Some ?t1\<rparr>) = (Ok (Some (saga_of_row s x)), w\<lparr>tx := Some ?t1\<rparr>)"
    using sql_calm[of w t "find_wallet i" "Some (wallet_of_row i r)" t]
      sql_calm[of w t "save_wallet P v" "saved_wallet (wallets t (wallet_id v)) r1 v" ?t1]
      sql_calm[of "w\<lparr>tx := Some ?t1\<rparr>" ?t1 "find_saga s" "Some (saga_of_row s x)" ?t1]
      c row r1 op(2) saga
    by (simp_all add: save_wallet_Inr)
  have "step_front P s i operation w = (Ok (v, saga_of_row s x), w\<lparr>tx := Some ?t1\<rparr>)"
    unfolding step_front_def by (simp add: await_run run get_state_run call_method_def op(1) ret_run)
  then show ?thesis using row_of_wallet_stored[OF r1] by blast
qed

text \<open>An amount that an event can record.\<close>

definition loggable :: "platform \<Rightarrow> number \<Rightarrow> bool" where
  "loggable P a \<longleftrightarrow> (\<exists>k. decimal_to P a = Inr (Cents k) \<and> 0 \<le> k)"

lemma loggable_amount: "decimal_column P \<Longrightarrow> 0 < k \<Longrightarrow> k \<le> 10 ^ 15 \<Longrightarrow> loggable P (amount_of k)"
  using amount_to[of P k] by (auto simp: loggable_def)

lemma loggable_event:
  "loggable P a \<Longrightarrow> length i \<le> 255 \<Longrightarrow> length cur \<le> 3 \<Longrightarrow>
   \<exists>e. event_row_of P now n (new_wallet_event i ty cur (Some a) m) = Inr e"
  by (auto simp: loggable_def event_row_of_def new_wallet_event_def decimal_to_nullable_def varchar_def)

lemma step_back_calm:
  assumes amount: "loggable P a" and c: "calm w" "tx w = Some t" and i: "length i \<le> 255" "length (currency v) \<le> 3"
    and saga: "s \<noteq> []" "upd saga = (Ok (), y)" "saga_id y = s" "row_of_saga P (clock w) (sagas t s) y = Inr x1"
  shows "\<exists>e os. step_back P i a ty m upd extra (v, saga) w = (Ok (),
    w\<lparr>tx := Some (t\<lparr>sagas := (sagas t)(s \<mapsto> x1), walletEvents := walletEvents t @ [e]\<rparr>), eventsToPublish := os\<rparr>)"
proof -
  let ?t2 = "t\<lparr>sagas := (sagas t)(s \<mapsto> x1)\<rparr>"
  let ?ev = "new_wallet_event i ty (currency v) (Some a) (Some m)"
  obtain e where e: "event_row_of P (clock w) (Suc (length (walletEvents t))) ?ev = Inr e"
    using loggable_event[OF amount i] by metis
  have run: "sql True (save_saga P y) w = (Ok (y\<lparr>saga_updatedAt := Some (clock w)\<rparr>), w\<lparr>tx := Some ?t2\<rparr>)"
    "sql True (insert_event P ?ev) (w\<lparr>tx := Some ?t2\<rparr>) =
      (Ok (log_id e), w\<lparr>tx := Some (?t2\<lparr>walletEvents := walletEvents t @ [e]\<rparr>)\<rparr>)"
    using sql_calm[of w t "save_saga P y" "y\<lparr>saga_updatedAt := Some (clock w)\<rparr>" ?t2]
      sql_calm[of "w\<lparr>tx := Some ?t2\<rparr>" ?t2 "insert_event P ?ev" "log_id e" "?t2\<lparr>walletEvents := walletEvents t @ [e]\<rparr>"]
      c saga e
    by (simp_all add: save_saga_def insert_event_Inr)
  let ?w5 = "w\<lparr>tx := Some (?t2\<lparr>walletEvents := walletEvents t @ [e]\<rparr>),
    eventsToPublish := eventsToPublish w @ [new_outbox_event i ty (money_payload ty i a m (clock w))]\<rparr>"
  obtain os where os: "for_each (extra (y\<lparr>saga_updatedAt := Some (clock w)\<rparr>) (clock w)) publishEvent ?w5 =
      (Ok (), ?w5\<lparr>eventsToPublish := os\<rparr>)"
    using for_each_publish_calm[of ?w5] c by auto
  have "step_back P i a ty m upd extra (v, saga) w = (Ok (), ?w5\<lparr>eventsToPublish := os\<rparr>)"
    using os unfolding step_back_def
    by (simp add: await_run run get_state_run call_method_def saga(2) publishEvent_def modify_def)
  then show ?thesis by auto
qed

lemma step_operation_calm:
  assumes amount: "loggable P a" and c: "calm w" "tx w = Some t"
    and row: "wallets t i = Some r" "length i \<le> 255"
    and op: "operation (clock w) (wallet_of_row i r) = (Ok (), v)" "wallet_id v = i" "savable P v"
    and saga: "sagas t s = Some x" "s \<noteq> []" "upd (saga_of_row s x) = (Ok (), y)" "saga_id y = s"
      "row_of_saga P (clock w) (Some x) y = Inr x1"
  shows "\<exists>r1 es os. stored P v r1 \<and> step_operation P s i a operation ty m upd extra w = (Ok (),
    w\<lparr>tx := Some (t\<lparr>wallets := (wallets t)(i \<mapsto> r1), sagas := (sagas t)(s \<mapsto> x1), walletEvents := es\<rparr>), eventsToPublish := os\<rparr>)"
proof -
  obtain r1 where r1: "stored P v r1" "step_front P s i operation w =
      (Ok (v, saga_of_row s x), w\<lparr>tx := Some (t\<lparr>wallets := (wallets t)(i \<mapsto> r1)\<rparr>)\<rparr>)"
    using step_front_calm[of w t i r operation v P s x] c row op saga(1) by blast
  let ?t1 = "t\<lparr>wallets := (wallets t)(i \<mapsto> r1)\<rparr>"
  have "length (currency v) \<le> 3" using op(3) by (simp add: savable_def)
  then obtain e os where "step_back P i a ty m upd extra (v, saga_of_row s x) (w\<lparr>tx := Some ?t1\<rparr>) = (Ok (),
      w\<lparr>tx := Some (?t1\<lparr>sagas := (sagas t)(s \<mapsto> x1), walletEvents := walletEvents t @ [e]\<rparr>), eventsToPublish := os\<rparr>)"
    using step_back_calm[of P a "w\<lparr>tx := Some ?t1\<rparr>" ?t1 i v s upd "saga_of_row s x" y x1 ty m extra] assms by auto
  then show ?thesis using r1 by (auto simp: step_halves await_run)
qed

text \<open>What a step leaves of the world: everything the next step and the final answer depend on.\<close>

definition stepped :: "string \<Rightarrow> wallet_row \<Rightarrow> string \<Rightarrow> saga_row \<Rightarrow> world \<Rightarrow> world \<Rightarrow> bool" where
  "stepped i r s x w w' \<longleftrightarrow> calm w' \<and> clock w' = clock w \<and> wallets (db w') = (wallets (db w))(i \<mapsto> r) \<and>
     sagas (db w') = (sagas (db w))(s \<mapsto> x) \<and> idempotencyKeys (db w') = idempotencyKeys (db w) \<and>
     publisherConnected w' = publisherConnected w"

lemma step_calm:
  assumes amount: "loggable P a" and c: "calm w" "0 < maxRetries C"
    and row: "wallets (db w) i = Some r" "length i \<le> 255"
    and op: "operation (clock w) (wallet_of_row i r) = (Ok (), v)" "wallet_id v = i" "savable P v"
    and saga: "sagas (db w) s = Some x" "s \<noteq> []" "upd (saga_of_row s x) = (Ok (), y)" "saga_id y = s"
      "row_of_saga P (clock w) (Some x) y = Inr x1"
  shows "\<exists>r1 w'. stored P v r1 \<and> stepped i r1 s x1 w w' \<and>
    await (executeTransactionalStep P C s i a operation ty m upd extra) (\<lambda>_. invalidateBalanceCache i) w = (Ok (), w')"
proof -
  let ?op = "step_operation P s i a operation ty m upd extra"
  let ?w0 = "inside_state default_options w"
  obtain r1 es os where r1: "stored P v r1" and run: "?op ?w0 = (Ok (), ?w0\<lparr>tx := Some ((db w)\<lparr>wallets := (wallets (db w))(i \<mapsto> r1),
      sagas := (sagas (db w))(s \<mapsto> x1), walletEvents := es\<rparr>), eventsToPublish := os\<rparr>)"
    using step_operation_calm[of P a ?w0 "db w" i r operation v s x upd y x1 ty m extra] assms by auto
  obtain n where n: "maxRetries C = Suc n" using c(2) by (cases "maxRetries C") auto
  have free: "lock_free default_options w" by (simp add: lock_free_def default_options_def given_def)
  obtain w1 where w1: "execute P ?op default_options w = (Ok (), w1)" "stepped i r1 s x1 w w1"
    using execute_calm[where operation = ?op and P = P, OF c(1) free run] c(1)
    by (simp add: stepped_def unlocked_def inside_state_def default_options_def given_def)
  have "executeTransactionalStep P C s i a operation ty m upd extra w = (Ok (), w1)"
    by (simp add: executeTransactionalStep_def executeWithRetry_def n w1(1) try_catch_run)
  moreover obtain w2 where "invalidateBalanceCache i w1 = (Ok (), w2)" "stepped i r1 s x1 w w2"
    using w1(2) by (auto simp: invalidateBalanceCache_def redis_del_calm stepped_def)
  ultimately show ?thesis using r1 by (auto simp: await_run)
qed

section \<open>Creating the saga, debiting, crediting\<close>

lemma createSaga_runs:
  assumes P: "distinct_uuids P" and c: "calm w" and fits: "length f \<le> 255" "length g \<le> 255" "length cur \<le> 3"
    and a: "decimal_to P a = Inr (Cents k)" "0 < k" "k \<le> 10 ^ 15 - 10"
  shows "\<exists>saga x w'. createSaga P f g a cur rid w = (Ok saga, w') \<and> calm w' \<and> clock w' = clock w \<and>
    fromWalletId saga = f \<and> toWalletId saga = g \<and> saga_amount saga = a \<and> saga_id saga \<noteq> [] \<and> saga_fits x \<and>
    transfer_of_row x = new_transfer f g k \<and> wallets (db w') = wallets (db w) \<and>
    sagas (db w') = (sagas (db w))(saga_id saga \<mapsto> x) \<and> idempotencyKeys (db w') = idempotencyKeys (db w) \<and>
    publisherConnected w' = publisherConnected w"
proof -
  let ?s0 = "new_transfer_saga f g a cur" and ?w0 = "inside_state default_options w"
  let ?op = "createSaga_operation P f g a cur rid"
  obtain x where x: "row_of_saga P (clock w) None ?s0 = Inr x" "saga_fits x" "transfer_of_row x = new_transfer f g k"
    using fits a by (simp add: row_of_saga_def saga_fits_def varchar_def new_transfer_saga_def transfer_of_row_def new_transfer_def)
  let ?i = "uuidOf P (uuidCount (db w))"
  let ?saga = "?s0\<lparr>saga_id := ?i, saga_createdAt := Some (clock w), saga_updatedAt := Some (clock w)\<rparr>"
  let ?t = "(db w)\<lparr>sagas := (sagas (db w))(?i \<mapsto> x), uuidCount := Suc (uuidCount (db w))\<rparr>"
  have "sql True (save_saga P ?s0) ?w0 = (Ok ?saga, ?w0\<lparr>tx := Some ?t\<rparr>)"
    using sql_calm[of ?w0 "db w" "save_saga P ?s0" ?saga ?t] c x(1)
    by (simp add: save_saga_def new_transfer_saga_def Let_def)
  then obtain os where run: "?op ?w0 = (Ok ?saga, ?w0\<lparr>tx := Some ?t, eventsToPublish := os\<rparr>)"
    unfolding createSaga_operation_def by (auto simp: run_simps publishEvent_def)
  have free: "lock_free default_options w" by (simp add: lock_free_def default_options_def given_def)
  note e = execute_calm[where operation = ?op and P = P, OF c free run]
  have id: "?i \<noteq> []" using P by (simp add: distinct_uuids_def)
  show ?thesis
    by (rule exI[of _ ?saga], rule exI[of _ x])
       (use e c x(2,3) id in \<open>simp add: createSaga_def new_transfer_saga_def unlocked_def
          inside_state_def default_options_def given_def\<close>)
qed

lemma createSaga_calm:
  assumes P: "decimal_column P" "distinct_uuids P" and c: "calm w"
    and fits: "length f \<le> 255" "length g \<le> 255" "length cur \<le> 3" "0 < k" "k \<le> 10 ^ 15 - 10"
  shows "\<exists>saga x w'. createSaga P f g (amount_of k) cur rid w = (Ok saga, w') \<and> calm w' \<and> clock w' = clock w \<and>
    stands_for saga (saga_id saga) (new_transfer f g k) \<and> saga_id saga \<noteq> [] \<and> saga_fits x \<and>
    transfer_of_row x = new_transfer f g k \<and> wallets (db w') = wallets (db w) \<and>
    sagas (db w') = (sagas (db w))(saga_id saga \<mapsto> x) \<and> idempotencyKeys (db w') = idempotencyKeys (db w) \<and>
    publisherConnected w' = publisherConnected w"
proof -
  have "decimal_to P (amount_of k) = Inr (Cents k)" by (rule amount_to[OF P(1)]) (use fits in auto)
  from createSaga_runs[OF P(2) c fits(1-3) this fits(4,5), of rid] show ?thesis
    by (auto simp: stands_for_def new_transfer_def)
qed

text \<open>The wallet can be debited by \<open>k\<close> cents of its \<open>j\<close>: active, covered, below the limit.\<close>

definition can_pay :: "wallet_row \<Rightarrow> int \<Rightarrow> bool" where
  "can_pay r k \<longleftrightarrow> sound_row r \<and> row_status r = ACTIVE \<and> (\<exists>j d. row_balance r = Cents j \<and> k \<le> j \<and> j \<le> 10 ^ 15 - 10 \<and>
     row_total r = Cents d \<and> d + k \<le> 10 ^ 15 - 10 \<and>
     (case row_limit r of None \<Rightarrow> True | Some l \<Rightarrow> \<exists>c. l = Cents c \<and> d + k < c))"

definition can_receive :: "wallet_row \<Rightarrow> int \<Rightarrow> bool" where
  "can_receive r k \<longleftrightarrow> sound_row r \<and> row_status r = ACTIVE \<and> (\<exists>j. row_balance r = Cents j \<and> j + k \<le> 10 ^ 15 - 10)"

lemma debit_row_balance:
  assumes P: "decimal_column P" and b: "balance v = js_sub (amount_of j) (amount_of k)" and st: "stored P v r1"
    and k: "0 < k" "k \<le> j" "j \<le> 10 ^ 15 - 10"
  shows "row_balance r1 = Cents (j - k)"
proof -
  have "decimal_to P (balance v) = Inr (Cents (j - k))"
    unfolding b amount_of_def by (rule decimal_sub[OF P]) (use k in auto)
  then show ?thesis using st by (auto simp: stored_def)
qed

lemma debit_calm:
  assumes P: "decimal_column P" and c: "calm w" "0 < maxRetries C"
    and row: "wallets (db w) f = Some r" "length f \<le> 255" "can_pay r k" and k: "0 < k"
    and x: "sagas (db w) s = Some x" "s \<noteq> []" "saga_fits x" "transfer_of_row x = new_transfer f g k"
    and saga: "stands_for saga s (new_transfer f g k)"
  shows "\<exists>r1 x1 w'. debitFromSender P C saga w = (Ok (), w') \<and> stepped f r1 s x1 w w' \<and> saga_fits x1 \<and>
    transfer_of_row x1 = (new_transfer f g k)\<lparr>tr_state := DEBITED\<rparr> \<and> cents (row_balance r1) = cents (row_balance r) - k"
proof -
  obtain j d where jd: "row_balance r = Cents j" "k \<le> j" "j \<le> 10 ^ 15 - 10" "row_total r = Cents d" "d + k \<le> 10 ^ 15 - 10"
      "case row_limit r of None \<Rightarrow> True | Some l \<Rightarrow> \<exists>c. l = Cents c \<and> d + k < c" and r: "sound_row r" "row_status r = ACTIVE"
    using row(3) by (auto simp: can_pay_def)
  obtain v where v: "wallet_withdraw (clock w) (clock w) (amount_of k) (wallet_of_row f r) = (Ok (), v)" "wallet_id v = f" "savable P v"
    and b: "balance v = js_sub (amount_of j) (amount_of k)"
    using withdraw_op_calm[OF P r row(2) jd(1) k jd(2-6)] by blast
  have xs: "srow_from x = f" "srow_to x = g" "cents (srow_amount x) = k" "srow_state x = PENDING"
    using x(4) by (simp_all add: transfer_of_row_def new_transfer_def)
  let ?y = "(saga_of_row s x)\<lparr>saga_state := DEBITED\<rparr>"
  have y: "markAsDebited (saga_of_row s x) = (Ok (), ?y)" "saga_id ?y = s"
    using xs(4) by (simp_all add: run_simps saga_of_row_def)
  obtain x1 where x1: "row_of_saga P (clock w) (Some x) ?y = Inr x1" "saga_fits x1" "srow_state x1 = DEBITED"
      "srow_from x1 = srow_from x" "srow_to x1 = srow_to x" "srow_amount x1 = srow_amount x"
    using saga_fits_save[OF P x(3), of ?y "clock w" "Some x"] by (auto simp: saga_of_row_def)
  have t: "transfer_of_row x1 = (new_transfer f g k)\<lparr>tr_state := DEBITED\<rparr>"
    using x1 xs by (simp add: transfer_of_row_def new_transfer_def)
  have ids: "saga_id saga = s" "fromWalletId saga = f" "saga_amount saga = amount_of k"
    using saga by (simp_all add: stands_for_def new_transfer_def)
  have kk: "k \<le> 10 ^ 15" using jd(2,3) by auto
  have row1: "cents (row_balance r1) = cents (row_balance r) - k" if "stored P v r1" for r1
    using debit_row_balance[OF P b that k jd(2,3)] jd(1) by simp
  show ?thesis
    using step_calm[where operation = "\<lambda>now. wallet_withdraw now now (amount_of k)" and upd = markAsDebited, OF loggable_amount[OF P k kk] c row(1,2) v x(1,2) y x1(1)]
      x1(2) t row1 unfolding debitFromSender_def ids by blast
qed

text \<open>A credited row is again one that can be credited.\<close>

lemma credit_row_sound:
  assumes P: "decimal_column P" and op: "wallet_credit (amount_of k) (wallet_of_row i r) = (Ok (), v)" and st: "stored P v r1"
    and r: "sound_row r" "row_balance r = Cents j" and k: "0 < k" "j + k \<le> 10 ^ 15 - 10"
  shows "sound_row r1 \<and> row_status r1 = ACTIVE \<and> row_balance r1 = Cents (j + k)"
proof -
  have v: "status v = ACTIVE" "balance v = js_add (decimal_from (Cents j)) (decimal_from (Cents k))"
      "dailyWithdrawalTotal v = decimal_from (row_total r)" "currency v = row_currency r"
      "dailyWithdrawalLimit v = map_option decimal_from (row_limit r)"
    using op r(2) by (auto simp: run_simps wallet_of_row_def amount_of_def simp del: decimal_from.simps split: if_splits)
  obtain d where d: "row_total r = Cents d" "0 \<le> d" "d \<le> 10 ^ 15" and j: "0 \<le> j" using r by (auto simp: sound_row_def)
  have "decimal_to P (balance v) = Inr (Cents (j + k))"
    unfolding v(2) by (rule decimal_add[OF P]) (use j k in auto)
  moreover have "decimal_to P (dailyWithdrawalTotal v) = Inr (Cents d)"
    unfolding v(3) d(1) by (rule decimal_roundtrip[OF P d(2,3)])
  moreover have "row_limit r1 = row_limit r"
  proof (cases "row_limit r")
    case None
    then show ?thesis using st v(5) by (auto simp: stored_def decimal_to_nullable_def)
  next
    case (Some l)
    then obtain c where c: "l = Cents c" "0 \<le> c" "c \<le> 10 ^ 15" using r(1) by (auto simp: sound_row_def)
    then show ?thesis
      using st v(5) Some decimal_roundtrip[OF P c(2,3)]
      by (auto simp: stored_def decimal_to_nullable_def simp del: decimal_from.simps split: sum.splits)
  qed
  ultimately have "row_balance r1 = Cents (j + k)" "row_total r1 = Cents d" "row_limit r1 = row_limit r"
      "row_currency r1 = row_currency r" "row_status r1 = ACTIVE"
    using st v(1,4) by (auto simp: stored_def)
  then show ?thesis using r(1) d j k by (auto simp: sound_row_def)
qed

lemma credit_calm:
  assumes P: "decimal_column P" and c: "calm w" "0 < maxRetries C"
    and row: "wallets (db w) g = Some r" "length g \<le> 255" "can_receive r k" and k: "0 < k" "k \<le> 10 ^ 15 - 10"
    and x: "sagas (db w) s = Some x" "s \<noteq> []" "saga_fits x"
      "transfer_of_row x = (new_transfer f g k)\<lparr>tr_state := DEBITED\<rparr>"
    and saga: "stands_for saga s (new_transfer f g k)"
  shows "\<exists>r1 x1 w'. creditToReceiver P C saga recovered w = (Ok (), w') \<and> stepped g r1 s x1 w w' \<and>
    srow_state x1 = COMPLETED \<and> saga_fits x1 \<and> srow_to x1 = srow_to x \<and> sound_row r1 \<and> row_status r1 = ACTIVE \<and>
    cents (row_balance r1) = cents (row_balance r) + k"
proof -
  obtain j where j: "row_balance r = Cents j" "j + k \<le> 10 ^ 15 - 10" and r: "sound_row r" "row_status r = ACTIVE"
    using row(3) by (auto simp: can_receive_def)
  obtain v where v: "wallet_credit (amount_of k) (wallet_of_row g r) = (Ok (), v)" "wallet_id v = g" "savable P v"
    using deposit_op_calm[OF P r row(2) j(1) k(1) j(2)] by blast
  have xs: "srow_state x = DEBITED" using x(4) by (simp add: transfer_of_row_def new_transfer_def)
  let ?y = "(saga_of_row s x)\<lparr>saga_state := COMPLETED\<rparr>"
  have y: "markAsCompleted (saga_of_row s x) = (Ok (), ?y)" "saga_id ?y = s"
    using xs by (simp_all add: run_simps saga_of_row_def)
  obtain x1 where x1: "row_of_saga P (clock w) (Some x) ?y = Inr x1" "srow_state x1 = COMPLETED" "saga_fits x1" "srow_to x1 = srow_to x"
    using saga_fits_save[OF P x(3), of ?y "clock w" "Some x"] by (auto simp: saga_of_row_def)
  have ids: "saga_id saga = s" "toWalletId saga = g" "saga_amount saga = amount_of k"
    using saga by (simp_all add: stands_for_def new_transfer_def)
  have kk: "k \<le> 10 ^ 15" using k(2) by auto
  have row1: "sound_row r1 \<and> row_status r1 = ACTIVE \<and> cents (row_balance r1) = cents (row_balance r) + k" if "stored P v r1" for r1
    using credit_row_sound[OF P v(1) that r(1) j(1) k(1) j(2)] j(1) by simp
  show ?thesis
    using step_calm[where operation = "\<lambda>now. wallet_credit (amount_of k)" and upd = markAsCompleted, OF loggable_amount[OF P k(1) kk] c row(1,2) v x(1,2) y x1(1)] x1(2-4)
      row1 unfolding creditToReceiver_def ids by blast
qed

section \<open>The whole transfer\<close>

lemma runInTransaction_calm:
  assumes "calm w" "operation (w\<lparr>tx := Some (db w)\<rparr>) = (Ok a, w\<lparr>tx := Some t\<rparr>)"
  shows "runInTransaction operation w = (Ok a, w\<lparr>db := t, tx := None\<rparr>)"
proof -
  let ?w = "w\<lparr>tx := Some (db w)\<rparr>"
  have body: "await operation (\<lambda>result. await commitTransaction (\<lambda>_. ret result)) ?w = (Ok a, w\<lparr>db := t, tx := None\<rparr>)"
    using assms by (simp add: await_run ret_run calm_runs)
  have "try_finally (try_catch (await operation (\<lambda>result. await commitTransaction (\<lambda>_. ret result)))
      (\<lambda>e. await rollbackTransaction (\<lambda>_. throw e))) release ?w = (Ok a, w\<lparr>db := t, tx := None\<rparr>)"
    by (rule try_finally_run(1), rule try_catch_run(1), rule body) (use assms(1) in \<open>simp add: calm_runs\<close>)
  then show ?thesis using assms(1) by (simp add: runInTransaction_def await_run calm_runs)
qed

lemma getOrCreate_existing_calm:
  "calm w \<Longrightarrow> wallets (db w) i = Some r \<Longrightarrow> getOrCreate P i cur False w = (Ok (wallet_of_row i r), w\<lparr>tx := None\<rparr>)"
  using runInTransaction_calm[of w "getOrCreate_execute P i cur" "wallet_of_row i r" "db w"]
    getOrCreate_calm[of "w\<lparr>tx := Some (db w)\<rparr>" "db w" i r P cur]
  by (simp add: getOrCreate_def)

text \<open>The key can be stored: it is not given, or fits its column.\<close>

definition storable :: "string option \<Rightarrow> bool" where
  "storable rid \<longleftrightarrow> (given rid \<longrightarrow> length (the rid) \<le> 255)"

lemma keep_response_calm:
  "calm w \<Longrightarrow> storable rid \<Longrightarrow> \<exists>w'. run_if (given rid)
    (idempotency_save \<lparr>key_requestId = the rid, key_response = j\<rparr> False) w = (Ok (), w') \<and>
    wallets (db w') = wallets (db w) \<and> sagas (db w') = sagas (db w) \<and> stored_response rid (db w') = (if given rid then Some (jsonb j) else None)"
  using repository_calm[of w "save_idempotency_key \<lparr>key_requestId = the rid, key_response = j\<rparr>" "()"]
  by (cases "given rid") (auto simp: run_if_run idempotency_save_def sql_def save_idempotency_key_def storable_def
      stored_response_def varchar_def ret_run)

text \<open>Up to the save of the key, the calm transfer, from the saga's creation.\<close>

lemma transfer_until_key:
  assumes P: "decimal_column P" "distinct_uuids P" and c: "calm w" "0 < maxRetries C"
    and f: "wallets (db w) f = Some rf" "can_pay rf k" "length f \<le> 255"
    and g: "wallets (db w) g = Some rg" "can_receive rg k" "length g \<le> 255"
    and ne: "f \<noteq> g" "row_currency rg = row_currency rf" and k: "0 < k" "k \<le> 10 ^ 15 - 10"
  shows "\<exists>saga x w1 w3. createSaga P f g (amount_of k) (row_currency rf) rid (w\<lparr>tx := None\<rparr>) = (Ok saga, w1) \<and>
    start_transfer P C f g (amount_of k) rid w = try_catch
      (await (run_if (given rid) (idempotency_save \<lparr>key_requestId = the rid,
          key_response = transfer_result (saga_id saga) f g (amount_of k)\<rparr> False)) (\<lambda>_.
        ret (transfer_result (saga_id saga) f g (amount_of k)))) (handle_failure P C saga) w3 \<and>
    calm w3 \<and> idempotencyKeys (db w3) = idempotencyKeys (db w) \<and>
    sagas (db w3) (saga_id saga) = Some x \<and> srow_state x = COMPLETED"
proof -
  let ?w = "w\<lparr>tx := None\<rparr>"
  have cur: "length (row_currency rf) \<le> 3" using f(2) by (auto simp: can_pay_def sound_row_def)
  obtain saga x w1 where w1: "createSaga P f g (amount_of k) (row_currency rf) rid ?w = (Ok saga, w1)" "calm w1"
      "stands_for saga (saga_id saga) (new_transfer f g k)" "saga_id saga \<noteq> []" "saga_fits x"
      "transfer_of_row x = new_transfer f g k" "wallets (db w1) = wallets (db w)"
      "sagas (db w1) = (sagas (db w))(saga_id saga \<mapsto> x)" "idempotencyKeys (db w1) = idempotencyKeys (db w)"
    using createSaga_calm[OF P _ f(3) g(3) cur k, of ?w rid] c(1) by auto
  let ?s = "saga_id saga"
  obtain r1 x1 w2 where w2: "debitFromSender P C saga w1 = (Ok (), w2)" "stepped f r1 ?s x1 w1 w2" "saga_fits x1"
      "transfer_of_row x1 = (new_transfer f g k)\<lparr>tr_state := DEBITED\<rparr>"
    using debit_calm[OF P(1) w1(2) c(2) _ f(3,2) k(1) _ w1(4,5,6,3)] w1(7,8) f(1) by auto
  have c2: "calm w2" "wallets (db w2) g = Some rg" "sagas (db w2) ?s = Some x1"
    using w2(2) w1(7) g(1) ne(1) by (auto simp: stepped_def)
  obtain r2 x2 w3 where w3: "creditToReceiver P C saga False w2 = (Ok (), w3)" "stepped g r2 ?s x2 w2 w3" "srow_state x2 = COMPLETED"
    using credit_calm[OF P(1) c2(1) c(2) c2(2) g(3,2) k c2(3) w1(4) w2(3,4) w1(3)] by blast
  have run: "run_saga P C saga f g (amount_of k) rid w1 = await (run_if (given rid) (idempotency_save \<lparr>key_requestId = the rid,
      key_response = transfer_result ?s f g (amount_of k)\<rparr> False)) (\<lambda>_. ret (transfer_result ?s f g (amount_of k))) w3"
    unfolding run_saga_def Let_def
    by (rule trans[OF await_run(1)], rule w2(1), rule await_run(1), rule w3(1))
  have "start_transfer P C f g (amount_of k) rid w =
      try_catch (run_saga P C saga f g (amount_of k) rid) (handle_failure P C saga) w1"
    using ne findById_calm[OF c(1), of f] f(1) getOrCreate_existing_calm[OF c(1) g(1), of P "row_currency rf"] w1(1)
    by (simp add: start_transfer_def await_run wallet_of_row_def)
  then show ?thesis
    using w3(2,3) w2(2) w1(1,9) unfolding try_catch_def run
    by (intro exI[of _ saga] exI[of _ x2] exI[of _ w1] exI[of _ w3]) (simp add: stepped_def)
qed

lemma executeTransfer_calm:
  assumes P: "decimal_column P" "distinct_uuids P" and c: "calm w" "0 < maxRetries C"
    and rid: "stored_response rid (db w) = None" "storable rid"
    and f: "wallets (db w) f = Some rf" "can_pay rf k" "length f \<le> 255"
    and g: "wallets (db w) g = Some rg" "can_receive rg k" "length g \<le> 255"
    and ne: "f \<noteq> g" "row_currency rg = row_currency rf" and k: "0 < k" "k \<le> 10 ^ 15 - 10"
  shows "\<exists>s w'. executeTransfer P C f g (amount_of k) rid w = (Ok (transfer_result s f g (amount_of k)), w') \<and>
    stored_response rid (db w') = (if given rid then Some (jsonb (transfer_result s f g (amount_of k))) else None)"
proof -
  obtain saga w3 where run: "start_transfer P C f g (amount_of k) rid w = try_catch
      (await (run_if (given rid) (idempotency_save \<lparr>key_requestId = the rid,
          key_response = transfer_result (saga_id saga) f g (amount_of k)\<rparr> False)) (\<lambda>_.
        ret (transfer_result (saga_id saga) f g (amount_of k)))) (handle_failure P C saga) w3" and w3: "calm w3"
    using transfer_until_key[OF P c f g ne k, of rid] by blast
  let ?r = "transfer_result (saga_id saga) f g (amount_of k)"
  obtain w4 where w4: "run_if (given rid) (idempotency_save \<lparr>key_requestId = the rid, key_response = ?r\<rparr> False) w3 = (Ok (), w4)"
      "stored_response rid (db w4) = (if given rid then Some (jsonb ?r) else None)"
    using keep_response_calm[OF w3 rid(2), of ?r] by blast
  have "start_transfer P C f g (amount_of k) rid w = (Ok ?r, w4)"
    unfolding run by (simp add: try_catch_run await_run w4(1) ret_run)
  moreover have "(if given rid then findByRequestId (the rid) else ret None) w = (Ok None, w)"
    using rid(1) c(1) by (auto simp: stored_response_def findByRequestId_calm ret_run)
  ultimately show ?thesis using w4(2) by (auto simp: executeTransfer_def await_run simp del: if_split_asm)
qed

text \<open>The balances after a completed transfer between two wallets.\<close>

lemma completed_balances:
  assumes "transfer_outcome f g k (ledger_of t) (Some COMPLETED) (ledger_of t')" "f \<noteq> g"
    and "balance_cents t f = Some a" "balance_cents t g = Some b"
  shows "balance_cents t' = (balance_cents t)(f \<mapsto> a - k, g \<mapsto> b + k)"
proof
  fix i
  show "balance_cents t' i = ((balance_cents t)(f \<mapsto> a - k, g \<mapsto> b + k)) i"
    using assms by (auto simp: transfer_outcome_def moved_def new_transfer_def with_receiver_def option.map_ident)
qed

text \<open>C23: When every call succeeds, a transfer that the sender can pay and the receiver can receive
  resolves with the saga's identifier, moves exactly \<open>k\<close> cents from the one wallet to the other
  and touches no other balance; and if the request had a key, its response is stored under it.\<close>

theorem transfer_succeeds:
  assumes "decimal_column P" and "distinct_uuids P" and "sound_tables P (db w)" and "calm w" and "0 < maxRetries C"
    and "stored_response rid (db w) = None" and "storable rid"
    and "wallets (db w) f = Some rf" and "can_pay rf k" and "length f \<le> 255"
    and "wallets (db w) g = Some rg" and "can_receive rg k" and "length g \<le> 255"
    and "f \<noteq> g" and "row_currency rg = row_currency rf" and "0 < k" and "k \<le> 10 ^ 15 - 10"
  shows "\<exists>s w'. executeTransfer P C f g (amount_of k) rid w = (Ok (transfer_result s f g (amount_of k)), w') \<and>
    balance_cents (db w') = (balance_cents (db w))(f \<mapsto> cents (row_balance rf) - k, g \<mapsto> cents (row_balance rg) + k) \<and>
    stored_response rid (db w') = (if given rid then Some (jsonb (transfer_result s f g (amount_of k))) else None)"
proof -
  obtain s w' where run: "executeTransfer P C f g (amount_of k) rid w = (Ok (transfer_result s f g (amount_of k)), w')"
      and key: "stored_response rid (db w') = (if given rid then Some (jsonb (transfer_result s f g (amount_of k))) else None)"
    using executeTransfer_calm[OF assms(1,2,4-17)] by blast
  have "transfer_post P f g k (db w) (Ok (transfer_result s f g (amount_of k))) (db w')"
    using outcomesD[OF executeTransfer_post[OF assms(1-3,16,17)] refl run] assms(6) by simp
  then have o: "transfer_outcome f g k (ledger_of (db w)) (Some COMPLETED) (ledger_of (db w'))"
    by (auto simp: transfer_post_def)
  have b: "balance_cents (db w) f = Some (cents (row_balance rf))" "balance_cents (db w) g = Some (cents (row_balance rg))"
    using assms(8,11) by (simp_all add: balance_cents_def)
  have "balance_cents (db w') = (balance_cents (db w))(f \<mapsto> cents (row_balance rf) - k, g \<mapsto> cents (row_balance rg) + k)"
    by (rule completed_balances[OF o assms(14) b])
  then show ?thesis using run key by blast
qed

text \<open>When every call succeeds, the recovery of a debited saga whose receiver can receive completes
  the transfer: the receiver gets exactly the cents the sender was debited.\<close>

theorem recovery_completes:
  assumes "decimal_column P" and "distinct_uuids P" and "sound_tables P (db w)" and "calm w" and "0 < maxRetries C"
    and "sagas (db w) s = Some x" and "srow_state x = DEBITED" and "saga_fits x"
    and "wallets (db w) (srow_to x) = Some rg" and "can_receive rg (cents (srow_amount x))" and "length (srow_to x) \<le> 255"
  shows "\<exists>w'. recoverSaga P C s w = (Ok (), w') \<and> map_option srow_state (sagas (db w') s) = Some COMPLETED \<and>
    balance_cents (db w') = (balance_cents (db w))(srow_to x \<mapsto> cents (row_balance rg) + cents (srow_amount x))"
proof -
  let ?k = "cents (srow_amount x)" and ?x = "transfer_of_row x"
  have s: "s \<noteq> []" using assms(2,3,6) unfolding sound_tables_def distinct_uuids_def by metis
  have tx: "transfers (ledger_of (db w)) s = Some ?x" using assms(6) by simp
  have c: "carries P (db w) s ?x (db w)" by (rule stage_carries, rule stage_start[OF assms(3) tx])
  have x: "?x = (new_transfer (srow_from x) (srow_to x) ?k)\<lparr>tr_state := DEBITED\<rparr>"
    using assms(7) by (simp add: transfer_of_row_def new_transfer_def)
  have st: "stands_for (saga_of_row s x) s ?x" using row_stands_for[OF c assms(6)] .
  then have st': "stands_for (saga_of_row s x) s (new_transfer (srow_from x) (srow_to x) ?k)"
    using x by (simp add: stands_for_def new_transfer_def)
  have k: "0 < ?k" "?k \<le> 10 ^ 15 - 10" using transfer_amount[OF assms(3,6)] by auto
  obtain r1 x1 w' where w': "creditToReceiver P C (saga_of_row s x) True w = (Ok (), w')" "stepped (srow_to x) r1 s x1 w w'"
      "srow_state x1 = COMPLETED"
    using credit_calm[OF assms(1,4,5,9,11,10) k assms(6) s assms(8) x st'] by blast
  have find: "saga_findById s w = (Ok (Some (saga_of_row s x)), w)"
    using repository_calm[of w "find_saga s" "Some (saga_of_row s x)" "db w"] assms(4,6) by (simp add: saga_findById_def)
  have run: "recoverSaga P C s w = (Ok (), w')"
    using find w'(1) assms(7) by (simp add: recoverSaga_def await_run try_catch_run saga_of_row_def)
  have "stage P (db w) s ?x COMPLETED (db w')"
    using outcomesD[OF creditToReceiver_outcomes[OF assms(1) s st] c w'(1)] by simp
  moreover have "balance_cents (db w) (srow_to x) = Some (cents (row_balance rg))"
    using assms(9) by (simp add: balance_cents_def)
  ultimately have "balance_cents (db w') i = ((balance_cents (db w))(srow_to x \<mapsto> cents (row_balance rg) + ?k)) i" for i
    using assms(6,7) by (auto simp: stage_def settled_def moved_def transfer_of_row_def option.map_ident)
  then have "balance_cents (db w') = (balance_cents (db w))(srow_to x \<mapsto> cents (row_balance rg) + ?k)"
    by (rule ext)
  then show ?thesis using run w'(2,3) by (simp add: stepped_def)
qed

section \<open>Concrete runs\<close>

lemma total_of_pair: "a \<noteq> b \<Longrightarrow> total_of f [a \<mapsto> x, b \<mapsto> y] = f x + f y"
  using total_of_update[of "[a \<mapsto> x]" f b y] total_of_update[of Map.empty f a x] by (simp add: total_of_def)

lemma sample_ledger:
  "ledger_of sample_tables = \<lparr>balances = [''a'' \<mapsto> 1000, ''b'' \<mapsto> 0], transfers = Map.empty\<rparr>"
  by (auto simp: ledger_of_def balance_cents_def sample_tables_def empty_tables_def sample_row_def fun_eq_iff)

lemma sample_sound [simp]: "sound_tables P sample_tables"
  unfolding sound_tables_def sound_ledger_def money_def sample_ledger
  by (auto simp: total_of_pair total_of_def sample_tables_def empty_tables_def split: if_splits)

lemma sample_can [simp]: "can_pay (sample_row 1000) 100" "can_receive (sample_row j) 100 \<longleftrightarrow> sound_row (sample_row j) \<and> j \<le> 999999999999890"
  by (auto simp: can_pay_def can_receive_def)

lemma sample_response [simp]: "stored_response rid sample_tables = None" "storable (Some ''r'')" "storable None"
  by (auto simp: stored_response_def storable_def given_def)

lemma sample_transfer:
  "\<exists>s w'. executeTransfer postgres default_config ''a'' ''b'' (amount_of 100) (Some ''r'') sample_world =
    (Ok (transfer_result s ''a'' ''b'' (amount_of 100)), w') \<and>
    stored_response (Some ''r'') (db w') = Some (jsonb (transfer_result s ''a'' ''b'' (amount_of 100)))"
  using executeTransfer_calm[of postgres sample_world default_config "Some ''r''" "''a''" "sample_row 1000" 100 "''b''" "sample_row 0"]
  by (auto simp: default_config_def given_def)

text \<open>The same two wallets after a transfer of a dollar died between debit and credit.\<close>

definition debited_row :: saga_row where
  "debited_row = \<lparr>srow_from = ''a'', srow_to = ''b'', srow_amount = Cents 100, srow_currency = ''USD'',
     srow_state = DEBITED, srow_metadata = JNull, srow_createdAt = 0, srow_updatedAt = 0\<rparr>"

definition debited_tables :: tables where
  "debited_tables = sample_tables\<lparr>wallets := [''a'' \<mapsto> sample_row 900, ''b'' \<mapsto> sample_row 0],
     sagas := [''s'' \<mapsto> debited_row], uuidCount := 1\<rparr>"

definition debited_world :: world where
  "debited_world = new_world debited_tables 0 []"

lemma debited_simps [simp]:
  "calm debited_world" "db debited_world = debited_tables" "sagas debited_tables ''s'' = Some debited_row"
  "wallets debited_tables ''b'' = Some (sample_row 0)" "wallets debited_tables ''a'' = Some (sample_row 900)"
  "srow_state debited_row = DEBITED" "srow_from debited_row = ''a''" "srow_to debited_row = ''b''"
  "srow_amount debited_row = Cents 100" "saga_fits debited_row"
  by (simp_all add: debited_world_def debited_tables_def debited_row_def new_world_def calm_def saga_fits_def)

lemma debited_balance [simp]: "balance_cents debited_tables ''a'' = Some 900"
  by (simp add: balance_cents_def)

lemma default_retries [simp]: "maxRetries default_config = 10"
  by (simp add: default_config_def)

lemma debited_ledger:
  "ledger_of debited_tables = \<lparr>balances = [''a'' \<mapsto> 900, ''b'' \<mapsto> 0],
     transfers = [''s'' \<mapsto> \<lparr>tr_from = ''a'', tr_to = ''b'', tr_cents = 100, tr_state = DEBITED\<rparr>]\<rparr>"
  by (auto simp: ledger_of_def balance_cents_def debited_tables_def fun_eq_iff transfer_of_row_def)

lemma debited_sound [simp]: "sound_tables postgres debited_tables"
proof -
  have "total_of in_flight [''s'' \<mapsto> \<lparr>tr_from = ''a'', tr_to = ''b'', tr_cents = 100, tr_state = DEBITED\<rparr>] = 100"
    by (simp add: total_of_def in_flight_def)
  then show ?thesis
    unfolding sound_tables_def sound_ledger_def money_def debited_ledger
    by (auto simp: total_of_pair debited_tables_def postgres_def split: if_splits)
qed

abbreviation sample_call :: "world \<Rightarrow> (error, json) outcome \<times> world" where
  "sample_call \<equiv> executeTransfer postgres default_config ''a'' ''b'' (amount_of 100) (Some ''r'')"

lemma sample_run: "transfers_run postgres default_config sample_world (snd (sample_call sample_world))"
  by (rule transfers_run.a_transfer[OF transfers_run.nothing _ _ surjective_pairing, of 100]) simp_all

lemma debited_run:
  "transfers_run postgres default_config debited_world (snd (recoverSaga postgres default_config ''s'' debited_world))"
  by (rule transfers_run.a_recovery[OF transfers_run.nothing surjective_pairing])

theorem transfers_refine_protocol_witness:
  "ledger_run (ledger_of sample_tables) (ledger_of (db (snd (sample_call sample_world))))"
  using transfers_refine_protocol[OF sample_run] by simp

theorem transfers_conserve_money_witness:
  "money (ledger_of (db (snd (sample_call sample_world)))) = 1000"
  using transfers_conserve_money[OF sample_run]
  by (simp add: sample_ledger money_def total_of_pair) (simp add: total_of_def)

theorem transfer_all_or_nothing_witness:
  "transfer_outcome ''a'' ''b'' 100 (ledger_of sample_tables) (Some COMPLETED) (ledger_of (db (snd (sample_call sample_world))))"
proof -
  obtain j w' where run: "sample_call sample_world = (Ok j, w')" using sample_transfer by blast
  show ?thesis
    using transfer_all_or_nothing[of postgres sample_world 100 "Some ''r''" default_config "''a''" "''b''" "Ok j" w'] run by auto
qed

theorem transfer_succeeds_witness:
  "\<exists>s w'. sample_call sample_world = (Ok (transfer_result s ''a'' ''b'' (amount_of 100)), w') \<and>
    balance_cents (db w') ''a'' = Some 900 \<and> balance_cents (db w') ''b'' = Some 100"
  using transfer_succeeds[of postgres sample_world default_config "Some ''r''" "''a''" "sample_row 1000" 100 "''b''" "sample_row 0"]
  by (auto simp: default_config_def)

theorem transfer_replays_witness:
  "db (snd (sample_call (snd (sample_call sample_world)))) = db (snd (sample_call sample_world))"
proof -
  obtain j w' where run: "sample_call sample_world = (Ok j, w')" and key: "stored_response (Some ''r'') (db w') = Some (jsonb j)"
    using sample_transfer by blast
  have "sound_tables postgres (db w')"
    using transfer_follows[of postgres sample_world 100 default_config "''a''" "''b''" "Some ''r''" "Ok j" w'] run
    by (simp add: follows_def)
  then show ?thesis
    using transfer_replays[of postgres w' 100 "Some ''r''" "jsonb j" default_config "''a''" "''b''" "fst (sample_call w')"] key run
    by simp
qed

lemma debited_recovery: "\<exists>w'. recoverSaga postgres default_config ''s'' debited_world = (Ok (), w')"
proof -
  have "carries postgres debited_tables ''s'' (transfer_of_row debited_row) debited_tables"
    by (rule stage_carries[OF stage_start]) simp_all
  from row_stands_for[OF this]
  have st: "stands_for (saga_of_row ''s'' debited_row) ''s'' (new_transfer ''a'' ''b'' 100)"
    by (simp add: stands_for_def transfer_of_row_def new_transfer_def)
  have x: "transfer_of_row debited_row = (new_transfer ''a'' ''b'' 100)\<lparr>tr_state := DEBITED\<rparr>"
    by (simp add: transfer_of_row_def new_transfer_def)
  obtain w' where "creditToReceiver postgres default_config (saga_of_row ''s'' debited_row) True debited_world = (Ok (), w')"
    using credit_calm[of postgres debited_world default_config "''b''" "sample_row 0" 100 "''s''" debited_row "''a''", OF _ _ _ _ _ _ _ _ _ _ _ x st]
    by (auto simp: default_config_def)
  moreover have "saga_findById ''s'' debited_world = (Ok (Some (saga_of_row ''s'' debited_row)), debited_world)"
    using repository_calm[of debited_world "find_saga ''s''" "Some (saga_of_row ''s'' debited_row)" debited_tables]
    by (simp add: saga_findById_def)
  ultimately show ?thesis by (simp add: recoverSaga_def await_run try_catch_run saga_of_row_def)
qed

theorem recovery_settles_witness:
  "\<exists>st. settled (ledger_of debited_tables) ''s'' ((transfer_of_row debited_row)\<lparr>tr_state := st\<rparr>)
      (ledger_of (db (snd (recoverSaga postgres default_config ''s'' debited_world)))) \<and>
    (st = COMPLETED \<or> st = COMPENSATED)"
proof -
  obtain w' where run: "recoverSaga postgres default_config ''s'' debited_world = (Ok (), w')"
    using debited_recovery by blast
  show ?thesis
    using recovery_settles[of postgres debited_world "''s''" debited_row default_config "Ok ()" w'] run by simp
qed

theorem recovery_completes_witness:
  "\<exists>w'. recoverSaga postgres default_config ''s'' debited_world = (Ok (), w') \<and>
    balance_cents (db w') ''a'' = Some 900 \<and> balance_cents (db w') ''b'' = Some 100"
  using recovery_completes[of postgres debited_world default_config "''s''" debited_row "sample_row 0"]
  by auto

theorem saga_moves_along_state_machine_witness:
  "\<exists>y. sagas (db (snd (recoverSaga postgres default_config ''s'' debited_world))) ''s'' = Some y \<and>
    saga_moves\<^sup>*\<^sup>* DEBITED (srow_state y) \<and> srow_amount y = Cents 100"
  using saga_moves_along_state_machine[where s = "''s''" and x = debited_row,
    OF debited_run]
  by auto

end
