(* ===== verification/SagaRecovery.thy ===== *)
theory SagaRecovery imports TransferRuns
begin

text \<open>
  The recovery worker, \<open>src/workers/saga-recovery.service.ts\<close>: every ten seconds it resumes
  up to ten sagas that have been debited for longer than the configured threshold. The worker never
  rejects, keeps to the protocol of transfers under every script of the environment and always
  clears its flag (\<open>worker_follows_protocol\<close>), which the locale \<open>recovery_job\<close> has from what it relies on; when every call succeeds it completes the whole
  batch (\<open>worker_completes_batch\<close>).
\<close>

section \<open>The job\<close>

definition set_recovering :: "bool \<Rightarrow> unit handler" where
  "set_recovering b = modify (\<lambda>w. w\<lparr>isRecovering := b\<rparr>)"

definition is_stuck :: "app_config \<Rightarrow> int \<Rightarrow> transfer_saga \<Rightarrow> bool" where
  "is_stuck C now saga \<longleftrightarrow> saga_state saga = DEBITED \<and>
     (case saga_updatedAt saga of None \<Rightarrow> False | Some t \<Rightarrow> t < now - int (sagaStuckThreshold C))"

definition recover_one :: "platform \<Rightarrow> app_config \<Rightarrow> transfer_saga \<Rightarrow> unit handler" where
  "recover_one P C saga = try_catch (recoverSaga P C (saga_id saga)) (\<lambda>_. ret ())"

definition recovery_body :: "platform \<Rightarrow> app_config \<Rightarrow> unit handler" where
  "recovery_body P C = await get_state (\<lambda>w.
     await (saga_find P (is_stuck C (clock w)) 10) (\<lambda>stuckSagas.
     if stuckSagas = [] then ret () else for_each stuckSagas (recover_one P C)))"

definition processStuckSagas :: "platform \<Rightarrow> app_config \<Rightarrow> unit handler" where
  "processStuckSagas P C = await get_state (\<lambda>w.
     if isRecovering w then ret ()
     else await (set_recovering True) (\<lambda>_.
       try_finally (try_catch (recovery_body P C) (\<lambda>_. ret ())) (set_recovering False)))"

definition recoverStuckSagas :: "platform \<Rightarrow> app_config \<Rightarrow> string \<Rightarrow> unit handler" where
  "recoverStuckSagas P C nodeEnv = (if nodeEnv = ''test'' then ret () else processStuckSagas P C)"

section \<open>Under every script\<close>

lemma for_each_outcomes:
  assumes "\<And>x. outcomes I (body x) (\<lambda>r w. I w \<and> (\<forall>e. r \<noteq> Throw e))"
  shows "outcomes I (for_each xs body) (\<lambda>r w. I w \<and> (\<forall>e. r \<noteq> Throw e))"
proof (induction xs)
  case (Cons x xs)
  show ?case
    unfolding for_each.simps
    by (rule outcomes_await[OF assms]) (auto intro: outcomes_weaken[OF Cons.IH])
qed (auto intro: outcomes_ret)

lemma tables_saga_find: "obeys same_tables (saga_find P cond n)"
  by (simp add: saga_find_def step_rules)

text \<open>What the job relies on of the look-up of its batch and of the recovery of one saga: the first reads, and
  the second keeps to the protocol, where what it presupposes is given.\<close>

locale recovery_job =
  fixes P :: platform and given_that :: bool and find_batch :: "world \<Rightarrow> transfer_saga list handler"
    and recover :: "string \<Rightarrow> unit handler"
  assumes batch: "obeys same_tables (find_batch v)"
    and recover: "given_that \<Longrightarrow> sound_tables P (db w) \<Longrightarrow> recover s w = (r, w') \<Longrightarrow> follows P (db w) (db w')"
begin

lemma one_outcomes:
  assumes given_that
  shows "outcomes (\<lambda>w. follows P t (db w)) (try_catch (recover s) (\<lambda>_. ret ())) (\<lambda>r w. follows P t (db w) \<and> (\<forall>e. r \<noteq> Throw e))"
proof -
  have "outcomes (\<lambda>w. follows P t (db w)) (recover s) (\<lambda>r w. follows P t (db w))"
  proof (rule outcomesI)
    fix w r w' assume f: "follows P t (db w)" and run: "recover s w = (r, w')"
    then have "sound_tables P (db w)" by (simp add: follows_def)
    then show "follows P t (db w')" using follows_trans[OF f recover[OF assms _ run]] by blast
  qed
  then show ?thesis by (rule outcomes_try_catch) (auto intro: outcomes_ret)
qed

lemma body_outcomes:
  assumes given_that
  shows "outcomes (\<lambda>w. follows P t (db w)) (await get_state (\<lambda>v. await (find_batch v) (\<lambda>sagas.
     if sagas = [] then ret () else for_each sagas (\<lambda>saga. try_catch (recover (saga_id saga)) (\<lambda>_. ret ())))))
     (\<lambda>r w. follows P t (db w))"
proof -
  have each: "outcomes (\<lambda>w. follows P t (db w)) (for_each xs (\<lambda>saga. try_catch (recover (saga_id saga)) (\<lambda>_. ret ())))
      (\<lambda>r w. follows P t (db w))" for xs
    by (rule outcomes_weaken, rule for_each_outcomes, rule one_outcomes[OF assms]) auto
  have loop: "outcomes (\<lambda>w. follows P t (db w)) (if xs = [] then ret ()
      else for_each xs (\<lambda>saga. try_catch (recover (saga_id saga)) (\<lambda>_. ret ()))) (\<lambda>r w. follows P t (db w))" for xs
    using each by (auto intro: outcomes_ret)
  show ?thesis
    by (rule outcomes_await[where M = "\<lambda>r w. follows P t (db w)"])
       (auto simp: outcomes_def get_state_def intro: outcomesD[OF outcomes_await[OF outcomes_same_tables[OF batch] loop]])
qed

lemma job_follows:
  assumes given_that "sound_tables P (db w)" "\<not> isRecovering w"
    and run: "await get_state (\<lambda>v. if isRecovering v then ret () else await (set_recovering True) (\<lambda>_.
       try_finally (try_catch (await get_state (\<lambda>v. await (find_batch v) (\<lambda>sagas.
         if sagas = [] then ret () else for_each sagas (\<lambda>saga. try_catch (recover (saga_id saga)) (\<lambda>_. ret ())))))
         (\<lambda>_. ret ())) (set_recovering False))) w = (r, w')" (is "await get_state (\<lambda>v. if _ then _ else await _ (\<lambda>_. try_finally ?body _)) w = _")
  shows "follows P (db w) (db w') \<and> (r = Crash \<or> r = Ok () \<and> \<not> isRecovering w')"
proof -
  let ?w1 = "w\<lparr>isRecovering := True\<rparr>"
  have "outcomes (\<lambda>v. follows P (db w) (db v)) ?body (\<lambda>r v. follows P (db w) (db v) \<and> (\<forall>e. r \<noteq> Throw e))"
    by (rule outcomes_try_catch[OF body_outcomes[OF assms(1)]]) (auto intro: outcomes_ret)
  moreover have "follows P (db w) (db ?w1)" using assms(2) by (simp add: follows_def run_refl)
  moreover obtain r1 w2 where b: "?body ?w1 = (r1, w2)" by fastforce
  ultimately have "follows P (db w) (db w2) \<and> (\<forall>e. r1 \<noteq> Throw e)" by (rule outcomesD)
  then have f: "follows P (db w) (db w2)" "\<forall>e. r1 \<noteq> Throw e" by blast+
  have "try_finally ?body (set_recovering False) ?w1 = (r, w')"
    using run assms(3) by (simp add: set_recovering_def await_run get_state_run modify_run)
  then show ?thesis
    using b f by (cases r1) (auto simp: try_finally_def set_recovering_def modify_def)
qed

end

interpretation worker: recovery_job P "decimal_column P \<and> distinct_uuids P" "\<lambda>w. saga_find P (is_stuck C (clock w)) 10" "recoverSaga P C"
  by unfold_locales (auto intro: tables_saga_find recovery_follows)

lemma processStuckSagas_outcomes:
  assumes "decimal_column P" "distinct_uuids P" "sound_tables P (db w)" "\<not> isRecovering w"
    and run: "processStuckSagas P C w = (r, w')"
  shows "follows P (db w) (db w') \<and> (r = Crash \<or> r = Ok () \<and> \<not> isRecovering w')"
proof -
  have one: "recover_one P C = (\<lambda>saga. try_catch (recoverSaga P C (saga_id saga)) (\<lambda>_. ret ()))"
    by (simp add: recover_one_def fun_eq_iff)
  show ?thesis
    using worker.job_follows[OF _ assms(3,4) run[unfolded processStuckSagas_def recovery_body_def one]] assms(1,2) by blast
qed

text \<open>The recovery job keeps to the transfer protocol under every script of the environment: it
  never rejects, whatever happens to the sagas of its batch it neither creates nor destroys a cent,
  and when it ends it has cleared its flag, so that the next tick runs again.\<close>

theorem worker_follows_protocol:
  assumes "decimal_column P" and "distinct_uuids P" and "sound_tables P (db w)" and "\<not> isRecovering w"
    and "processStuckSagas P C w = (r, w')"
  shows "(r = Crash \<or> r = Ok () \<and> \<not> isRecovering w') \<and>
    ledger_run (ledger_of (db w)) (ledger_of (db w')) \<and> money (ledger_of (db w')) = money (ledger_of (db w))"
  using processStuckSagas_outcomes[OF assms] assms(3) run_sound
  by (auto simp: follows_def sound_tables_def)

section \<open>When every call succeeds\<close>

text \<open>Wallets and sagas for which nothing stands in the way of a credit.\<close>

definition in_order :: "platform \<Rightarrow> tables \<Rightarrow> bool" where
  "in_order P t \<longleftrightarrow> sound_tables P t \<and>
     (\<forall>i r. wallets t i = Some r \<longrightarrow> sound_row r \<and> row_status r = ACTIVE \<and> length i \<le> 255) \<and>
     (\<forall>s x. sagas t s = Some x \<longrightarrow> saga_fits x \<and> wallets t (srow_to x) \<noteq> None)"

text \<open>One recovery in such tables completes its saga and leaves them so.\<close>

lemma recoverSaga_calm:
  assumes P: "decimal_column P" "distinct_uuids P" and c: "calm w" "0 < maxRetries C" and t: "in_order P (db w)"
    and x: "sagas (db w) s = Some x" "srow_state x = DEBITED"
  shows "\<exists>x1 w'. recoverSaga P C s w = (Ok (), w') \<and> calm w' \<and> in_order P (db w') \<and>
    sagas (db w') = (sagas (db w))(s \<mapsto> x1) \<and> srow_state x1 = COMPLETED"
proof -
  let ?k = "cents (srow_amount x)" and ?x = "transfer_of_row x"
  have sound: "sound_tables P (db w)" using t by (simp add: in_order_def)
  have s: "s \<noteq> []" using P(2) sound x(1) unfolding sound_tables_def distinct_uuids_def by metis
  have fits: "saga_fits x" using t x(1) by (simp add: in_order_def)
  obtain rg where rg: "wallets (db w) (srow_to x) = Some rg" "sound_row rg" "row_status rg = ACTIVE" "length (srow_to x) \<le> 255"
    using t x(1) unfolding in_order_def by blast
  obtain j where j: "row_balance rg = Cents j" using rg(2) by (auto simp: sound_row_def)
  have "j + ?k \<le> 10 ^ 15 - 10"
    using balance_and_transfer_bound[OF sound rg(1) j x] sound by (simp add: sound_tables_def)
  then have can: "can_receive rg ?k" using rg(2,3) j by (auto simp: can_receive_def)
  have k: "0 < ?k" "?k \<le> 10 ^ 15 - 10" using transfer_amount[OF sound x(1)] by auto
  have tx: "carries P (db w) s ?x (db w)"
    by (rule stage_carries, rule stage_start[OF sound]) (use x(1) in simp)
  have xx: "?x = (new_transfer (srow_from x) (srow_to x) ?k)\<lparr>tr_state := DEBITED\<rparr>"
    using x(2) by (simp add: transfer_of_row_def new_transfer_def)
  have "stands_for (saga_of_row s x) s (new_transfer (srow_from x) (srow_to x) ?k)"
    using row_stands_for[OF tx x(1)] by (simp add: stands_for_def xx new_transfer_def)
  then obtain r1 x1 w' where w': "creditToReceiver P C (saga_of_row s x) True w = (Ok (), w')" "stepped (srow_to x) r1 s x1 w w'"
      "srow_state x1 = COMPLETED" "saga_fits x1" "srow_to x1 = srow_to x" "sound_row r1" "row_status r1 = ACTIVE"
    using credit_calm[OF P(1) c rg(1,4) can k x(1) s fits xx] by blast
  have find: "saga_findById s w = (Ok (Some (saga_of_row s x)), w)"
    using repository_calm[of w "find_saga s" "Some (saga_of_row s x)" "db w"] c(1) x(1) by (simp add: saga_findById_def)
  have run: "recoverSaga P C s w = (Ok (), w')"
    using find w'(1) x(2) by (simp add: recoverSaga_def await_run try_catch_run saga_of_row_def)
  have "sound_tables P (db w')" using recovery_follows[OF P sound run] by (simp add: follows_def)
  then have "in_order P (db w')"
    using t w' rg(4) unfolding in_order_def stepped_def by (auto split: if_splits)
  then show ?thesis using run w' unfolding stepped_def by blast
qed

lemma recover_all_calm:
  assumes P: "decimal_column P" "distinct_uuids P" "0 < maxRetries C"
  shows "calm w \<Longrightarrow> in_order P (db w) \<Longrightarrow> distinct (map saga_id gs) \<Longrightarrow>
    \<forall>g \<in> set gs. \<exists>x. sagas (db w) (saga_id g) = Some x \<and> srow_state x = DEBITED \<Longrightarrow>
    \<exists>w'. for_each gs (recover_one P C) w = (Ok (), w') \<and>
      (\<forall>g \<in> set gs. map_option srow_state (sagas (db w') (saga_id g)) = Some COMPLETED) \<and>
      (\<forall>s. s \<notin> saga_id ` set gs \<longrightarrow> sagas (db w') s = sagas (db w) s)"
proof (induction gs arbitrary: w)
  case (Cons g gs)
  obtain x where x: "sagas (db w) (saga_id g) = Some x" "srow_state x = DEBITED" using Cons.prems(4) by auto
  obtain x1 w1 where w1: "recoverSaga P C (saga_id g) w = (Ok (), w1)" "calm w1" "in_order P (db w1)"
      "sagas (db w1) = (sagas (db w))(saga_id g \<mapsto> x1)" "srow_state x1 = COMPLETED"
    using recoverSaga_calm[OF P(1,2) Cons.prems(1) P(3) Cons.prems(2) x] by blast
  have "\<forall>h \<in> set gs. \<exists>x. sagas (db w1) (saga_id h) = Some x \<and> srow_state x = DEBITED"
    using Cons.prems(3,4) w1(4) by (auto simp: image_iff)
  then obtain w2 where w2: "for_each gs (recover_one P C) w1 = (Ok (), w2)"
      "\<forall>h \<in> set gs. map_option srow_state (sagas (db w2) (saga_id h)) = Some COMPLETED"
      "\<forall>s. s \<notin> saga_id ` set gs \<longrightarrow> sagas (db w2) s = sagas (db w1) s"
    using Cons.IH[OF w1(2,3)] Cons.prems(3) by auto
  have "for_each (g # gs) (recover_one P C) w = (Ok (), w2)"
    using w1(1) w2(1) by (simp add: await_run try_catch_run recover_one_def)
  then show ?case using w2(2,3) w1(4,5) Cons.prems(3) by auto
qed (simp add: ret_run)

text \<open>The sagas of the table, each once.\<close>

lemma saga_list_upto:
  assumes "distinct_uuids P"
  shows "distinct (map saga_id (concat (map (\<lambda>n. case m (uuidOf P n) of Some r \<Rightarrow> [saga_of_row (uuidOf P n) r] | None \<Rightarrow> []) [0..<k]))) \<and>
    saga_id ` set (concat (map (\<lambda>n. case m (uuidOf P n) of Some r \<Rightarrow> [saga_of_row (uuidOf P n) r] | None \<Rightarrow> []) [0..<k])) \<subseteq> uuidOf P ` {..<k}"
proof (induction k)
  case (Suc k)
  have "uuidOf P k \<notin> uuidOf P ` {..<k}" using assms by (auto simp: distinct_uuids_def dest: injD)
  then show ?case using Suc
    by (cases "m (uuidOf P k)") (auto simp: saga_of_row_def lessThan_Suc)
qed simp

lemma saga_list_distinct: "distinct_uuids P \<Longrightarrow> distinct (map saga_id (saga_list P t))"
  unfolding saga_list_def using saga_list_upto[of P "sagas t" "uuidCount t"] by blast

lemma saga_list_member: "g \<in> set (saga_list P t) \<Longrightarrow> \<exists>x. sagas t (saga_id g) = Some x \<and> g = saga_of_row (saga_id g) x"
proof -
  assume "g \<in> set (saga_list P t)"
  then obtain n where n: "g \<in> set (case sagas t (uuidOf P n) of Some r \<Rightarrow> [saga_of_row (uuidOf P n) r] | None \<Rightarrow> [])"
    unfolding saga_list_def set_concat set_map by blast
  then obtain r where r: "sagas t (uuidOf P n) = Some r" "g = saga_of_row (uuidOf P n) r"
    by (cases "sagas t (uuidOf P n)") auto
  then have "saga_id g = uuidOf P n" by (simp add: saga_of_row_def)
  then show ?thesis using r by simp
qed

text \<open>C24: When every call succeeds and nothing stands in the way of a credit (every wallet there is is active, with
  amounts in range, and the receiver of every saga exists), one run of the recovery
  job completes every saga of its batch: the first ten that have been debited for longer than the
  threshold. A saga whose receiver is frozen would be refunded instead.\<close>

theorem worker_completes_batch:
  assumes "decimal_column P" and "distinct_uuids P" and "0 < maxRetries C" and "calm w" and "\<not> isRecovering w"
    and "in_order P (db w)" and "batch = take 10 (filter (is_stuck C (clock w)) (saga_list P (db w)))"
  shows "\<exists>w'. processStuckSagas P C w = (Ok (), w') \<and> \<not> isRecovering w' \<and>
    (\<forall>g \<in> set batch. map_option srow_state (sagas (db w') (saga_id g)) = Some COMPLETED)"
proof -
  let ?w1 = "w\<lparr>isRecovering := True\<rparr>"
  have "distinct (map saga_id batch)"
    using saga_list_distinct[OF assms(2), of "db w"] assms(7)
    by (simp add: distinct_map_filter flip: take_map)
  moreover have "\<forall>g \<in> set batch. \<exists>x. sagas (db ?w1) (saga_id g) = Some x \<and> srow_state x = DEBITED"
  proof
    fix g assume "g \<in> set batch"
    then have g: "g \<in> set (saga_list P (db w))" "is_stuck C (clock w) g" using assms(7) by (auto dest: in_set_takeD)
    then obtain x where "sagas (db w) (saga_id g) = Some x" "g = saga_of_row (saga_id g) x" using saga_list_member by blast
    moreover from this have "saga_state g = srow_state x" by (metis saga_of_row_def transfer_saga.select_convs(6))
    ultimately show "\<exists>x. sagas (db ?w1) (saga_id g) = Some x \<and> srow_state x = DEBITED"
      using g(2) by (auto simp: is_stuck_def)
  qed
  ultimately obtain w2 where w2: "for_each batch (recover_one P C) ?w1 = (Ok (), w2)"
      "\<forall>g \<in> set batch. map_option srow_state (sagas (db w2) (saga_id g)) = Some COMPLETED"
    using recover_all_calm[OF assms(1,2,3), of ?w1 batch] assms(4,6) by auto
  have find: "saga_find P (is_stuck C (clock w)) 10 ?w1 = (Ok batch, ?w1)"
    using repository_calm[of ?w1 "reading (\<lambda>t. take 10 (filter (is_stuck C (clock w)) (saga_list P t)))" batch "db w"] assms(4,7)
    by (simp add: saga_find_def reading_def)
  have body: "recovery_body P C ?w1 = (Ok (), w2)"
    using find w2(1) by (auto simp: recovery_body_def run_simps)
  have "processStuckSagas P C w = (Ok (), w2\<lparr>isRecovering := False\<rparr>)"
    using assms(5) body by (simp add: processStuckSagas_def set_recovering_def run_simps try_finally_run(1)[OF try_catch_run(1)])
  then show ?thesis using w2(2) by auto
qed

section \<open>A concrete run\<close>

definition stuck_world :: world where
  "stuck_world = new_world debited_tables 100000 []"

lemma stuck_simps [simp]: "calm stuck_world" "db stuck_world = debited_tables" "clock stuck_world = 100000" "\<not> isRecovering stuck_world"
  by (simp_all add: stuck_world_def new_world_def calm_def)

lemma debited_in_order [simp]: "in_order postgres debited_tables"
  unfolding in_order_def
  by (rule conjI[OF debited_sound]) (auto simp: debited_tables_def sound_row_def sample_row_def default_row_def split: if_splits)

theorem worker_follows_protocol_witness:
  "money (ledger_of (db (snd (processStuckSagas postgres default_config stuck_world)))) = money (ledger_of debited_tables)"
  using worker_follows_protocol[of postgres stuck_world default_config "fst (processStuckSagas postgres default_config stuck_world)"
      "snd (processStuckSagas postgres default_config stuck_world)"] by simp

theorem worker_completes_batch_witness:
  "\<exists>w'. processStuckSagas postgres default_config stuck_world = (Ok (), w') \<and>
    map_option srow_state (sagas (db w') ''s'') = Some COMPLETED"
proof -
  have "saga_list postgres debited_tables = [saga_of_row ''s'' debited_row]"
    by (simp add: saga_list_def debited_tables_def postgres_def)
  then have "take 10 (filter (is_stuck default_config (clock stuck_world)) (saga_list postgres debited_tables)) = [saga_of_row ''s'' debited_row]"
    by (simp add: is_stuck_def default_config_def saga_of_row_def debited_row_def)
  then show ?thesis
    using worker_completes_batch[of postgres default_config stuck_world "[saga_of_row ''s'' debited_row]"]
    by (auto simp: saga_of_row_def)
qed

end
