(* ===== verification/OutboxRelay.thy ===== *)
theory OutboxRelay imports TransferRuns
begin

text \<open>
  The outbox relay, \<open>src/infrastructure/messaging/outbox-relay.service.ts\<close>: a row of the
  outbox is marked as published only after the broker took its message, under every script of the
  environment (\<open>relay_marks_only_delivered\<close>), so an event that a transaction committed is
  delivered at least once; and a run in which every call succeeds delivers the batch, oldest first,
  and marks it (\<open>relay_drains\<close>).
\<close>

section \<open>Messages\<close>

definition event_type_of :: "json \<Rightarrow> string option" where
  "event_type_of p = (case property p ''eventType'' of JStr ty \<Rightarrow> Some ty | _ \<Rightarrow> None)"

text \<open>The message of a row, and that the broker has it.\<close>

definition message :: "app_config \<Rightarrow> outbox_row \<Rightarrow> string \<times> string \<times> json" where
  "message C row = (rabbitMqExchange C, routingKey (the (event_type_of (out_payload row))), out_payload row)"

definition delivered :: "app_config \<Rightarrow> world \<Rightarrow> outbox_row \<Rightarrow> bool" where
  "delivered C w row \<longleftrightarrow> message C row \<in> set (broker w)"

text \<open>What publishing does: the tables stay, the broker only gains messages.\<close>

definition more_messages :: "world \<Rightarrow> world \<Rightarrow> bool" where
  "more_messages w w' \<longleftrightarrow> db w' = db w \<and> set (broker w) \<subseteq> set (broker w')"

interpretation messages_contract: step_contract more_messages
  by unfold_locales (auto simp: more_messages_def)

lemma messages_extern:
  "(\<And>w. more_messages w (snd (call w))) \<Longrightarrow> obeys more_messages (extern call)"
  by (rule obeys_extern) (auto simp: more_messages_def)

lemma messages_redis [step_rules]: "obeys more_messages (redis_set_ex_nx k v n)" "obeys more_messages (redis_del k)"
  unfolding redis_set_ex_nx_def redis_del_def
  by (rule messages_extern; simp add: more_messages_def)+

lemma messages_flag [step_rules]: "obeys more_messages (set_processing b)"
  by (simp add: set_processing_def obeys_def modify_def more_messages_def)

lemma messages_channel [step_rules]: "obeys more_messages (channel_publish x k e)"
  unfolding channel_publish_def by (rule messages_extern) (auto simp: more_messages_def)

lemma messages_publish [step_rules]: "obeys more_messages (publish C e)"
  unfolding publish_def
  by (intro messages_contract.obeys_control step_rules, cases "property e ''eventType''")
     (simp_all add: messages_contract.obeys_control step_rules)

lemma messages_unpublished [step_rules]: "obeys more_messages (findUnpublished n)"
  unfolding findUnpublished_def repository_sql_def
  by (rule messages_extern) (auto simp: more_messages_def in_db_def reading_def)

lemma channel_publish_Ok: "channel_publish x k e w = (Ok u, w') \<Longrightarrow> (x, k, e) \<in> set (broker w')"
  by (auto simp: channel_publish_def extern_def perform_def split: list.splits reply.splits)

lemma publish_Ok:
  assumes "publish C (out_payload row) w = (Ok u, w')"
  shows "delivered C w' row"
proof -
  obtain ty where ty: "property (out_payload row) ''eventType'' = JStr ty"
      "try_catch (channel_publish (rabbitMqExchange C) (routingKey ty) (out_payload row)) (\<lambda>e. throw e) w = (Ok u, w')"
    using assms unfolding publish_def by (auto simp: run_inv split: if_splits json.splits)
  then have "channel_publish (rabbitMqExchange C) (routingKey ty) (out_payload row) w = (Ok u, w')"
    by (auto simp: try_catch_def throw_def split: prod.splits outcome.splits)
  then show ?thesis using ty(1) by (auto simp: delivered_def message_def event_type_of_def dest: channel_publish_Ok)
qed

section \<open>Marked only after delivery\<close>

text \<open>Every identifier in the list is that of an event of the batch the broker has.\<close>

definition all_delivered :: "app_config \<Rightarrow> outbox_row list \<Rightarrow> string list \<Rightarrow> world \<Rightarrow> bool" where
  "all_delivered C rows ids w \<longleftrightarrow> (\<forall>i \<in> set ids. \<exists>row \<in> set rows. out_id row = i \<and> delivered C w row)"

lemma all_delivered_more: "more_messages w w' \<Longrightarrow> all_delivered C rows ids w \<Longrightarrow> all_delivered C rows ids w'"
  by (fastforce simp: all_delivered_def delivered_def more_messages_def)

lemma relay_loop_outcomes:
  "set events \<subseteq> set rows \<Longrightarrow> outcomes (\<lambda>w. db w = t \<and> all_delivered C rows ids w) (relay_loop C events ids)
    (\<lambda>r w. db w = t \<and> (r = Crash \<or> (\<exists>ids'. r = Ok ids' \<and> all_delivered C rows ids' w)))"
proof (induction events arbitrary: ids)
  case Nil
  then show ?case by (auto intro: outcomes_ret)
next
  case (Cons e es)
  let ?one = "try_catch (await (publish C (out_payload e)) (\<lambda>_. ret (ids @ [out_id e]))) (\<lambda>_. ret ids)"
  have "outcomes (\<lambda>w. db w = t \<and> all_delivered C rows ids w) ?one
    (\<lambda>r w. db w = t \<and> (r = Crash \<or> (\<exists>ids'. r = Ok ids' \<and> all_delivered C rows ids' w)))"
  proof (rule outcomesI)
    fix w r w' assume w: "db w = t \<and> all_delivered C rows ids w" and run: "?one w = (r, w')"
    obtain p w1 where p: "publish C (out_payload e) w = (p, w1)" by fastforce
    have w1: "more_messages w w1" using obeysD[OF messages_publish p] .
    have e: "all_delivered C rows (ids @ [out_id e]) w1" if "p = Ok u" for u
      using all_delivered_more[OF w1, of C rows ids] w publish_Ok[of C e w u w1] p that Cons.prems
      by (auto simp: all_delivered_def)
    show "db w' = t \<and> (r = Crash \<or> (\<exists>ids'. r = Ok ids' \<and> all_delivered C rows ids' w'))"
      using run p w1 w e all_delivered_more[OF w1, of C rows ids]
      by (cases p) (auto simp: await_def try_catch_def ret_def more_messages_def)
  qed
  then show ?case
    unfolding relay_loop.simps
    by (rule outcomes_await) (use Cons in \<open>auto elim!: outcomes_weaken\<close>)
qed

lemma set_published_Nil [simp]: "set_published [] t = t"
  by (simp add: set_published_def)

text \<open>What the job has done to the tables, and to the broker.\<close>

definition relayed :: "app_config \<Rightarrow> tables \<Rightarrow> world \<Rightarrow> bool" where
  "relayed C t w \<longleftrightarrow> (\<exists>ids. db w = set_published ids t \<and> all_delivered C (outboxEvents t) ids w)"

lemma relayed_refl: "db w = t \<Longrightarrow> relayed C t w"
  unfolding relayed_def by (rule exI[of _ "[]"]) (simp add: all_delivered_def)

lemma relayed_more: "relayed C t w \<Longrightarrow> more_messages w w' \<Longrightarrow> relayed C t w'"
  unfolding relayed_def using all_delivered_more by (metis more_messages_def)

lemma outcomes_relayed: "obeys more_messages m \<Longrightarrow> outcomes (relayed C t) m (\<lambda>r. relayed C t)"
  unfolding outcomes_def by (blast dest: obeysD relayed_more)

lemma markAsPublished_outcomes:
  "outcomes (\<lambda>w. db w = t \<and> all_delivered C (outboxEvents t) ids w) (markAsPublished ids) (\<lambda>r. relayed C t)"
proof (rule outcomesI)
  fix w r w' assume w: "db w = t \<and> all_delivered C (outboxEvents t) ids w" and run: "markAsPublished ids w = (r, w')"
  have "more_messages (w\<lparr>db := x\<rparr>) (w'\<lparr>db := x\<rparr>) \<and> (db w' = t \<or> db w' = set_published ids t)" for x
    using run w unfolding markAsPublished_def repository_sql_def extern_def perform_def in_db_def
    by (auto simp: ret_def more_messages_def split: if_splits list.splits reply.splits)
  then have m: "more_messages (w\<lparr>db := t\<rparr>) (w'\<lparr>db := t\<rparr>)" and d: "db w' = t \<or> db w' = set_published ids t"
    by blast+
  then have "all_delivered C (outboxEvents t) ids w'"
    using w by (fastforce simp: all_delivered_def delivered_def more_messages_def)
  then show "relayed C t w'" using d relayed_refl unfolding relayed_def by blast
qed

text \<open>The batch need not be the rows themselves, only events with their identifiers and payloads.\<close>

definition events_of :: "tables \<Rightarrow> outbox_row list \<Rightarrow> bool" where
  "events_of t events \<longleftrightarrow> (\<forall>e \<in> set events. \<exists>row \<in> set (outboxEvents t). out_id row = out_id e \<and> out_payload row = out_payload e)"

lemma all_delivered_events: "events_of t events \<Longrightarrow> all_delivered C events ids w \<Longrightarrow> all_delivered C (outboxEvents t) ids w"
  unfolding events_of_def all_delivered_def delivered_def message_def by metis

lemma relay_batch_outcomes:
  assumes "events_of t events"
  shows "outcomes (\<lambda>w. db w = t) (if events = [] then ret () else await (relay_loop C events [])
      (\<lambda>publishedIds. run_if (publishedIds \<noteq> []) (markAsPublished publishedIds))) (\<lambda>r. relayed C t)"
proof (cases "events = []")
  case True
  then show ?thesis by (auto intro!: outcomes_ret relayed_refl)
next
  case False
  have "outcomes (\<lambda>w. db w = t) (await (relay_loop C events [])
    (\<lambda>publishedIds. run_if (publishedIds \<noteq> []) (markAsPublished publishedIds))) (\<lambda>r. relayed C t)"
  proof (rule outcomes_await)
    show "outcomes (\<lambda>w. db w = t) (relay_loop C events [])
        (\<lambda>r w. db w = t \<and> (r = Crash \<or> (\<exists>ids'. r = Ok ids' \<and> all_delivered C events ids' w)))"
      by (rule outcomes_weaken[OF relay_loop_outcomes[OF subset_refl]]) (auto simp: all_delivered_def)
    show "outcomes (\<lambda>w. db w = t \<and> (Ok ids = Crash \<or> (\<exists>ids'. Ok ids = Ok ids' \<and> all_delivered C events ids' w)))
        (run_if (ids \<noteq> []) (markAsPublished ids)) (\<lambda>r. relayed C t)" for ids
      by (rule outcomes_run_if, rule outcomes_weaken[OF markAsPublished_outcomes])
         (use all_delivered_events[OF assms, of C ids] in \<open>auto intro: relayed_refl\<close>)
  qed (auto intro: relayed_refl)
  then show ?thesis using False by simp
qed

lemma relay_body_outcomes_of:
  assumes "outcomes (\<lambda>w. db w = t) finding (\<lambda>r w. db w = t \<and> (\<forall>events. r = Ok events \<longrightarrow> events_of t events))"
  shows "outcomes (\<lambda>w. db w = t) (await (set_processing True) (\<lambda>_. await finding (\<lambda>events.
     if events = [] then ret ()
     else await (relay_loop C events []) (\<lambda>publishedIds.
          run_if (publishedIds \<noteq> []) (markAsPublished publishedIds))))) (\<lambda>r. relayed C t)"
proof -
  have flag: "outcomes (\<lambda>w. db w = t) (set_processing True) (\<lambda>r w. db w = t)"
    by (auto simp: outcomes_def set_processing_def modify_def)
  show ?thesis
  proof (rule outcomes_await[OF flag outcomes_await[OF assms]])
    fix u es
    show "outcomes (\<lambda>w. db w = t \<and> (\<forall>events. Ok es = Ok events \<longrightarrow> events_of t events))
      (if es = [] then ret () else await (relay_loop C es []) (\<lambda>publishedIds. run_if (publishedIds \<noteq> []) (markAsPublished publishedIds)))
      (\<lambda>r. relayed C t)"
      by (rule outcomes_by_state, rule outcomes_weaken[OF relay_batch_outcomes]) auto
  qed (auto intro: relayed_refl)
qed

lemma relay_body_outcomes: "outcomes (\<lambda>w. db w = t) (relay_body C) (\<lambda>r. relayed C t)"
  unfolding relay_body_def
proof (rule relay_body_outcomes_of)
  show "outcomes (\<lambda>w. db w = t) (findUnpublished 100) (\<lambda>r w. db w = t \<and> (\<forall>events. r = Ok events \<longrightarrow> events_of t events))"
    unfolding findUnpublished_def repository_sql_def extern_def perform_def in_db_def reading_def outcomes_def
    by (auto simp: events_of_def split: list.splits reply.splits if_splits dest!: in_set_takeD)
qed

text \<open>The \<open>finally\<close> block: the flag is cleared, and the lock released if it was acquired.\<close>

lemma finish_outcomes:
  "outcomes (relayed C t) (await (set_processing False) (\<lambda>_.
     if acquired then try_catch (redis_del RELAY_LOCK_KEY) (\<lambda>_. ret ()) else ret ()))
   (\<lambda>r w. relayed C t w \<and> (r = Ok () \<or> r = Crash))"
proof (rule outcomes_await[where M = "\<lambda>r w. relayed C t w \<and> r = Ok ()"])
  show "outcomes (relayed C t) (set_processing False) (\<lambda>r w. relayed C t w \<and> r = Ok ())"
    by (auto simp: outcomes_def set_processing_def modify_def relayed_def all_delivered_def delivered_def)
  have del: "outcomes (relayed C t) (try_catch (redis_del RELAY_LOCK_KEY) (\<lambda>_. ret ())) (\<lambda>r w. relayed C t w \<and> (r = Ok () \<or> r = Crash))"
    by (rule outcomes_try_catch[OF outcomes_relayed[OF messages_redis(2)]]) (auto intro: outcomes_ret)
  show "outcomes (\<lambda>w. relayed C t w \<and> Ok u = Ok ()) (if acquired then try_catch (redis_del RELAY_LOCK_KEY) (\<lambda>_. ret ()) else ret ())
      (\<lambda>r w. relayed C t w \<and> (r = Ok () \<or> r = Crash))" for u :: unit
    using del by (cases acquired) (auto elim!: outcomes_weaken intro: outcomes_ret)
qed auto

text \<open>The job around a body, for whatever body does what the body of the relay does.\<close>

lemma relay_job_outcomes:
  assumes relay: "outcomes (\<lambda>w. db w = t) body (\<lambda>r. relayed C t)"
  shows "outcomes (\<lambda>w. db w = t) (await get_state (\<lambda>w.
     if isProcessing w then ret ()
     else await (try_catch (redis_set_ex_nx RELAY_LOCK_KEY (RStr ''PROCESSING'') 30) (\<lambda>_. ret False)) (\<lambda>lockAcquired.
       await (if lockAcquired then try_catch body (\<lambda>_. ret ()) else ret ()) (\<lambda>_.
       await (set_processing False) (\<lambda>_.
       if lockAcquired then try_catch (redis_del RELAY_LOCK_KEY) (\<lambda>_. ret ()) else ret ())))))
     (\<lambda>r w. relayed C t w \<and> (r = Ok () \<or> r = Crash))" (is "outcomes _ ?m _")
proof -
  have lock: "outcomes (\<lambda>w. db w = t) (try_catch (redis_set_ex_nx k v n) (\<lambda>_. ret False)) (\<lambda>r w. db w = t \<and> (\<forall>e. r \<noteq> Throw e))" for k v n
    by (rule outcomes_try_catch[OF outcomes_same_tables[OF obeys_tables_redis(3)]]) (auto intro: outcomes_ret)
  have caught: "outcomes (\<lambda>w. db w = t) (if acquired then try_catch body (\<lambda>_. ret ()) else ret ())
      (\<lambda>r w. relayed C t w \<and> (\<forall>e. r \<noteq> Throw e))" for acquired
  proof (cases acquired)
    case True
    have "outcomes (\<lambda>w. db w = t) (try_catch body (\<lambda>_. ret ())) (\<lambda>r w. relayed C t w \<and> (\<forall>e. r \<noteq> Throw e))"
      by (rule outcomes_try_catch[OF relay]) (auto intro: outcomes_ret)
    then show ?thesis using True by simp
  qed (auto intro: outcomes_ret relayed_refl)
  have job: "outcomes (\<lambda>w. db w = t) (await (try_catch (redis_set_ex_nx RELAY_LOCK_KEY (RStr ''PROCESSING'') 30) (\<lambda>_. ret False)) (\<lambda>lockAcquired.
       await (if lockAcquired then try_catch body (\<lambda>_. ret ()) else ret ()) (\<lambda>_.
       await (set_processing False) (\<lambda>_.
       if lockAcquired then try_catch (redis_del RELAY_LOCK_KEY) (\<lambda>_. ret ()) else ret ()))))
     (\<lambda>r w. relayed C t w \<and> (r = Ok () \<or> r = Crash))"
  proof (rule outcomes_await[OF lock])
    fix acquired
    have fin: "outcomes (\<lambda>w. relayed C t w \<and> (\<forall>e. Ok u \<noteq> Throw e)) (await (set_processing False) (\<lambda>_.
       if acquired then try_catch (redis_del RELAY_LOCK_KEY) (\<lambda>_. ret ()) else ret ()))
      (\<lambda>r w. relayed C t w \<and> (r = Ok () \<or> r = Crash))" for u :: unit
      by (rule outcomes_weaken[OF finish_outcomes]) auto
    show "outcomes (\<lambda>w. db w = t \<and> (\<forall>e. Ok acquired \<noteq> Throw e))
      (await (if acquired then try_catch body (\<lambda>_. ret ()) else ret ()) (\<lambda>_.
       await (set_processing False) (\<lambda>_.
       if acquired then try_catch (redis_del RELAY_LOCK_KEY) (\<lambda>_. ret ()) else ret ())))
      (\<lambda>r w. relayed C t w \<and> (r = Ok () \<or> r = Crash))"
      by (rule outcomes_weaken[OF outcomes_await[OF caught fin]]) auto
  qed (auto intro: relayed_refl)
  show ?thesis
  proof (rule outcomesI)
    fix w r w' assume w: "db w = t" "?m w = (r, w')"
    show "relayed C t w' \<and> (r = Ok () \<or> r = Crash)"
    proof (cases "isProcessing w")
      case True
      then show ?thesis using w by (auto simp: await_def get_state_def ret_def intro: relayed_refl)
    next
      case False
      then show ?thesis
        using w(2) outcomesD[OF job w(1)] by (simp add: await_run(1)[OF get_state_run])
    qed
  qed
qed

lemma handleCron_outcomes:
  "outcomes (\<lambda>w. db w = t) (handleCron C) (\<lambda>r w. relayed C t w \<and> (r = Ok () \<or> r = Crash))"
  unfolding handleCron_def by (rule relay_job_outcomes[OF relay_body_outcomes])

lemma relayed_delivered:
  assumes "relayed C t w" and "distinct (map out_id (outboxEvents t))"
  shows "\<exists>ids. db w = set_published ids t \<and>
    (\<forall>row \<in> set (outboxEvents t). out_id row \<in> set ids \<longrightarrow> delivered C w row)"
proof -
  obtain ids where ids: "db w = set_published ids t" "all_delivered C (outboxEvents t) ids w"
    using assms(1) by (auto simp: relayed_def)
  have "delivered C w row" if "row \<in> set (outboxEvents t)" "out_id row \<in> set ids" for row
  proof -
    obtain row' where "row' \<in> set (outboxEvents t)" "out_id row' = out_id row" "delivered C w row'"
      using ids(2) \<open>out_id row \<in> set ids\<close> unfolding all_delivered_def by blast
    moreover from this have "row' = row" using assms(2) that(1) by (auto simp: distinct_map inj_on_def)
    ultimately show ?thesis by simp
  qed
  then show ?thesis using ids(1) by blast
qed

text \<open>C10: The relay job never rejects, whatever the environment does, and it marks a row of the
  outbox as published only if the broker has taken its message: apart from those marks the tables
  stay as they were, so no committed event is lost, it is published again by a later run.\<close>

theorem relay_marks_only_delivered:
  assumes "distinct (map out_id (outboxEvents (db w)))" and "handleCron C w = (r, w')"
  shows "(r = Ok () \<or> r = Crash) \<and> (\<exists>ids. db w' = set_published ids (db w) \<and>
    (\<forall>row \<in> set (outboxEvents (db w)). out_id row \<in> set ids \<longrightarrow> delivered C w' row))"
  using outcomesD[OF handleCron_outcomes refl assms(2)] relayed_delivered[OF _ assms(1)] by blast

section \<open>A run in which every call succeeds\<close>

lemma publish_calm:
  assumes "calm w" "publisherConnected w" "event_type_of (out_payload row) \<noteq> None"
  shows "publish C (out_payload row) w = (Ok (), w\<lparr>broker := broker w @ [message C row]\<rparr>)"
proof -
  obtain ty where ty: "property (out_payload row) ''eventType'' = JStr ty"
    using assms(3) by (auto simp: event_type_of_def split: json.splits)
  have "channel_publish x k e w = (Ok (), w\<lparr>broker := broker w @ [(x, k, e)]\<rparr>)" for x k e
    using assms(1) by (simp add: channel_publish_def extern_calm perform_def)
  then show ?thesis
    using assms(2) ty by (simp add: publish_def run_simps message_def event_type_of_def)
qed

lemma relay_loop_calm:
  "calm w \<Longrightarrow> publisherConnected w \<Longrightarrow> \<forall>row \<in> set events. event_type_of (out_payload row) \<noteq> None \<Longrightarrow>
   relay_loop C events ids w = (Ok (ids @ map out_id events), w\<lparr>broker := broker w @ map (message C) events\<rparr>)"
proof (induction events arbitrary: ids w)
  case (Cons e es)
  then show ?case using publish_calm[of w e C] by (simp add: run_simps)
qed (simp add: ret_run)

text \<open>When every call succeeds and the publisher is connected, one run of the relay delivers the
  oldest hundred unpublished events, in the order of their creation, marks exactly them, and
  leaves the lock released and the flag cleared.\<close>

theorem relay_drains:
  assumes "calm w" and "publisherConnected w" and "\<not> isProcessing w" and "redis_lookup RELAY_LOCK_KEY w = None"
    and "batch = take 100 (sort_key out_createdAt (filter (\<lambda>row. \<not> published row) (outboxEvents (db w))))"
    and "\<forall>row \<in> set batch. event_type_of (out_payload row) \<noteq> None"
  shows "\<exists>w'. handleCron C w = (Ok (), w') \<and> broker w' = broker w @ map (message C) batch \<and>
    db w' = set_published (map out_id batch) (db w) \<and> redis_lookup RELAY_LOCK_KEY w' = None \<and> \<not> isProcessing w'"
proof -
  let ?e = "\<lparr>redis_value = RStr ''PROCESSING'', expires = Some (clock w + 30000)\<rparr>"
  let ?w1 = "w\<lparr>redis := (redis w)(RELAY_LOCK_KEY \<mapsto> ?e)\<rparr>"
  let ?w2 = "?w1\<lparr>isProcessing := True\<rparr>"
  let ?w3 = "?w2\<lparr>broker := broker w @ map (message C) batch, db := set_published (map out_id batch) (db w)\<rparr>"
  have lock: "redis_set_ex_nx RELAY_LOCK_KEY (RStr ''PROCESSING'') 30 w = (Ok True, ?w1)"
    using assms(1,4) by (simp add: redis_set_ex_nx_calm)
  have find: "findUnpublished 100 ?w2 = (Ok batch, ?w2)"
    using repository_calm[of ?w2 "reading (\<lambda>t. take 100 (sort_key out_createdAt (filter (\<lambda>r. \<not> published r) (outboxEvents t))))" batch "db w"]
      assms(1,5) by (simp add: findUnpublished_def reading_def)
  have loop: "relay_loop C batch [] ?w2 = (Ok (map out_id batch), ?w2\<lparr>broker := broker w @ map (message C) batch\<rparr>)"
    using relay_loop_calm[of ?w2 batch C "[]"] assms(1,2,6) by simp
  have mark: "run_if (map out_id batch \<noteq> []) (markAsPublished (map out_id batch)) (?w2\<lparr>broker := broker w @ map (message C) batch\<rparr>) = (Ok (), ?w3)"
    using repository_calm[of "?w2\<lparr>broker := broker w @ map (message C) batch\<rparr>" "\<lambda>now t. Inr ((), set_published (map out_id batch) t)" "()"]
      assms(1) by (simp add: run_if_run markAsPublished_def)
  have body: "relay_body C ?w1 = (Ok (), ?w3)"
  proof (cases "batch = []")
    case True
    then show ?thesis using find by (simp add: relay_body_def set_processing_def run_simps)
  next
    case False
    have "relay_body C ?w1 = await (relay_loop C batch []) (\<lambda>publishedIds. run_if (publishedIds \<noteq> []) (markAsPublished publishedIds)) ?w2"
      using find False by (simp add: relay_body_def set_processing_def await_run modify_run)
    also have "\<dots> = (Ok (), ?w3)" by (rule trans[OF await_run(1)], rule loop, rule mark)
    finally show ?thesis .
  qed
  have "handleCron C w = (Ok (), ?w3\<lparr>isProcessing := False, redis := (redis ?w3)(RELAY_LOCK_KEY := None)\<rparr>)"
    using assms(1,3) by (simp add: handleCron_def run_simps lock body set_processing_def redis_del_calm)
  then show ?thesis by (simp add: redis_lookup_def)
qed

section \<open>A concrete run\<close>

definition relay_row :: outbox_row where
  "relay_row = \<lparr>out_id = ''o'', out_aggregateId = ''a'', out_type = ''FUNDS_DEPOSITED'',
     out_payload = money_payload FUNDS_DEPOSITED ''a'' (Fin 1) JNull 0, out_createdAt = 0, published = False\<rparr>"

definition relay_world :: world where
  "relay_world = new_world (sample_tables\<lparr>outboxEvents := [relay_row]\<rparr>) 0 []"

lemma relay_simps [simp]:
  "calm relay_world" "publisherConnected relay_world" "\<not> isProcessing relay_world"
  "redis_lookup k relay_world = None" "broker relay_world = []" "outboxEvents (db relay_world) = [relay_row]"
  "\<not> published relay_row" "event_type_of (out_payload relay_row) = Some ''FUNDS_DEPOSITED''"
  by (simp_all add: relay_world_def new_world_def calm_def redis_lookup_def relay_row_def event_type_of_def money_payload_def)

theorem relay_drains_witness:
  "\<exists>w'. handleCron default_config relay_world = (Ok (), w') \<and> broker w' = [message default_config relay_row] \<and>
    map published (outboxEvents (db w')) = [True]"
  using relay_drains[of relay_world "[relay_row]" default_config] by (auto simp: set_published_def)

theorem relay_marks_only_delivered_witness:
  "\<exists>ids. db (snd (handleCron default_config relay_world)) = set_published ids (db relay_world) \<and>
    (''o'' \<notin> set ids \<or> delivered default_config (snd (handleCron default_config relay_world)) relay_row)"
  using relay_marks_only_delivered[of relay_world default_config "fst (handleCron default_config relay_world)"
      "snd (handleCron default_config relay_world)"]
  by (auto simp: relay_row_def)

end
