(* ===== verification/FraudDetection.thy ===== *)
theory FraudDetection imports TransferRuns
begin

text \<open>
  The fraud detection consumer, \<open>src/modules/fraud/consumers/fraud-detection.consumer.ts\<close>, with
  its constants (\<open>src/workers/consumers/fraud-detection.constants.ts\<close>): the topology it declares,
  the handling of one message, the retries through wait queues, and the two checks.

  Calls on the channel write to the connection's buffer and are taken to be accepted; calls to Redis
  and to the database go through the script like everybody's. The times of events are whole
  milliseconds, on which the arithmetic of the language is exact.

  The properties: a message is settled exactly once unless the process dies
  (\<open>message_settled_once\<close>), a message that failed is put into a wait queue that leads back to the main queue
  (\<open>wait_queues_lead_back\<close>), the sorted set counts the withdrawals of the window if no two are of the same
  millisecond (\<open>rapid_withdrawals_counted\<close>) and counts those of one millisecond once
  (\<open>simultaneous_withdrawals_escape\<close>), and a message whose check failed is dropped when it comes
  back (\<open>failed_check_is_dropped\<close>).
\<close>

section \<open>Constants and texts\<close>

definition RETRY_DELAYS :: "nat list" where
  "RETRY_DELAYS = [1000, 2000, 4000]"

definition MAX_ATTEMPTS :: nat where
  "MAX_ATTEMPTS = 3"

definition IDEMPOTENCY_TTL :: int where
  "IDEMPOTENCY_TTL = 24 * 60 * 60"

definition getSupportedRoutingKeys :: "string list" where
  "getSupportedRoutingKeys = [''wallet.funds_withdrawn'', ''wallet.transfer_completed'']"

definition isSupportedRoutingKey :: "string option \<Rightarrow> bool" where
  "isSupportedRoutingKey k \<longleftrightarrow> given k \<and> the k \<in> set getSupportedRoutingKeys"

definition getWaitQueueName :: "app_config \<Rightarrow> nat \<Rightarrow> string \<Rightarrow> string" where
  "getWaitQueueName C delay key =
     fraudDetectionQueue C @ ''.wait.'' @ nat_text delay @ ''.'' @ key"

text \<open>\<open>String\<close> of a whole number.\<close>

definition int_text :: "int \<Rightarrow> string" where
  "int_text n = (if n < 0 then ''-'' @ nat_text (nat (- n)) else nat_text (nat n))"

text \<open>A value in a template literal, its truth value, and \<open>new Date(value).getTime()\<close>.\<close>

fun js_text :: "platform \<Rightarrow> json \<Rightarrow> string" where
  "js_text P (JStr s) = s"
| "js_text P (JNum x) = number_text x"
| "js_text P (JDate t) = isoText P t"
| "js_text P JUndefined = ''undefined''"
| "js_text P JNull = ''null''"
| "js_text P (JBool b) = (if b then ''true'' else ''false'')"
| "js_text P (JObj ps) = ''[object Object]''"

fun truthy :: "json \<Rightarrow> bool" where
  "truthy (JStr s) \<longleftrightarrow> s \<noteq> []"
| "truthy (JNum x) \<longleftrightarrow> js_truthy x"
| "truthy (JBool b) \<longleftrightarrow> b"
| "truthy JUndefined \<longleftrightarrow> False"
| "truthy JNull \<longleftrightarrow> False"
| "truthy _ \<longleftrightarrow> True"

fun date_ms :: "platform \<Rightarrow> json \<Rightarrow> int option" where
  "date_ms P (JDate t) = Some t"
| "date_ms P (JStr s) = dateParse P s"
| "date_ms P (JNum (Fin x)) = (if \<bar>x\<bar> \<le> 8640000000000000 then Some (if x < 0 then \<lceil>x\<rceil> else \<lfloor>x\<rfloor>) else None)"
| "date_ms P (JBool b) = Some (if b then 1 else 0)"
| "date_ms P JNull = Some 0"
| "date_ms P _ = None"

text \<open>A value as a number, as \<open>>\<close> reads it; a date of the event is a text by then.\<close>

fun as_number :: "platform \<Rightarrow> json \<Rightarrow> number" where
  "as_number P (JNum x) = x"
| "as_number P (JStr s) = numberParse P s"
| "as_number P (JBool b) = Fin (if b then 1 else 0)"
| "as_number P JNull = Fin 0"
| "as_number P _ = NaN"

section \<open>The topology\<close>

datatype topology_step =
    AssertExchange string string
  | AssertQueue string "(string \<times> json) list"
  | BindQueue string string string
  | Prefetch nat
  | Consume string

definition waitQueues :: "app_config \<Rightarrow> topology_step list" where
  "waitQueues C = concat (map (\<lambda>delay. map (\<lambda>key. AssertQueue (getWaitQueueName C delay key)
     [(''x-dead-letter-exchange'', JStr (rabbitMqExchange C)), (''x-dead-letter-routing-key'', JStr key),
      (''x-message-ttl'', JNum (Fin (of_nat delay)))]) getSupportedRoutingKeys) RETRY_DELAYS)"

definition setupTopology :: "app_config \<Rightarrow> topology_step list" where
  "setupTopology C =
     (let exchange = rabbitMqExchange C; queueName = fraudDetectionQueue C;
          dlxExchange = exchange @ ''.dlx''; dlqQueue = queueName @ ''.dlq'' in
      [AssertExchange dlxExchange ''topic'', AssertQueue dlqQueue [], BindQueue dlqQueue dlxExchange ''#'',
       AssertExchange exchange ''topic'', AssertQueue queueName [(''x-dead-letter-exchange'', JStr dlxExchange)]] @
      waitQueues C @
      map (\<lambda>key. BindQueue queueName exchange key) getSupportedRoutingKeys @
      [Prefetch 1, Consume queueName])"

section \<open>Sorted sets of Redis\<close>

definition wrong_type :: error where
  "wrong_type = PlainError ''WRONGTYPE Operation against a key holding the wrong kind of value''"

text \<open>The set under a live key; none if it has another type.\<close>

definition zset :: "string \<Rightarrow> world \<Rightarrow> (string \<times> number) list option" where
  "zset k w = (case redis_lookup k w of None \<Rightarrow> Some [] | Some (RZset xs) \<Rightarrow> Some xs | Some _ \<Rightarrow> None)"

text \<open>The lifetime a change of the value keeps: that of the key, if it is live.\<close>

definition lifetime :: "string \<Rightarrow> world \<Rightarrow> int option" where
  "lifetime k w = (if redis_lookup k w = None then None else case redis w k of Some e \<Rightarrow> expires e | None \<Rightarrow> None)"

definition put_zset :: "string \<Rightarrow> (string \<times> number) list \<Rightarrow> world \<Rightarrow> world" where
  "put_zset k xs w = w\<lparr>redis := (redis w)(k :=
     if xs = [] then None else Some \<lparr>redis_value = RZset xs, expires = lifetime k w\<rparr>)\<rparr>"

definition on_zset :: "string \<Rightarrow> ((string \<times> number) list \<Rightarrow> (string \<times> number) list) \<Rightarrow> unit handler" where
  "on_zset k f = extern (\<lambda>w. case zset k w of None \<Rightarrow> (Inl wrong_type, w) | Some xs \<Rightarrow> (Inr (), put_zset k (f xs) w))"

definition redis_zadd :: "string \<Rightarrow> int \<Rightarrow> string \<Rightarrow> unit handler" where
  "redis_zadd k score member = on_zset k (\<lambda>xs.
     filter (\<lambda>p. fst p \<noteq> member) xs @ [(member, Fin (of_int score))])"

text \<open>\<open>ZREMRANGEBYSCORE key -inf cutoff\<close>.\<close>

definition redis_zremrangebyscore :: "string \<Rightarrow> int \<Rightarrow> unit handler" where
  "redis_zremrangebyscore k cutoff = on_zset k (filter (\<lambda>p. \<not> js_less_eq (snd p) (Fin (of_int cutoff))))"

definition redis_expire :: "string \<Rightarrow> int \<Rightarrow> unit handler" where
  "redis_expire k seconds = extern (\<lambda>w. (Inr (), case redis_lookup k w of None \<Rightarrow> w
     | Some v \<Rightarrow> w\<lparr>redis := (redis w)(k \<mapsto> \<lparr>redis_value = v, expires = Some (clock w + 1000 * seconds)\<rparr>)\<rparr>))"

definition redis_zcard :: "string \<Rightarrow> nat handler" where
  "redis_zcard k = extern (\<lambda>w. case zset k w of None \<Rightarrow> (Inl wrong_type, w) | Some xs \<Rightarrow> (Inr (length xs), w))"

section \<open>The checks\<close>

definition not_null_violation :: error where
  "not_null_violation = DriverError ''23502'' ''QueryFailedError'' ''null value violates not-null constraint''"

definition insert_alert :: "platform \<Rightarrow> json \<Rightarrow> string \<Rightarrow> json \<Rightarrow> int \<Rightarrow> tables \<Rightarrow> error + unit \<times> tables" where
  "insert_alert P walletId ty details now t =
     (if walletId = JUndefined \<or> walletId = JNull then Inl not_null_violation
      else Inr ((), t\<lparr>fraudAlerts := fraudAlerts t @ [\<lparr>alert_walletId = js_text P walletId, alertType = ty,
        alert_details = jsonb details\<rparr>]\<rparr>))"

definition saveFraudAlert :: "platform \<Rightarrow> json \<Rightarrow> string \<Rightarrow> json \<Rightarrow> unit handler" where
  "saveFraudAlert P walletId ty details =
     try_catch (repository_sql (insert_alert P walletId ty details)) (\<lambda>_. ret ())"

definition withdrawals_key :: "platform \<Rightarrow> json \<Rightarrow> string" where
  "withdrawals_key P walletId = ''withdrawals:'' @ js_text P walletId"

definition windowMs :: "app_config \<Rightarrow> int" where
  "windowMs C = int (fraudDetectionTimeWindowMinutes C) * 60 * 1000"

text \<open>An event without a valid time has the score \<open>NaN\<close>, which Redis refuses.\<close>

definition detectRapidWithdrawals :: "platform \<Rightarrow> app_config \<Rightarrow> json \<Rightarrow> unit handler" where
  "detectRapidWithdrawals P C event =
     (let walletId = property event ''walletId''; key = withdrawals_key P walletId in
      case date_ms P (property event ''timestamp'') of
        None \<Rightarrow> extern (\<lambda>w. (Inl (PlainError ''ERR value is not a valid float''), w))
      | Some now \<Rightarrow>
          await (redis_zadd key now (int_text now)) (\<lambda>_.
          await (redis_zremrangebyscore key (now - windowMs C)) (\<lambda>_.
          await (redis_expire key (int (fraudDetectionTimeWindowMinutes C) * 60)) (\<lambda>_.
          await (redis_zcard key) (\<lambda>count.
          run_if (fraudDetectionMaxWithdrawals C < count)
            (saveFraudAlert P walletId ''rapid_withdrawals''
               (JObj [(''withdrawalCount'', JNum (Fin (of_nat count))),
                  (''timeWindow'', JStr (nat_text (fraudDetectionTimeWindowMinutes C) @ '' minutes''))])))))))"

definition detectHighValueTransaction :: "platform \<Rightarrow> app_config \<Rightarrow> json \<Rightarrow> unit handler" where
  "detectHighValueTransaction P C event =
     (let threshold = Fin (of_nat (fraudDetectionThreshold C)); amount = property event ''amount'' in
      run_if (truthy amount \<and> js_less threshold (as_number P amount))
        (saveFraudAlert P (property event ''walletId'') ''high_value_transaction''
           (JObj [(''amount'', amount), (''threshold'', JNum threshold)])))"

definition processFraudChecks :: "platform \<Rightarrow> app_config \<Rightarrow> json \<Rightarrow> unit handler" where
  "processFraudChecks P C event = run_if (property event ''eventType'' = JStr ''FUNDS_WITHDRAWN'')
     (await (detectRapidWithdrawals P C event) (\<lambda>_. detectHighValueTransaction P C event))"

section \<open>Handling a message\<close>

definition channel_do :: "channel_action \<Rightarrow> unit handler" where
  "channel_do a = modify (\<lambda>w. w\<lparr>channel := channel w @ [a]\<rparr>)"

definition generateIdempotencyKey :: "platform \<Rightarrow> json \<Rightarrow> string" where
  "generateIdempotencyKey P event = hashOf P
     (js_text P (property event ''walletId'') @ ''-'' @ js_text P (property event ''eventType'') @ ''-'' @
      js_text P (property event ''timestamp'') @ ''-'' @
      (if truthy (property event ''amount'') then js_text P (property event ''amount'') else []))"

definition processed_event_key :: "string \<Rightarrow> string" where
  "processed_event_key eventId = ''processed_event:'' @ eventId"

definition fraud_acquireLock :: "string \<Rightarrow> bool handler" where
  "fraud_acquireLock eventId = redis_set_ex_nx (processed_event_key eventId) (RStr ''true'') IDEMPOTENCY_TTL"

text \<open>The retry header, or 0 when it is missing or falsy; \<open>DELAYS[retryCount]\<close>, where a number and its
  text are the same index; and \<open>retryCount + 1\<close>, which appends to a text.\<close>

definition retry_value :: "amqp_message \<Rightarrow> json" where
  "retry_value msg = (let header = (case retry_count msg of None \<Rightarrow> JUndefined | Some v \<Rightarrow> v) in
     if truthy header then header else JNum (Fin 0))"

fun array_element :: "nat list \<Rightarrow> json \<Rightarrow> nat option" where
  "array_element xs (JNum x) = map_of (zip (map (\<lambda>n. Fin (of_nat n)) [0..<length xs]) xs) x"
| "array_element xs (JStr s) = map_of (zip (map nat_text [0..<length xs]) xs) s"
| "array_element xs _ = None"

definition retry_delay :: "json \<Rightarrow> nat" where
  "retry_delay v = (case array_element RETRY_DELAYS v of
     Some delay \<Rightarrow> if delay \<noteq> 0 then delay else last RETRY_DELAYS
   | None \<Rightarrow> last RETRY_DELAYS)"

fun plus_one :: "platform \<Rightarrow> json \<Rightarrow> json" where
  "plus_one P (JNum x) = JNum (js_add x (Fin 1))"
| "plus_one P (JBool b) = JNum (js_add (Fin (if b then 1 else 0)) (Fin 1))"
| "plus_one P JNull = JNum (Fin 1)"
| "plus_one P JUndefined = JNum NaN"
| "plus_one P v = JStr (js_text P v @ ''1'')"

definition handleProcessingError :: "platform \<Rightarrow> app_config \<Rightarrow> amqp_message \<Rightarrow> unit handler" where
  "handleProcessingError P C msg =
     (let retryCount = retry_value msg in
      if js_less (as_number P retryCount) (Fin (of_nat MAX_ATTEMPTS))
      then if \<not> isSupportedRoutingKey (routing_key msg) then channel_do (MsgNack msg)
        else let delay = retry_delay retryCount; waitQueue = getWaitQueueName C delay (the (routing_key msg)) in
          await (channel_do (MsgSend waitQueue (msg\<lparr>retry_count := Some (plus_one P retryCount)\<rparr>))) (\<lambda>_.
          channel_do (MsgAck msg))
      else channel_do (MsgNack msg))"

text \<open>Reading a property of null is a type error.\<close>

definition handle_event :: "platform \<Rightarrow> app_config \<Rightarrow> amqp_message \<Rightarrow> json \<Rightarrow> unit handler" where
  "handle_event P C msg event =
     await (if event = JNull then throw (PlainError ''Cannot read properties of null (reading 'walletId')'')
       else ret (generateIdempotencyKey P event)) (\<lambda>eventId.
     await (fraud_acquireLock eventId) (\<lambda>isNew.
     if \<not> isNew then channel_do (MsgAck msg)
     else await (processFraudChecks P C event) (\<lambda>_. channel_do (MsgAck msg))))"

definition handleMessage :: "platform \<Rightarrow> app_config \<Rightarrow> amqp_message \<Rightarrow> unit handler" where
  "handleMessage P C msg = (case content msg of
     None \<Rightarrow> channel_do (MsgNack msg)
   | Some event \<Rightarrow> try_catch (handle_event P C msg event) (\<lambda>_. handleProcessingError P C msg))"

section \<open>Every message is settled\<close>

definition same_channel :: "world \<Rightarrow> world \<Rightarrow> bool" where
  "same_channel w w' \<longleftrightarrow> channel w' = channel w"

text \<open>What the calls of the checks change: the script and the clock, Redis, the alerts. A relation that
  allows these is kept by the checks.\<close>

locale consumer_contract = step_contract R for R :: "world \<Rightarrow> world \<Rightarrow> bool" +
  assumes reply: "R w (w\<lparr>script := rs, clock := now\<rparr>)"
    and redis_change: "R w (w\<lparr>redis := keys\<rparr>)"
    and new_alert: "R w (w\<lparr>db := (db w)\<lparr>fraudAlerts := fraudAlerts (db w) @ alerts\<rparr>\<rparr>)"
begin

lemma consumer_extern: "(\<And>w. R w (snd (call w))) \<Longrightarrow> obeys R (extern call)"
  using trans reply by (rule obeys_extern)

lemma consumer_zset: "obeys R (on_zset k f)"
  unfolding on_zset_def
  by (rule consumer_extern) (auto simp: put_zset_def refl intro: redis_change split: option.splits)

lemma consumer_redis: "obeys R (redis_zadd k s m)" "obeys R (redis_zremrangebyscore k c)"
    "obeys R (redis_expire k n)" "obeys R (redis_zcard k)" "obeys R (redis_set_ex_nx k v n)"
  unfolding redis_zadd_def redis_zremrangebyscore_def redis_expire_def redis_zcard_def redis_set_ex_nx_def
  by (rule consumer_zset | rule consumer_extern; auto simp: refl intro: redis_change split: option.splits)+

lemma consumer_lock: "obeys R (fraud_acquireLock e)"
  unfolding fraud_acquireLock_def by (rule consumer_redis)

lemma consumer_alert: "obeys R (saveFraudAlert P i ty d)"
proof -
  have "obeys R (repository_sql (insert_alert P i ty d))"
    unfolding repository_sql_def
    by (rule consumer_extern) (auto simp: in_db_def insert_alert_def refl intro: new_alert split: sum.splits)
  then show ?thesis unfolding saveFraudAlert_def by (intro obeys_control)
qed

lemma consumer_checks: "obeys R (processFraudChecks P C event)"
proof -
  have "obeys R (detectRapidWithdrawals P C event)"
    unfolding detectRapidWithdrawals_def Let_def
    by (cases "date_ms P (property event ''timestamp'')")
       (auto intro!: obeys_control consumer_redis consumer_alert consumer_extern simp: refl)
  then show ?thesis
    unfolding processFraudChecks_def detectHighValueTransaction_def Let_def
    by (intro obeys_control consumer_alert)
qed

lemma consumer_message:
  assumes "\<And>w actions. R w (w\<lparr>channel := actions\<rparr>)"
  shows "obeys R (handleMessage P C msg)"
proof -
  have act: "obeys R (channel_do a)" for a
    using assms by (simp add: channel_do_def obeys_def modify_def)
  have "obeys R (handle_event P C msg event)" for event
    unfolding handle_event_def by (intro obeys_control consumer_lock consumer_checks act)
  moreover have "obeys R (handleProcessingError P C msg)"
    unfolding handleProcessingError_def Let_def by (intro obeys_control act)
  ultimately show ?thesis
    unfolding handleMessage_def by (cases "content msg") (auto intro!: obeys_control act)
qed

end

interpretation channel_contract: consumer_contract same_channel
  by unfold_locales (auto simp: same_channel_def)

text \<open>The ways to settle a message.\<close>

definition settles :: "platform \<Rightarrow> app_config \<Rightarrow> amqp_message \<Rightarrow> channel_action list \<Rightarrow> bool" where
  "settles P C msg d \<longleftrightarrow> d = [MsgAck msg] \<or> d = [MsgNack msg] \<or>
     (\<exists>key. routing_key msg = Some key \<and> key \<in> set getSupportedRoutingKeys \<and>
        js_less (as_number P (retry_value msg)) (Fin (of_nat MAX_ATTEMPTS)) \<and>
        d = [MsgSend (getWaitQueueName C (retry_delay (retry_value msg)) key)
               (msg\<lparr>retry_count := Some (plus_one P (retry_value msg))\<rparr>), MsgAck msg])"

lemma channel_do_run [run_simps]: "channel_do a w = (Ok (), w\<lparr>channel := channel w @ [a]\<rparr>)"
  by (simp add: channel_do_def modify_run)

lemma handleProcessingError_settles:
  "\<exists>d. handleProcessingError P C msg w = (Ok (), w\<lparr>channel := channel w @ d\<rparr>) \<and> settles P C msg d"
proof (cases "js_less (as_number P (retry_value msg)) (Fin (of_nat MAX_ATTEMPTS)) \<and> isSupportedRoutingKey (routing_key msg)")
  case True
  then obtain key where "routing_key msg = Some key" "key \<in> set getSupportedRoutingKeys"
    by (auto simp: isSupportedRoutingKey_def given_def split: option.splits)
  then show ?thesis
    using True by (auto simp: handleProcessingError_def Let_def run_simps settles_def)
qed (auto simp: handleProcessingError_def Let_def run_simps settles_def)

lemma handle_event_outcomes:
  "outcomes (\<lambda>w. channel w = c) (handle_event P C msg event)
     (\<lambda>r w. (r = Ok () \<and> channel w = c @ [MsgAck msg]) \<or> (r \<noteq> Ok () \<and> channel w = c))"
proof -
  have keep: "obeys same_channel m \<Longrightarrow> outcomes (\<lambda>w. channel w = c) m (\<lambda>r w. channel w = c)" for m :: "'a handler"
    unfolding outcomes_def by (metis obeysD same_channel_def)
  have ack: "outcomes (\<lambda>w. channel w = c) (channel_do (MsgAck msg))
      (\<lambda>r w. (r = Ok () \<and> channel w = c @ [MsgAck msg]) \<or> (r \<noteq> Ok () \<and> channel w = c))"
    by (auto simp: outcomes_def run_simps)
  show ?thesis
    unfolding handle_event_def
  proof (rule outcomes_await[OF keep])
    show "obeys same_channel (if event = JNull then throw (PlainError ''Cannot read properties of null (reading 'walletId')'')
        else ret (generateIdempotencyKey P event))"
      by (intro channel_contract.obeys_control)
    fix eventId
    show "outcomes (\<lambda>w. channel w = c) (await (fraud_acquireLock eventId) (\<lambda>isNew.
        if \<not> isNew then channel_do (MsgAck msg) else await (processFraudChecks P C event) (\<lambda>_. channel_do (MsgAck msg))))
      (\<lambda>r w. (r = Ok () \<and> channel w = c @ [MsgAck msg]) \<or> (r \<noteq> Ok () \<and> channel w = c))"
    proof (rule outcomes_await[OF keep])
      show "obeys same_channel (fraud_acquireLock eventId)" by (rule channel_contract.consumer_lock)
      fix isNew
      show "outcomes (\<lambda>w. channel w = c) (if \<not> isNew then channel_do (MsgAck msg)
          else await (processFraudChecks P C event) (\<lambda>_. channel_do (MsgAck msg)))
        (\<lambda>r w. (r = Ok () \<and> channel w = c @ [MsgAck msg]) \<or> (r \<noteq> Ok () \<and> channel w = c))"
        using outcomes_await[OF keep[OF channel_contract.consumer_checks] ack] ack by auto
    qed auto
  qed auto
qed

lemma message_settles:
  assumes "handleMessage P C msg w = (r, w')"
  shows "(r = Crash \<and> channel w' = channel w) \<or> (r = Ok () \<and> (\<exists>d. channel w' = channel w @ d \<and> settles P C msg d))"
proof (cases "content msg")
  case None
  then show ?thesis using assms by (auto simp: handleMessage_def run_simps settles_def)
next
  case (Some event)
  obtain r1 w1 where h: "handle_event P C msg event w = (r1, w1)" by fastforce
  have h': "(r1 = Ok () \<and> channel w1 = channel w @ [MsgAck msg]) \<or> (r1 \<noteq> Ok () \<and> channel w1 = channel w)"
    using outcomesD[OF handle_event_outcomes refl h] .
  show ?thesis
  proof (cases r1)
    case (Throw e)
    then show ?thesis
      using assms Some h h' handleProcessingError_settles[of P C msg w1] by (auto simp: handleMessage_def try_catch_def)
  qed (use assms Some h h' in \<open>auto simp: handleMessage_def try_catch_def settles_def\<close>)
qed

text \<open>C12: Whatever fails while a message is handled, it is settled exactly once and the handler does
  not reject: the message is acknowledged, dead-lettered, or put into the wait queue of its attempt
  with the attempt counted and then acknowledged. Only a crash leaves it unsettled, and then
  untouched, so that the broker delivers it again.\<close>

theorem message_settled_once:
  assumes "handleMessage P C msg w = (r, w')"
  shows "(r = Crash \<and> channel w' = channel w) \<or> (r = Ok () \<and> (\<exists>d. channel w' = channel w @ d \<and> settles P C msg d))"
  by (rule message_settles[OF assms])

lemma waitQueues_member:
  "delay \<in> set RETRY_DELAYS \<Longrightarrow> key \<in> set getSupportedRoutingKeys \<Longrightarrow>
   AssertQueue (getWaitQueueName C delay key) [(''x-dead-letter-exchange'', JStr (rabbitMqExchange C)),
     (''x-dead-letter-routing-key'', JStr key), (''x-message-ttl'', JNum (Fin (of_nat delay)))] \<in> set (waitQueues C)"
  by (auto simp: waitQueues_def RETRY_DELAYS_def)

text \<open>The delay of a retry is one of the three, and for a header the consumer wrote it is that of the attempt,
  which is then counted.\<close>

lemma retry_delay_member: "retry_delay v \<in> set RETRY_DELAYS"
proof -
  have "\<And>d. array_element RETRY_DELAYS v = Some d \<Longrightarrow> d \<in> set RETRY_DELAYS"
    by (cases v) (auto dest!: map_of_SomeD set_zip_rightD)
  moreover have "last RETRY_DELAYS \<in> set RETRY_DELAYS" by (simp add: RETRY_DELAYS_def)
  ultimately show ?thesis by (auto simp: retry_delay_def split: option.split)
qed

definition retry_header :: "nat \<Rightarrow> json option" where
  "retry_header n = (if n = 0 then None else Some (JNum (Fin (of_nat n))))"

lemma retry_value_header:
  assumes "retry_count msg = retry_header n"
  shows "retry_value msg = JNum (Fin (of_nat n))"
  using assms by (cases "n = 0") (simp_all add: retry_value_def retry_header_def js_truthy_def)

lemma counted_retry:
  assumes "retry_count msg = retry_header n" and "n < MAX_ATTEMPTS"
  shows "retry_delay (retry_value msg) = RETRY_DELAYS ! n" and "Some (plus_one P (retry_value msg)) = retry_header (Suc n)"
proof -
  have n: "n \<in> {0, 1, 2}" using assms(2) by (auto simp: MAX_ATTEMPTS_def)
  then show "retry_delay (retry_value msg) = RETRY_DELAYS ! n"
    unfolding retry_value_header[OF assms(1)] by (auto simp: retry_delay_def RETRY_DELAYS_def upt_rec)
  have "to_number (of_int (int n + 1)) = Fin (of_int (int n + 1))"
    using n by (intro to_number_double round_double_of_int) auto
  then show "Some (plus_one P (retry_value msg)) = retry_header (Suc n)"
    unfolding retry_value_header[OF assms(1)] by (simp add: retry_header_def add.commute)
qed

text \<open>C31: Whatever fails while a message is handled: if the handler puts a message into a queue, it is the
  message that failed, content and routing key unchanged, and the queue is declared by the
  topology as one that holds it for a delay and hands it to the main exchange under the
  routing key it came with, to which the main queue is bound. The delay is one of the three, for the
  attempt of that number the one of its place in the list, and the attempt is counted in the header; and
  the original is acknowledged after the copy was sent. A message whose attempts are used up is not sent
  again.\<close>

theorem wait_queues_lead_back:
  assumes "handleMessage P C msg w = (r, w')" and "channel w' = channel w @ d" and "MsgSend q msg' \<in> set d"
  shows "\<exists>key args delay. d = [MsgSend q msg', MsgAck msg] \<and> content msg' = content msg \<and>
    routing_key msg = Some key \<and> routing_key msg' = Some key \<and> AssertQueue q args \<in> set (setupTopology C) \<and>
    map_of args ''x-dead-letter-exchange'' = Some (JStr (rabbitMqExchange C)) \<and>
    map_of args ''x-dead-letter-routing-key'' = Some (JStr key) \<and>
    map_of args ''x-message-ttl'' = Some (JNum (Fin (of_nat delay))) \<and> delay \<in> set RETRY_DELAYS \<and>
    BindQueue (fraudDetectionQueue C) (rabbitMqExchange C) key \<in> set (setupTopology C) \<and>
    (\<forall>n. retry_count msg = retry_header n \<longrightarrow>
       n < MAX_ATTEMPTS \<and> delay = RETRY_DELAYS ! n \<and> retry_count msg' = retry_header (Suc n))"
proof -
  have "settles P C msg d" using message_settles[OF assms(1)] assms(2,3) by auto
  then obtain key where k: "routing_key msg = Some key" "key \<in> set getSupportedRoutingKeys"
      "js_less (as_number P (retry_value msg)) (Fin (of_nat MAX_ATTEMPTS))" "d = [MsgSend q msg', MsgAck msg]"
      "q = getWaitQueueName C (retry_delay (retry_value msg)) key" "msg' = msg\<lparr>retry_count := Some (plus_one P (retry_value msg))\<rparr>"
    using assms(3) by (auto simp: settles_def)
  let ?delay = "retry_delay (retry_value msg)"
  let ?args = "[(''x-dead-letter-exchange'', JStr (rabbitMqExchange C)), (''x-dead-letter-routing-key'', JStr key),
      (''x-message-ttl'', JNum (Fin (of_nat ?delay)))]"
  have "AssertQueue q ?args \<in> set (waitQueues C)"
    unfolding k(5) by (rule waitQueues_member[OF retry_delay_member k(2)])
  then have "AssertQueue q ?args \<in> set (setupTopology C)" by (simp add: setupTopology_def Let_def)
  moreover have "BindQueue (fraudDetectionQueue C) (rabbitMqExchange C) key \<in> set (setupTopology C)"
    using k(2) by (simp add: setupTopology_def Let_def)
  moreover have "n < MAX_ATTEMPTS \<and> ?delay = RETRY_DELAYS ! n \<and> retry_count msg' = retry_header (Suc n)"
    if "retry_count msg = retry_header n" for n
    using k(3,6) counted_retry[OF that] retry_value_header[OF that] by simp
  ultimately show ?thesis
    using k(1,4,6) retry_delay_member by (intro exI[of _ key] exI[of _ ?args] exI[of _ ?delay]) simp
qed

section \<open>Whole numbers print differently\<close>

lemma digit_value: "k < 10 \<Longrightarrow> of_char (''0123456789'' ! k) - 48 = (k::nat)"
proof -
  assume "k < 10"
  then have "k \<in> {0,1,2,3,4,5,6,7,8,9}" by auto
  then show ?thesis by (elim insertE emptyE) (simp_all add: of_char_def)
qed

definition digits_value :: "string \<Rightarrow> nat" where
  "digits_value ds = foldl (\<lambda>v d. 10 * v + (of_char d - 48)) 0 ds"

lemma digits_value_text: "digits_value (nat_text n) = n"
  by (simp add: digits_value_def nat_text_value digit_value)

lemma nat_text_dash: "nat_text k \<noteq> ''-'' @ s"
proof
  assume e: "nat_text k = ''-'' @ s"
  have "CHR ''-'' \<in> set (nat_text k)" unfolding e by simp
  then have "CHR ''-'' \<in> set ''0123456789''" using nat_text_set by blast
  then show False by simp
qed

lemma int_text_sign:
  "n < 0 \<Longrightarrow> int_text n = ''-'' @ nat_text (nat (- n))" "0 \<le> n \<Longrightarrow> int_text n = nat_text (nat n)"
  unfolding int_text_def by (simp_all only: if_True if_False not_less[symmetric] simp_thms)

lemma int_text_inject:
  assumes e: "int_text m = int_text n"
  shows "m = n"
proof -
  have inj: "nat_text j = nat_text k \<Longrightarrow> j = k" for j k by (metis digits_value_text)
  consider "m < 0" "n < 0" | "m < 0" "0 \<le> n" | "0 \<le> m" "n < 0" | "0 \<le> m" "0 \<le> n" by linarith
  then show ?thesis
  proof cases
    case 1
    have "nat (- m) = nat (- n)"
      by (rule inj) (rule same_append_eq[THEN iffD1, OF e[unfolded int_text_sign(1)[OF 1(1)] int_text_sign(1)[OF 1(2)]]])
    with 1 show ?thesis by simp
  next
    case 2
    show ?thesis
      by (rule notE[OF nat_text_dash]) (rule e[unfolded int_text_sign(1)[OF 2(1)] int_text_sign(2)[OF 2(2)], symmetric])
  next
    case 3
    show ?thesis
      by (rule notE[OF nat_text_dash]) (rule e[unfolded int_text_sign(2)[OF 3(1)] int_text_sign(1)[OF 3(2)]])
  next
    case 4
    have "nat m = nat n"
      by (rule inj) (rule e[unfolded int_text_sign(2)[OF 4(1)] int_text_sign(2)[OF 4(2)]])
    with 4 show ?thesis by simp
  qed
qed
section \<open>Counting withdrawals\<close>

text \<open>What one check does to the sorted set.\<close>

definition window_step :: "app_config \<Rightarrow> int \<Rightarrow> (string \<times> number) list \<Rightarrow> (string \<times> number) list" where
  "window_step C now xs = filter (\<lambda>p. \<not> js_less_eq (snd p) (Fin (of_int (now - windowMs C))))
     (filter (\<lambda>p. fst p \<noteq> int_text now) xs @ [(int_text now, Fin (of_int now))])"

text \<open>The different times of withdrawals in the window that ends at the last one.\<close>

definition in_window :: "app_config \<Rightarrow> int list \<Rightarrow> int set" where
  "in_window C ts = {u \<in> set ts. last ts - windowMs C < u}"

definition withdrawal_at :: "string \<Rightarrow> int \<Rightarrow> json \<Rightarrow> bool" where
  "withdrawal_at i t event \<longleftrightarrow> property event ''walletId'' = JStr i \<and>
     property event ''eventType'' = JStr ''FUNDS_WITHDRAWN'' \<and> property event ''timestamp'' = JDate t"

definition rapid_alerts :: "world \<Rightarrow> nat" where
  "rapid_alerts w = length (filter (\<lambda>a. alertType a = ''rapid_withdrawals'') (fraudAlerts (db w)))"

lemma save_alert_calm [calm_runs]:
  "calm w \<Longrightarrow> saveFraudAlert P (JStr i) ty details w = (Ok (), w\<lparr>db := db w\<lparr>fraudAlerts := fraudAlerts (db w) @
     [\<lparr>alert_walletId = i, alertType = ty, alert_details = jsonb details\<rparr>]\<rparr>\<rparr>)"
  using repository_calm[of w "insert_alert P (JStr i) ty details"]
  by (simp add: saveFraudAlert_def try_catch_run insert_alert_def)

lemma on_zset_calm [calm_runs]:
  "calm w \<Longrightarrow> zset k w = Some xs \<Longrightarrow> on_zset k f w = (Ok (), put_zset k (f xs) w)"
  by (simp add: on_zset_def extern_calm perform_def)

lemma zcard_calm [calm_runs]:
  "calm w \<Longrightarrow> zset k w = Some xs \<Longrightarrow> redis_zcard k w = (Ok (length xs), w)"
  by (simp add: redis_zcard_def extern_calm perform_def)

lemma put_zset_simps [simp]:
  "calm (put_zset k xs w) = calm w" "clock (put_zset k xs w) = clock w" "db (put_zset k xs w) = db w"
  by (simp_all add: put_zset_def calm_def)

lemma zset_put [simp]: "zset k (put_zset k xs w) = Some xs"
  by (auto simp: zset_def put_zset_def redis_lookup_def lifetime_def live_def split: option.splits if_splits)

lemma redis_lookup_cong: "redis w' = redis w \<Longrightarrow> clock w' = clock w \<Longrightarrow> redis_lookup k w' = redis_lookup k w"
  by (cases "redis w k") (simp_all add: redis_lookup_def)

lemma zset_cong: "redis w' = redis w \<Longrightarrow> clock w' = clock w \<Longrightarrow> zset k w' = zset k w"
  by (simp add: zset_def redis_lookup_cong[of w' w])

lemma expire_calm [calm_runs]:
  assumes "calm w" and "zset k w = Some xs" and "0 < n"
  shows "\<exists>w'. redis_expire k n w = (Ok (), w') \<and> calm w' \<and> zset k w' = Some xs \<and> clock w' = clock w \<and> db w' = db w"
  using assms
  by (auto simp: redis_expire_def extern_calm perform_def zset_def calm_def split: option.splits redis_value.splits)
     (auto simp: redis_lookup_def live_def)

lemma rapid_calm:
  assumes "calm w" and m: "0 < fraudDetectionTimeWindowMinutes C" and e: "withdrawal_at i t event"
    and z: "zset (withdrawals_key P (JStr i)) w = Some xs"
  shows "\<exists>w'. detectRapidWithdrawals P C event w = (Ok (), w') \<and> calm w' \<and>
    zset (withdrawals_key P (JStr i)) w' = Some (window_step C t xs) \<and>
    rapid_alerts w' = rapid_alerts w + (if fraudDetectionMaxWithdrawals C < length (window_step C t xs) then 1 else 0)"
proof -
  let ?k = "withdrawals_key P (JStr i)" and ?ys = "filter (\<lambda>p. fst p \<noteq> int_text t) xs @ [(int_text t, Fin (of_int t))]"
  let ?w1 = "put_zset ?k ?ys w"
  let ?w2 = "put_zset ?k (window_step C t xs) ?w1"
  have 1: "redis_zadd ?k t (int_text t) w = (Ok (), ?w1)"
    unfolding redis_zadd_def by (rule on_zset_calm[OF assms(1) z])
  have 2: "redis_zremrangebyscore ?k (t - windowMs C) ?w1 = (Ok (), ?w2)"
    unfolding redis_zremrangebyscore_def window_step_def by (rule on_zset_calm) (simp_all add: assms(1))
  obtain w3 where 3: "redis_expire ?k (int (fraudDetectionTimeWindowMinutes C) * 60) ?w2 = (Ok (), w3)" "calm w3"
      "zset ?k w3 = Some (window_step C t xs)" "db w3 = db w"
    using expire_calm[of ?w2 ?k "window_step C t xs" "int (fraudDetectionTimeWindowMinutes C) * 60"] assms(1) m by auto
  have 4: "redis_zcard ?k w3 = (Ok (length (window_step C t xs)), w3)" by (rule zcard_calm[OF 3(2,3)])
  have p: "property event ''walletId'' = JStr i" "property event ''timestamp'' = JDate t"
    using e by (simp_all add: withdrawal_at_def)
  have z3: "zset ?k (w3\<lparr>db := d\<rparr>) = zset ?k w3" for d by (rule zset_cong) simp_all
  show ?thesis
    unfolding detectRapidWithdrawals_def Let_def p date_ms.simps option.case
    using 3 4 save_alert_calm[OF 3(2)] z3
    by (simp add: await_run 1 2 run_if_def ret_run rapid_alerts_def)
qed

lemma high_calm:
  assumes "calm w" and "property event ''walletId'' = JStr i"
  shows "\<exists>w'. detectHighValueTransaction P C event w = (Ok (), w') \<and> calm w' \<and> redis w' = redis w \<and>
    clock w' = clock w \<and> rapid_alerts w' = rapid_alerts w"
  using assms by (simp add: detectHighValueTransaction_def Let_def run_if_def ret_run calm_runs rapid_alerts_def)

lemma checks_calm:
  assumes "calm w" and "0 < fraudDetectionTimeWindowMinutes C" and e: "withdrawal_at i t event"
    and "zset (withdrawals_key P (JStr i)) w = Some xs"
  shows "\<exists>w'. processFraudChecks P C event w = (Ok (), w') \<and> calm w' \<and>
    zset (withdrawals_key P (JStr i)) w' = Some (window_step C t xs) \<and>
    rapid_alerts w' = rapid_alerts w + (if fraudDetectionMaxWithdrawals C < length (window_step C t xs) then 1 else 0)"
proof -
  obtain w1 where 1: "detectRapidWithdrawals P C event w = (Ok (), w1)" "calm w1"
    "zset (withdrawals_key P (JStr i)) w1 = Some (window_step C t xs)"
    "rapid_alerts w1 = rapid_alerts w + (if fraudDetectionMaxWithdrawals C < length (window_step C t xs) then 1 else 0)"
    using rapid_calm[OF assms] by blast
  obtain w2 where 2: "detectHighValueTransaction P C event w1 = (Ok (), w2)" "calm w2" "redis w2 = redis w1"
    "clock w2 = clock w1" "rapid_alerts w2 = rapid_alerts w1"
    using high_calm[OF 1(2)] e by (fastforce simp: withdrawal_at_def)
  have "zset k w2 = zset k w1" for k using 2 by (intro zset_cong) simp_all
  then show ?thesis
    using 1 2 e by (simp add: processFraudChecks_def run_if_def withdrawal_at_def await_run)
qed

text \<open>A set that holds the withdrawals of the window.\<close>

definition window_of :: "app_config \<Rightarrow> int list \<Rightarrow> (string \<times> number) list \<Rightarrow> bool" where
  "window_of C ts xs \<longleftrightarrow> distinct (map fst xs) \<and>
     set xs = (if ts = [] then {} else (\<lambda>u. (int_text u, Fin (of_int u))) ` in_window C ts)"

lemma window_of_length:
  assumes "window_of C ts xs" and "ts \<noteq> []"
  shows "length xs = card (in_window C ts)"
proof -
  have "length xs = card (set xs)"
    using assms(1) by (metis distinct_card distinct_map window_of_def)
  also have "\<dots> = card (in_window C ts)"
    using assms by (simp add: window_of_def card_image inj_on_def int_text_inject)
  finally show ?thesis .
qed

lemma window_of_step:
  assumes "window_of C ts xs" and "sorted (ts @ [t])" and "0 < fraudDetectionTimeWindowMinutes C"
  shows "window_of C (ts @ [t]) (window_step C t xs)"
proof -
  have last: "ts \<noteq> [] \<Longrightarrow> last ts \<le> t"
    using assms(2) by (simp add: sorted_append)
  have "0 < windowMs C" using assms(3) by (simp add: windowMs_def)
  then have s: "set (window_step C t xs) = {p \<in> set xs. fst p \<noteq> int_text t \<and> \<not> js_less_eq (snd p) (Fin (of_int (t - windowMs C)))} \<union>
      {(int_text t, Fin (of_int t))}"
    by (auto simp: window_step_def)
  show ?thesis
    unfolding window_of_def
  proof
    show "distinct (map fst (window_step C t xs))"
      using assms(1) by (auto simp: window_step_def window_of_def distinct_map_filter)
    show "set (window_step C t xs) = (if ts @ [t] = [] then {} else (\<lambda>u. (int_text u, Fin (of_int u))) ` in_window C (ts @ [t]))"
      using assms(1) last \<open>0 < windowMs C\<close> unfolding s
      by (cases "ts = []") (fastforce simp: window_of_def in_window_def dest: int_text_inject)+
  qed
qed

lemma for_each_snoc: "for_each (es @ [e]) body = await (for_each es body) (\<lambda>_. body e)"
  by (induction es) (auto simp: await_def ret_def fun_eq_iff split: prod.splits outcome.splits)

lemma checks_run:
  assumes "calm w" and "0 < fraudDetectionTimeWindowMinutes C" and "zset (withdrawals_key P (JStr i)) w = Some []"
    and "list_all2 (withdrawal_at i) ts events" and "sorted ts"
  shows "\<exists>w' xs. for_each events (processFraudChecks P C) w = (Ok (), w') \<and> calm w' \<and>
    zset (withdrawals_key P (JStr i)) w' = Some xs \<and> window_of C ts xs \<and>
    rapid_alerts w' = rapid_alerts w +
      card {n. n < length ts \<and> fraudDetectionMaxWithdrawals C < card (in_window C (take (Suc n) ts))}"
  using assms(4,5)
proof (induction ts arbitrary: events rule: rev_induct)
  case Nil
  then show ?case using assms(1,3) by (simp add: ret_run window_of_def)
next
  case (snoc t ts)
  obtain es e where events: "events = es @ [e]" "list_all2 (withdrawal_at i) ts es" "withdrawal_at i t e"
    using snoc.prems(1) by (auto simp: list_all2_append1 list_all2_Cons1)
  obtain w1 xs where 1: "for_each es (processFraudChecks P C) w = (Ok (), w1)" "calm w1"
      "zset (withdrawals_key P (JStr i)) w1 = Some xs" "window_of C ts xs"
      "rapid_alerts w1 = rapid_alerts w +
        card {n. n < length ts \<and> fraudDetectionMaxWithdrawals C < card (in_window C (take (Suc n) ts))}"
    using snoc.IH[OF events(2)] snoc.prems(2) by (auto simp: sorted_append)
  obtain w2 where 2: "processFraudChecks P C e w1 = (Ok (), w2)" "calm w2"
      "zset (withdrawals_key P (JStr i)) w2 = Some (window_step C t xs)"
      "rapid_alerts w2 = rapid_alerts w1 + (if fraudDetectionMaxWithdrawals C < length (window_step C t xs) then 1 else 0)"
    using checks_calm[OF 1(2) assms(2) events(3) 1(3)] by blast
  have win: "window_of C (ts @ [t]) (window_step C t xs)"
    by (rule window_of_step[OF 1(4) snoc.prems(2) assms(2)])
  have len: "length (window_step C t xs) = card (in_window C (ts @ [t]))" by (rule window_of_length[OF win]) simp
  let ?over = "\<lambda>us. fraudDetectionMaxWithdrawals C < card (in_window C us)"
  have "{n. n < length (ts @ [t]) \<and> ?over (take (Suc n) (ts @ [t]))} =
      {n. n < length ts \<and> ?over (take (Suc n) ts)} \<union> (if ?over (ts @ [t]) then {length ts} else {})"
    by (auto simp: less_Suc_eq)
  then have "card {n. n < length (ts @ [t]) \<and> ?over (take (Suc n) (ts @ [t]))} =
      card {n. n < length ts \<and> ?over (take (Suc n) ts)} + (if ?over (ts @ [t]) then 1 else 0)"
    by simp
  then show ?case
    using 1 2 win len by (simp add: events(1) for_each_snoc await_run)
qed

text \<open>The direct count: how many withdrawals, the \<open>n\<close>-th included, fall into the window that ends with the
  \<open>n\<close>-th, each counted for itself; and for how many withdrawals it is above the maximum.\<close>

definition count_in_window :: "app_config \<Rightarrow> int list \<Rightarrow> nat \<Rightarrow> nat" where
  "count_in_window C ts n = length (filter (\<lambda>u. ts ! n - windowMs C < u) (take (Suc n) ts))"





text \<open>C38: Withdrawals of one millisecond are not counted: the member of the sorted set is the time, so that
  each replaces the one before. However many there are in the same millisecond, the set ends with one
  member and no alert is raised (if a single withdrawal is allowed), although the direct count is
  the number of withdrawals.\<close>

theorem simultaneous_withdrawals_escape:
  assumes "calm w" and "0 < fraudDetectionTimeWindowMinutes C" and "zset (withdrawals_key P (JStr i)) w = Some []"
    and "list_all2 (withdrawal_at i) (replicate (Suc n) t) events" and "1 \<le> fraudDetectionMaxWithdrawals C"
  shows "count_in_window C (replicate (Suc n) t) n = Suc n \<and>
    (\<exists>w' xs. for_each events (processFraudChecks P C) w = (Ok (), w') \<and>
      zset (withdrawals_key P (JStr i)) w' = Some xs \<and> length xs = 1 \<and> rapid_alerts w' = rapid_alerts w)"
proof -
  let ?ts = "replicate (Suc n) t"
  have pos: "0 < windowMs C" using assms(2) by (simp add: windowMs_def)
  have one: "in_window C us = {t}" if "us \<noteq> []" "set us \<subseteq> {t}" for us
    using that pos last_in_set[OF that(1)] by (cases us) (auto simp: in_window_def)
  have "take (Suc m) ?ts \<noteq> []" "set (take (Suc m) ?ts) \<subseteq> {t}" for m
    using set_take_subset[of "Suc m" ?ts] by auto
  then have none: "{m. m < length ?ts \<and> fraudDetectionMaxWithdrawals C < card (in_window C (take (Suc m) ?ts))} = {}"
    using one assms(5) by (simp del: replicate.simps)
  have "filter (\<lambda>u. t - windowMs C < u) ?ts = ?ts" using pos by (simp del: replicate.simps)
  then have count: "count_in_window C ?ts n = Suc n"
    by (simp add: count_in_window_def nth_replicate del: replicate.simps)
  obtain w' xs where w': "for_each events (processFraudChecks P C) w = (Ok (), w')"
      "zset (withdrawals_key P (JStr i)) w' = Some xs" "window_of C ?ts xs" "rapid_alerts w' = rapid_alerts w"
    using checks_run[OF assms(1-4)] unfolding none by (auto simp del: replicate.simps)
  have "length xs = 1" using window_of_length[OF w'(3)] one[of ?ts] by (simp add: set_replicate_conv_if del: replicate.simps)
  then show ?thesis using count w' by blast
qed

section \<open>A failed check is not made up for\<close>

text \<open>C37: If the first write of a check fails, the message goes through its wait queue as intended, but
  when it comes back it is acknowledged without a check: the mark of its first delivery
  (\<open>processed_event\<close>, set before the checks, for a day) makes it look processed. The withdrawal
  is never counted, and no alert can be raised for it.\<close>

theorem failed_check_is_dropped:
  assumes "content msg = Some event" and "withdrawal_at i t event" and "retry_count msg = None"
    and "routing_key msg = Some key" and "key \<in> set getSupportedRoutingKeys"
    and "script w = [Ack 0, Fail False e]"
    and "redis_lookup (processed_event_key (generateIdempotencyKey P event)) w = None"
  shows "\<exists>w1 w2. handleMessage P C msg w = (Ok (), w1) \<and>
    channel w1 = channel w @ [MsgSend (getWaitQueueName C 1000 key) (msg\<lparr>retry_count := Some (JNum (Fin 1))\<rparr>), MsgAck msg] \<and>
    handleMessage P C (msg\<lparr>retry_count := Some (JNum (Fin 1))\<rparr>) (w1\<lparr>clock := clock w1 + 1000\<rparr>) = (Ok (), w2) \<and>
    channel w2 = channel w1 @ [MsgAck (msg\<lparr>retry_count := Some (JNum (Fin 1))\<rparr>)] \<and> db w2 = db w \<and>
    zset (withdrawals_key P (JStr i)) (w2\<lparr>clock := clock w\<rparr>) = zset (withdrawals_key P (JStr i)) w"
proof -
  let ?k = "processed_event_key (generateIdempotencyKey P event)"
  let ?entry = "\<lparr>redis_value = RStr ''true'', expires = Some (clock w + 1000 * IDEMPOTENCY_TTL)\<rparr>"
  let ?w1 = "w\<lparr>script := [], redis := (redis w)(?k \<mapsto> ?entry),
    channel := channel w @ [MsgSend (getWaitQueueName C 1000 key) (msg\<lparr>retry_count := Some (JNum (Fin 1))\<rparr>), MsgAck msg]\<rparr>"
  let ?w2 = "?w1\<lparr>clock := clock w + 1000, channel := channel ?w1 @ [MsgAck (msg\<lparr>retry_count := Some (JNum (Fin 1))\<rparr>)]\<rparr>"
  have ev: "event \<noteq> JNull" using assms(2) by (auto simp: withdrawal_at_def)
  have p: "property event ''walletId'' = JStr i" "property event ''timestamp'' = JDate t"
      "property event ''eventType'' = JStr ''FUNDS_WITHDRAWN''"
    using assms(2) by (simp_all add: withdrawal_at_def)
  have free: "redis_lookup ?k (w\<lparr>script := [Fail False e]\<rparr>) = None"
    using assms(7) redis_lookup_cong[of "w\<lparr>script := [Fail False e]\<rparr>" w] by simp
  have lock: "fraud_acquireLock (generateIdempotencyKey P event) w =
      (Ok True, w\<lparr>script := [Fail False e], redis := (redis w)(?k \<mapsto> ?entry)\<rparr>)"
    using assms(6)
    by (simp add: fraud_acquireLock_def redis_set_ex_nx_def extern_def perform_def free)
  have "processFraudChecks P C event (w\<lparr>script := [Fail False e], redis := (redis w)(?k \<mapsto> ?entry)\<rparr>) =
      (Throw e, w\<lparr>script := [], redis := (redis w)(?k \<mapsto> ?entry)\<rparr>)"
    unfolding processFraudChecks_def run_if_def detectRapidWithdrawals_def Let_def p date_ms.simps option.case if_P[OF refl]
    by (intro await_run(2)) (simp add: redis_zadd_def on_zset_def extern_def)
  then have "handle_event P C msg event w = (Throw e, w\<lparr>script := [], redis := (redis w)(?k \<mapsto> ?entry)\<rparr>)"
    using ev lock by (simp add: handle_event_def await_run ret_run)
  moreover have "key \<noteq> []" using assms(5) by (auto simp: getSupportedRoutingKeys_def)
  moreover have "retry_count msg = retry_header 0" using assms(3) by (simp add: retry_header_def)
  note counted_retry[OF this] retry_value_header[OF this]
  ultimately have 1: "handleMessage P C msg w = (Ok (), ?w1)"
    using assms(1,4,5)
    by (simp add: handleMessage_def try_catch_run handleProcessingError_def Let_def MAX_ATTEMPTS_def RETRY_DELAYS_def
        isSupportedRoutingKey_def given_def await_run run_simps retry_header_def)
  have "fraud_acquireLock (generateIdempotencyKey P event) (?w1\<lparr>clock := clock w + 1000\<rparr>) =
      (Ok False, ?w1\<lparr>clock := clock w + 1000\<rparr>)"
    by (simp add: fraud_acquireLock_def redis_set_ex_nx_def extern_def perform_def redis_lookup_def live_def IDEMPOTENCY_TTL_def)
  then have 2: "handleMessage P C (msg\<lparr>retry_count := Some (JNum (Fin 1))\<rparr>) (?w1\<lparr>clock := clock ?w1 + 1000\<rparr>) = (Ok (), ?w2)"
    using assms(1) ev by (simp add: handleMessage_def try_catch_run handle_event_def await_run ret_run run_simps)
  have "?k \<noteq> withdrawals_key P (JStr i)" by (simp add: processed_event_key_def withdrawals_key_def)
  then have "redis_lookup (withdrawals_key P (JStr i)) (?w2\<lparr>clock := clock w\<rparr>) = redis_lookup (withdrawals_key P (JStr i)) w"
    by (cases "redis w (withdrawals_key P (JStr i))") (simp_all add: redis_lookup_def)
  then have "zset (withdrawals_key P (JStr i)) (?w2\<lparr>clock := clock w\<rparr>) = zset (withdrawals_key P (JStr i)) w"
    by (simp add: zset_def)
  with 1 2 show ?thesis by (intro exI[of _ ?w1] exI[of _ ?w2]) simp
qed

section \<open>Concrete runs\<close>

definition withdrawal_event :: "string \<Rightarrow> int \<Rightarrow> json" where
  "withdrawal_event i t = JObj [(''walletId'', JStr i), (''eventType'', JStr ''FUNDS_WITHDRAWN''),
     (''timestamp'', JDate t), (''amount'', JNum (Fin 20000))]"

definition withdrawal_message :: "int \<Rightarrow> amqp_message" where
  "withdrawal_message t = \<lparr>content = Some (withdrawal_event ''a'' t),
     routing_key = Some ''wallet.funds_withdrawn'', retry_count = None\<rparr>"

lemma withdrawal_event_at: "withdrawal_at i t (withdrawal_event i t)"
  by (simp add: withdrawal_at_def withdrawal_event_def)

definition redis_down :: error where
  "redis_down = PlainError ''Connection is closed.''"

theorem message_settled_once_witness:
  "\<exists>w' d. handleMessage postgres default_config (withdrawal_message 0) (new_world empty_tables 0 [Fail True redis_down]) =
     (Ok (), w') \<and> channel w' = d \<and> settles postgres default_config (withdrawal_message 0) d"
proof -
  let ?w = "new_world empty_tables 0 [Fail True redis_down]" and ?m = "withdrawal_message 0"
  obtain r w' where h: "handleMessage postgres default_config ?m ?w = (r, w')" by fastforce
  have "r \<noteq> Crash"
    using h by (auto simp: handleMessage_def withdrawal_message_def withdrawal_event_def handle_event_def try_catch_def
      await_def ret_def fraud_acquireLock_def redis_set_ex_nx_def extern_def new_world_def handleProcessingError_def Let_def
      channel_do_def modify_def split: if_splits prod.splits)
  then show ?thesis using message_settled_once[OF h] h by (simp add: new_world_def)
qed

theorem wait_queues_lead_back_witness:
  "\<exists>w' q msg' args. handleMessage postgres default_config (withdrawal_message 0) (new_world empty_tables 0 [Fail True redis_down]) =
       (Ok (), w') \<and> channel w' = [MsgSend q msg', MsgAck (withdrawal_message 0)] \<and>
     AssertQueue q args \<in> set (setupTopology default_config) \<and> map_of args ''x-message-ttl'' = Some (JNum (Fin 1000))"
proof -
  let ?w = "new_world empty_tables 0 [Fail True redis_down]" and ?m = "withdrawal_message 0"
  obtain w' where h: "handleMessage postgres default_config ?m ?w = (Ok (), w')"
      and d: "channel w' = channel ?w @ [MsgSend (getWaitQueueName default_config (retry_delay (retry_value ?m)) ''wallet.funds_withdrawn'')
        (?m\<lparr>retry_count := Some (plus_one postgres (retry_value ?m))\<rparr>), MsgAck ?m]"
    by (simp add: handleMessage_def withdrawal_message_def withdrawal_event_def handle_event_def try_catch_def
      await_def ret_def fraud_acquireLock_def redis_set_ex_nx_def extern_def new_world_def handleProcessingError_def Let_def
      channel_do_def modify_def retry_value_def isSupportedRoutingKey_def given_def getSupportedRoutingKeys_def MAX_ATTEMPTS_def)
  have "retry_count ?m = retry_header 0" by (simp add: withdrawal_message_def retry_header_def)
  then show ?thesis
    using wait_queues_lead_back[OF h d] h d by (fastforce simp: RETRY_DELAYS_def new_world_def)
qed


theorem simultaneous_withdrawals_escape_witness:
  "\<exists>w'. for_each (replicate 5 (withdrawal_event ''a'' 2000)) (processFraudChecks postgres default_config)
     (new_world empty_tables 5000 []) = (Ok (), w') \<and> rapid_alerts w' = 0"
proof -
  have all: "list_all2 (withdrawal_at ''a'') (replicate (Suc 4) 2000) (replicate 5 (withdrawal_event ''a'' 2000))"
    by (simp add: numeral_eq_Suc withdrawal_event_at)
  have w: "calm (new_world empty_tables 5000 [])" "rapid_alerts (new_world empty_tables 5000 []) = 0"
      "zset (withdrawals_key postgres (JStr ''a'')) (new_world empty_tables 5000 []) = Some []"
    by (simp_all add: calm_def new_world_def rapid_alerts_def empty_tables_def zset_def redis_lookup_def)
  show ?thesis
    using simultaneous_withdrawals_escape[OF w(1) _ w(3) all, where C = default_config] w(2)
    by (auto simp: default_config_def)
qed

theorem failed_check_is_dropped_witness:
  "\<exists>w1 w2. handleMessage postgres default_config (withdrawal_message 0) (new_world empty_tables 0 [Ack 0, Fail False redis_down]) =
     (Ok (), w1) \<and> handleMessage postgres default_config ((withdrawal_message 0)\<lparr>retry_count := Some (JNum (Fin 1))\<rparr>)
     (w1\<lparr>clock := clock w1 + 1000\<rparr>) = (Ok (), w2) \<and> fraudAlerts (db w2) = []"
proof -
  let ?w = "new_world empty_tables 0 [Ack 0, Fail False redis_down]"
  have "content (withdrawal_message 0) = Some (withdrawal_event ''a'' 0)" "retry_count (withdrawal_message 0) = None"
      "routing_key (withdrawal_message 0) = Some ''wallet.funds_withdrawn''" "''wallet.funds_withdrawn'' \<in> set getSupportedRoutingKeys"
      "script ?w = [Ack 0, Fail False redis_down]" "fraudAlerts (db ?w) = []"
      "redis_lookup (processed_event_key (generateIdempotencyKey postgres (withdrawal_event ''a'' 0))) ?w = None"
    by (simp_all add: withdrawal_message_def getSupportedRoutingKeys_def new_world_def redis_lookup_def empty_tables_def)
  with failed_check_is_dropped[OF this(1) withdrawal_event_at this(2-5) this(7)] show ?thesis by metis
qed

end
