(* ===== verification/SystemRuns.thy ===== *)
theory SystemRuns imports WalletController SagaRecovery OutboxRelay FraudDetection
begin

text \<open>
  The whole service: requests of clients, changes of status and limit, the three background jobs and
  the messages of the fraud queue, in any order, each under its own script and each of them failing
  or dying anywhere. Between two activities the environment may change everything but the committed
  tables. Activities do not overlap here; \<open>OverlappingRuns\<close> has those that do.

  The properties are about all such runs: money only enters and leaves through deposits and
  withdrawals, to the cent, no balance goes below zero (\<open>system_conserves_money\<close>), and the log of
  wallet events accounts for every balance (\<open>audit_trail_accounts_for_balances\<close>). Amounts are
  whole cents, and there is never more money than entity arithmetic is exact for.
\<close>

section \<open>Activities\<close>

datatype activity =
    PostDeposit string json "string option"
  | PostWithdraw string json "string option"
  | PostTransfer string json "string option"
  | GetBalance string
  | GetHistory string "nat option" "nat option"
  | FreezeWallet string string string
  | UnfreezeWallet string string
  | CloseWallet string string string
  | SetLimit string "number option" string "string option"
  | RecoveryJob string
  | RelayJob
  | FraudMessage amqp_message

definition silently :: "'a handler \<Rightarrow> unit handler" where
  "silently m = await m (\<lambda>_. ret ())"

fun serve :: "validators \<Rightarrow> platform \<Rightarrow> app_config \<Rightarrow> activity \<Rightarrow> unit handler" where
  "serve V P C (PostDeposit i body rid) = silently (post_deposit V P i body rid)"
| "serve V P C (PostWithdraw i body rid) = silently (post_withdraw V P i body rid)"
| "serve V P C (PostTransfer i body rid) = silently (post_transfer V P C i body rid)"
| "serve V P C (GetBalance i) = silently (get_balance P i)"
| "serve V P C (GetHistory i limit offset) = silently (get_history i limit offset)"
| "serve V P C (FreezeWallet i reason frozenBy) = freezeWallet P i reason frozenBy"
| "serve V P C (UnfreezeWallet i unfrozenBy) = unfreezeWallet P i unfrozenBy"
| "serve V P C (CloseWallet i reason closedBy) = closeWallet P i reason closedBy"
| "serve V P C (SetLimit i limit setBy reason) = setDailyWithdrawalLimit P i limit setBy reason"
| "serve V P C (RecoveryJob nodeEnv) = recoverStuckSagas P C nodeEnv"
| "serve V P C RelayJob = handleCron C"
| "serve V P C (FraudMessage msg) = handleMessage P C msg"

text \<open>The amount of a body in cents, and that it is a whole number of them.\<close>

definition cents_in :: "json \<Rightarrow> int" where
  "cents_in body = (case property body ''amount'' of JNum (Fin x) \<Rightarrow> \<lfloor>100 * x + 1 / 2\<rfloor> | _ \<Rightarrow> 0)"

definition whole_cents :: "json \<Rightarrow> bool" where
  "whole_cents body \<longleftrightarrow> property body ''amount'' = JNum (amount_of (cents_in body)) \<and>
     0 < cents_in body \<and> cents_in body \<le> 10 ^ 15 - 10"

text \<open>Accepted amounts are whole cents, and with a deposit there is no more money than entity
  arithmetic is exact for.\<close>

fun in_cents :: "validators \<Rightarrow> tables \<Rightarrow> activity \<Rightarrow> bool" where
  "in_cents V t (PostDeposit i body rid) \<longleftrightarrow> (DepositDto V body \<longrightarrow>
     whole_cents body \<and> money (ledger_of t) + cents_in body \<le> 10 ^ 15 - 10)"
| "in_cents V t (PostWithdraw i body rid) \<longleftrightarrow> (WithdrawDto V body \<longrightarrow> whole_cents body)"
| "in_cents V t (PostTransfer i body rid) \<longleftrightarrow> (TransferDto V body \<longrightarrow> whole_cents body)"
| "in_cents V t _ \<longleftrightarrow> True"

text \<open>The money an activity brought in, if it left an event in the log.\<close>

fun inflow :: "activity \<Rightarrow> tables \<Rightarrow> tables \<Rightarrow> int" where
  "inflow (PostDeposit i body rid) t t' = (if walletEvents t' = walletEvents t then 0 else cents_in body)"
| "inflow (PostWithdraw i body rid) t t' = (if walletEvents t' = walletEvents t then 0 else - cents_in body)"
| "inflow _ t t' = 0"

inductive system_run :: "validators \<Rightarrow> platform \<Rightarrow> app_config \<Rightarrow> world \<Rightarrow> int \<Rightarrow> world \<Rightarrow> bool"
  for V :: validators and P :: platform and C :: app_config where
  start: "system_run V P C w 0 w"
| environment: "system_run V P C w n w1 \<Longrightarrow> db w2 = db w1 \<Longrightarrow> system_run V P C w n w2"
| activity: "system_run V P C w n w1 \<Longrightarrow> in_cents V (db w1) a \<Longrightarrow> serve V P C a w1 = (r, w2) \<Longrightarrow>
    system_run V P C w (n + inflow a (db w1) (db w2)) w2"

section \<open>What one activity does\<close>

definition grows :: "platform \<Rightarrow> tables \<Rightarrow> int \<Rightarrow> tables \<Rightarrow> bool" where
  "grows P t n t' \<longleftrightarrow> sound_tables P t' \<and> money (ledger_of t') = money (ledger_of t) + n \<and> unexplained t' = unexplained t"

lemma grows_refl: "sound_tables P t \<Longrightarrow> grows P t 0 t"
  by (simp add: grows_def)

lemma grows_trans: "grows P t n t1 \<Longrightarrow> grows P t1 m t2 \<Longrightarrow> grows P t (n + m) t2"
  by (simp add: grows_def)

lemma grows_follows: "sound_tables P t \<Longrightarrow> follows P t t' \<Longrightarrow> grows P t 0 t'"
  using run_sound by (auto simp: grows_def follows_def sound_tables_def)

lemma grows_cong:
  "wallets t2 = wallets t1 \<Longrightarrow> sagas t2 = sagas t1 \<Longrightarrow> walletEvents t2 = walletEvents t1 \<Longrightarrow>
   uuidCount t1 \<le> uuidCount t2 \<Longrightarrow> grows P t n t1 \<Longrightarrow> grows P t n t2"
  unfolding grows_def sound_tables_def using ledger_of_cong[of t2 t1] unexplained_cong[of t2 t1]
  by simp (meson less_le_trans)

lemma grows_outbox: "grows P t n t' \<Longrightarrow> grows P t n (insert_outbox P es now t')"
  by (rule grows_cong[of _ t']) (simp_all add: insert_outbox_count)

lemma grows_wallet:
  assumes t: "sound_tables P t" and w: "wallets t' = (wallets t)(i \<mapsto> r)" "row_balance r = Cents b" "0 \<le> b"
    and u: "sagas t' = sagas t" "uuidCount t \<le> uuidCount t'"
    and e: "walletEvents t' = walletEvents t @ es" "b = owned t i + recorded i es" "\<And>j. j \<noteq> i \<Longrightarrow> recorded j es = 0"
    and m: "money (ledger_of t) + recorded i es \<le> 10 ^ 15 - 10"
  shows "grows P t (recorded i es) t'"
proof -
  have s: "sound_ledger (ledger_of t)" using t by (simp add: sound_tables_def)
  have l: "ledger_of t' = (ledger_of t)\<lparr>balances := (balances (ledger_of t))(i \<mapsto> b)\<rparr>"
    using u(1) w(2) by (simp add: ledger_of_def balance_cents_put[OF w(1)])
  have "sound_ledger (ledger_of t')" using s w(3) unfolding l by (auto simp: sound_ledger_def)
  moreover have money: "money (ledger_of t') = money (ledger_of t) + recorded i es"
    using s e(2) unfolding l
    by (auto simp: money_def sound_ledger_def total_of_update owned_def split: option.split)
  moreover have "unexplained t' = unexplained t"
    by (rule unexplained_put[OF w(1) e(1) _ e(3)]) (simp add: w(2) e(2))
  ultimately show ?thesis
    using t w m u unfolding grows_def sound_tables_def by (auto split: if_splits) (meson less_le_trans)
qed

text \<open>A movement of money: the wallet, and the event that accounts for the change.\<close>

lemma movement_count: "movement P i a ty operation rid auto t res es t' \<Longrightarrow> uuidCount t' = uuidCount t"
  by (auto simp: movement_def wallet_before_def opened_def split: if_splits option.splits)

lemma deposit_grows:
  assumes P: "decimal_column P" and t: "sound_tables P t" and k: "0 < k" "k \<le> 10 ^ 15 - 10"
    and m: "money (ledger_of t) + k \<le> 10 ^ 15 - 10"
    and mv: "movement P i (amount_of k) FUNDS_DEPOSITED (\<lambda>now. wallet_deposit (amount_of k)) rid True t a es t1"
  shows "grows P t k (insert_outbox P es now t1)" "walletEvents (insert_outbox P es now t1) \<noteq> walletEvents t"
proof -
  let ?t' = "insert_outbox P es now t1"
  have "exact_row k t i"
    unfolding exact_row_def using balance_bound[OF t] m by (smt (verit))
  then have d: "deposited i k rid t ?t'" by (rule movement_deposited[OF mv P k])
  then obtain r cs e where c: "wallets ?t' = (wallets t)(i \<mapsto> r)" "row_balance r = Cents (owned t i + k)"
      "walletEvents ?t' = walletEvents t @ cs @ [e]" "\<forall>c \<in> set cs. log_type c = WALLET_CREATED"
      "log_walletId e = i" "log_type e = FUNDS_DEPOSITED" "log_amount e = Some (Cents k)" "sagas ?t' = sagas t"
    unfolding deposited_def owned_def by auto
  have rec: "recorded j (cs @ [e]) = (if j = i then k else 0)" for j
    using recorded_created[OF c(4)] c(5-7) by (simp add: event_cents_def)
  have "0 \<le> owned t i" using t by (auto simp: owned_def sound_tables_def sound_ledger_def split: option.split)
  moreover have "uuidCount t \<le> uuidCount ?t'"
    using movement_count[OF mv] insert_outbox_count[of t1 P es now] by simp
  ultimately have "grows P t (recorded i (cs @ [e])) ?t'"
    by (intro grows_wallet[OF t c(1,2) _ c(8) _ c(3)]) (use rec k m in auto)
  then show "grows P t k ?t'" by (simp add: rec del: recorded_simps)
  show "walletEvents ?t' \<noteq> walletEvents t" using c(3) by simp
qed

lemma withdraw_grows:
  assumes P: "decimal_column P" and t: "sound_tables P t" and k: "0 < k" "k \<le> 10 ^ 15 - 10"
    and mv: "movement P i (amount_of k) FUNDS_WITHDRAWN (\<lambda>now. wallet_withdraw now now (amount_of k)) rid False t a es t1"
  shows "grows P t (- k) (insert_outbox P es now t1)" "walletEvents (insert_outbox P es now t1) \<noteq> walletEvents t"
proof -
  let ?t' = "insert_outbox P es now t1"
  have m: "money (ledger_of t) \<le> 10 ^ 15 - 10" using t by (simp add: sound_tables_def)
  have "exact_row 0 t i"
    unfolding exact_row_def using balance_bound[OF t] m by (smt (verit))
  then have d: "paid_out i k rid t ?t'" by (rule movement_paid_out[OF mv P k])
  then obtain j r e where c: "balance_cents t i = Some j" "k \<le> j" "wallets ?t' = (wallets t)(i \<mapsto> r)" "row_balance r = Cents (j - k)"
      "walletEvents ?t' = walletEvents t @ [e]"
      "log_walletId e = i" "log_type e = FUNDS_WITHDRAWN" "log_amount e = Some (Cents k)" "sagas ?t' = sagas t"
    unfolding paid_out_def by auto
  have rec: "recorded l [e] = (if l = i then - k else 0)" for l
    using c(6-8) by (simp add: event_cents_def)
  have "uuidCount t \<le> uuidCount ?t'"
    using movement_count[OF mv] insert_outbox_count[of t1 P es now] by simp
  then have "grows P t (recorded i [e]) ?t'"
    by (intro grows_wallet[OF t c(3,4) _ c(9) _ c(5)]) (use rec k m c(1,2) in \<open>auto simp: owned_def\<close>)
  then show "grows P t (- k) ?t'" by (simp add: rec del: recorded_simps)
  show "walletEvents ?t' \<noteq> walletEvents t" using c(5) by simp
qed

text \<open>A change of status or limit keeps the balance and logs an event without an amount.\<close>

lemma state_change_grows:
  assumes P: "decimal_column P" and t: "sound_tables P t" and s: "state_change P i ty operation t es t1"
    and keeps: "\<And>v v'. operation v = (Ok (), v') \<Longrightarrow> balance v' = balance v"
  shows "grows P t 0 t1"
proof -
  obtain r0 v r e m where c: "wallets t i = Some r0" "operation (wallet_of_row i r0) = (Ok (), v)" "stored P v r"
      "logged P i ty (currency v) None m e" "t1 = put i r [e] t"
    using s unfolding state_change_def by blast
  obtain j where j: "row_balance r0 = Cents j" "balance_cents t i = Some j" "0 \<le> j" "j \<le> money (ledger_of t)"
    using t c(1) by (rule balance_bound)
  have m: "money (ledger_of t) \<le> 10 ^ 15 - 10" using t by (simp add: sound_tables_def)
  have "balance v = decimal_from (Cents j)"
    using keeps[OF c(2)] j(1) by (simp add: wallet_of_row_def del: decimal_from.simps)
  then have r: "row_balance r = Cents j"
    using c(3) decimal_roundtrip[OF P j(3)] j(4) m by (simp add: stored_def del: decimal_from.simps)
  have rec: "recorded l [e] = 0" for l
    using logged_no_cents[OF c(4)] by (cases "l = i") (auto simp: event_cents_def)
  have "grows P t (recorded i [e]) t1"
    by (rule grows_wallet[OF t _ r j(3)]) (use rec m c(5) j(2) in \<open>auto simp: owned_def simp del: recorded_simps(3)\<close>)
  then show ?thesis by (simp add: rec del: recorded_simps)
qed

lemma status_operations_keep_balance:
  "wallet_freeze v = (Ok (), v') \<Longrightarrow> balance v' = balance v"
  "wallet_unfreeze v = (Ok (), v') \<Longrightarrow> balance v' = balance v"
  "wallet_close v = (Ok (), v') \<Longrightarrow> balance v' = balance v"
  "wallet_setDailyWithdrawalLimit l v = (Ok (), v') \<Longrightarrow> balance v' = balance v"
  by (auto simp: run_simps split: if_splits option.splits)

section \<open>Every activity keeps the books\<close>

text \<open>What is shown of every activity, from sound tables.\<close>

definition accounted :: "platform \<Rightarrow> activity \<Rightarrow> tables \<Rightarrow> tables \<Rightarrow> bool" where
  "accounted P a t t' \<longleftrightarrow> grows P t (inflow a t t') t'"

lemma accounted_same: "sound_tables P t \<Longrightarrow> accounted P a t t"
  unfolding accounted_def by (cases a) (simp_all add: grows_refl)

lemma silently_outcomes:
  "outcomes I m (\<lambda>r w. J (db w)) \<Longrightarrow> outcomes I (silently m) (\<lambda>r w. J (db w))"
  unfolding silently_def by (rule outcomes_await) (auto intro: outcomes_ret)

lemma respond_silently:
  "outcomes I m (\<lambda>r w. J (db w)) \<Longrightarrow> outcomes I (silently (respond m)) (\<lambda>r w. J (db w))"
  by (rule silently_outcomes, drule respond_outcomes[where J = "\<lambda>w. J (db w)"], erule outcomes_weaken) auto

lemma refused: "sound_tables P t \<Longrightarrow> outcomes (\<lambda>w. db w = t) (silently (ret x)) (\<lambda>r w. accounted P a t (db w))"
  by (rule silently_outcomes) (auto intro!: outcomes_ret accounted_same)

lemma deposit_accounted:
  assumes "decimal_column P" "sound_tables P t" "in_cents V t (PostDeposit i body rid)"
  shows "outcomes (\<lambda>w. db w = t) (silently (post_deposit V P i body rid))
    (\<lambda>r w. accounted P (PostDeposit i body rid) t (db w))"
proof (cases "DepositDto V body")
  case True
  let ?k = "cents_in body" and ?a = "PostDeposit i body rid"
  have k: "property body ''amount'' = JNum (amount_of ?k)" "0 < ?k" "?k \<le> 10 ^ 15 - 10" "money (ledger_of t) + ?k \<le> 10 ^ 15 - 10"
    using assms(3) True by (simp_all add: whole_cents_def)
  have "accounted P ?a t t'"
    if "requested P rid (movement P i (amount_of ?k) FUNDS_DEPOSITED (\<lambda>now. wallet_deposit (amount_of ?k)) rid True) t r t'" for r t'
    using that unfolding requested_def
  proof (elim disjE exE conjE)
    fix res es t1 now
    assume mv: "movement P i (amount_of ?k) FUNDS_DEPOSITED (\<lambda>now. wallet_deposit (amount_of ?k)) rid True t res es t1"
      and t': "t' = insert_outbox P es now t1"
    show "accounted P ?a t t'"
      using deposit_grows[OF assms(1,2) k(2-4) mv, of now] unfolding accounted_def t' by simp
  qed (simp add: accounted_same[OF assms(2)])
  then have "outcomes (\<lambda>w. db w = t) (deposit P i (amount_of ?k) rid) (\<lambda>r w. accounted P ?a t (db w))"
    by (intro outcomes_weaken[OF deposit_requested]) auto
  then show ?thesis using True k(1) respond_silently by (simp add: post_deposit_def)
qed (simp add: post_deposit_def refused assms(2))

lemma withdraw_accounted:
  assumes "decimal_column P" "sound_tables P t" "in_cents V t (PostWithdraw i body rid)"
  shows "outcomes (\<lambda>w. db w = t) (silently (post_withdraw V P i body rid))
    (\<lambda>r w. accounted P (PostWithdraw i body rid) t (db w))"
proof (cases "WithdrawDto V body")
  case True
  let ?k = "cents_in body" and ?a = "PostWithdraw i body rid"
  have k: "property body ''amount'' = JNum (amount_of ?k)" "0 < ?k" "?k \<le> 10 ^ 15 - 10"
    using assms(3) True by (simp_all add: whole_cents_def)
  have "accounted P ?a t t'"
    if "requested P rid (movement P i (amount_of ?k) FUNDS_WITHDRAWN (\<lambda>now. wallet_withdraw now now (amount_of ?k)) rid False) t r t'" for r t'
    using that unfolding requested_def
  proof (elim disjE exE conjE)
    fix res es t1 now
    assume mv: "movement P i (amount_of ?k) FUNDS_WITHDRAWN (\<lambda>now. wallet_withdraw now now (amount_of ?k)) rid False t res es t1"
      and t': "t' = insert_outbox P es now t1"
    show "accounted P ?a t t'"
      using withdraw_grows[OF assms(1,2) k(2,3) mv, of now] unfolding accounted_def t' by simp
  qed (simp add: accounted_same[OF assms(2)])
  then have "outcomes (\<lambda>w. db w = t) (withdraw P i (amount_of ?k) rid) (\<lambda>r w. accounted P ?a t (db w))"
    by (intro outcomes_weaken[OF withdraw_requested]) auto
  then show ?thesis using True k(1) respond_silently by (simp add: post_withdraw_def)
qed (simp add: post_withdraw_def refused assms(2))

lemma transfer_accounted:
  assumes "decimal_column P" "distinct_uuids P" "sound_tables P t" "in_cents V t (PostTransfer i body rid)"
  shows "outcomes (\<lambda>w. db w = t) (silently (post_transfer V P C i body rid))
    (\<lambda>r w. accounted P (PostTransfer i body rid) t (db w))"
proof (cases "TransferDto V body")
  case True
  let ?k = "cents_in body" and ?g = "string_field (property body ''toWalletId'')"
  have k: "property body ''amount'' = JNum (amount_of ?k)" "0 < ?k" "?k \<le> 10 ^ 15 - 10"
    using assms(4) True by (simp_all add: whole_cents_def)
  have "outcomes (\<lambda>w. db w = t) (executeTransfer P C i ?g (amount_of ?k) rid)
      (\<lambda>r w. accounted P (PostTransfer i body rid) t (db w))"
    by (rule outcomesI)
       (use transfer_follows[OF assms(1,2) _ k(2,3)] grows_follows assms(3) in \<open>auto simp: accounted_def\<close>)
  then show ?thesis using True k(1) respond_silently by (simp add: post_transfer_def)
qed (simp add: post_transfer_def refused assms(3))

text \<open>A change of status: the transaction, and the cache after it.\<close>

lemma commit_then_cache:
  assumes "outcomes (\<lambda>w. J (db w)) (execute P operation opts) (\<lambda>r w. J (db w) \<and> (\<forall>a. r = Ok a \<longrightarrow> K a (db w)))"
  shows "outcomes (\<lambda>w. J (db w)) (await (execute P operation opts) (\<lambda>_. invalidateBalanceCache i)) (\<lambda>r w. J (db w))"
  by (rule outcomes_await[OF outcomes_weaken[OF assms, where Q' = "\<lambda>r w. J (db w)"]
        outcomes_same_tables[OF tables_invalidateBalanceCache]]) auto

lemma status_keeps:
  assumes "decimal_column P" and "grows P t 0 t1" and "state_change P i ty operation t1 es t2"
    and "\<And>v v'. operation v = (Ok (), v') \<Longrightarrow> balance v' = balance v"
  shows "grows P t 0 t2"
  using grows_trans[OF assms(2) state_change_grows[OF assms(1) _ assms(3,4)]] assms(2) by (simp add: grows_def)

lemma status_grows:
  assumes P: "decimal_column P"
  shows "outcomes (\<lambda>w. grows P t 0 (db w)) (freezeWallet P i reason actor) (\<lambda>r w. grows P t 0 (db w))"
    "outcomes (\<lambda>w. grows P t 0 (db w)) (unfreezeWallet P i actor) (\<lambda>r w. grows P t 0 (db w))"
    "outcomes (\<lambda>w. grows P t 0 (db w)) (closeWallet P i reason actor) (\<lambda>r w. grows P t 0 (db w))"
    "outcomes (\<lambda>w. grows P t 0 (db w)) (setDailyWithdrawalLimit P i limit actor why) (\<lambda>r w. grows P t 0 (db w))"
proof -
  let ?J = "\<lambda>w::world. grows P t 0 (db w)"
  note step = status_keeps[OF P _ _ status_operations_keep_balance(1)] status_keeps[OF P _ _ status_operations_keep_balance(2)]
    status_keeps[OF P _ _ status_operations_keep_balance(3)] status_keeps[OF P _ _ status_operations_keep_balance(4)]
  have get: "(\<And>w. outcomes ?J (k w) (\<lambda>r. ?J)) \<Longrightarrow> outcomes ?J (await get_state k) (\<lambda>r. ?J)" for k :: "world \<Rightarrow> unit handler"
    by (auto simp: outcomes_def await_def get_state_def)
  show "outcomes ?J (freezeWallet P i reason actor) (\<lambda>r. ?J)"
    unfolding freezeWallet_def executeStateChange_def
    by (rule get, rule commit_then_cache, rule freeze_tx.execute_outcomes[where K = "\<lambda>_ _. True"])
       (auto intro: step(1) grows_outbox)
  show "outcomes ?J (unfreezeWallet P i actor) (\<lambda>r. ?J)"
    unfolding unfreezeWallet_def executeStateChange_def
    by (rule get, rule commit_then_cache, rule unfreeze_tx.execute_outcomes[where K = "\<lambda>_ _. True"])
       (auto intro: step(2) grows_outbox)
  show "outcomes ?J (closeWallet P i reason actor) (\<lambda>r. ?J)"
    unfolding closeWallet_def executeStateChange_def
    by (rule get, rule commit_then_cache, rule close_tx.execute_outcomes[where K = "\<lambda>_ _. True"])
       (auto intro: step(3) grows_outbox)
  show "outcomes ?J (setDailyWithdrawalLimit P i limit actor why) (\<lambda>r. ?J)"
    unfolding setDailyWithdrawalLimit_def
    by (rule outcomes_weaken[OF limit_tx.execute_outcomes[where J = "grows P t 0" and K = "\<lambda>_ _. True"]])
       (auto intro: step(4) grows_outbox)
qed

text \<open>The jobs and the consumer.\<close>

definition same_books :: "world \<Rightarrow> world \<Rightarrow> bool" where
  "same_books w w' \<longleftrightarrow> wallets (db w') = wallets (db w) \<and> sagas (db w') = sagas (db w) \<and>
     walletEvents (db w') = walletEvents (db w) \<and> uuidCount (db w') = uuidCount (db w)"

interpretation book_contract: consumer_contract same_books
  by unfold_locales (auto simp: same_books_def)

lemma same_books_grows: "same_books w w' \<Longrightarrow> grows P t n (db w) \<Longrightarrow> grows P t n (db w')"
  by (rule grows_cong[of _ "db w"]) (auto simp: same_books_def)

lemma books_tables: "obeys same_tables m \<Longrightarrow> obeys same_books m"
  by (auto simp: obeys_def same_tables_def same_books_def)

lemma books_message: "obeys same_books (handleMessage P C msg)"
  by (rule book_contract.consumer_message) (simp add: same_books_def)

lemma books_kept: "obeys same_books m \<Longrightarrow> sound_tables P t \<Longrightarrow> outcomes (\<lambda>w. db w = t) m (\<lambda>r w. grows P t 0 (db w))"
  by (rule outcomesI) (auto intro: same_books_grows dest: obeysD grows_refl)

lemma tables_queries: "obeys same_tables (getBalance P i)" "obeys same_tables (getHistory i n k)"
  unfolding getBalance_def getHistory_def getEventHistory_def by (intro tables_contract.obeys_control step_rules)+

lemmas books_queries = tables_queries[THEN books_tables]

lemma relay_grows:
  assumes "sound_tables P t"
  shows "outcomes (\<lambda>w. db w = t) (handleCron C) (\<lambda>r w. grows P t 0 (db w))"
proof (rule outcomes_weaken[OF handleCron_outcomes])
  fix r w assume "relayed C t w \<and> (r = Ok () \<or> r = Crash)"
  then show "grows P t 0 (db w)"
    by (auto simp: relayed_def set_published_def intro!: grows_cong[OF _ _ _ _ grows_refl[OF assms]])
qed auto

lemma worker_grows:
  assumes "decimal_column P" "distinct_uuids P" "sound_tables P t"
  shows "outcomes (\<lambda>w. db w = t) (recoverStuckSagas P C nodeEnv) (\<lambda>r w. grows P t 0 (db w))"
proof (rule outcomesI)
  fix w r w' assume t: "db w = t" and run: "recoverStuckSagas P C nodeEnv w = (r, w')"
  show "grows P t 0 (db w')"
  proof (cases "nodeEnv = ''test'' \<or> isRecovering w")
    case True
    then have "db w' = t"
      using run t by (auto simp: recoverStuckSagas_def processStuckSagas_def ret_def await_def get_state_def split: if_splits)
    then show ?thesis using grows_refl[OF assms(3)] by simp
  next
    case False
    then have "follows P t (db w')"
      using run t processStuckSagas_outcomes[OF assms(1,2), of w] assms(3) by (simp add: recoverStuckSagas_def)
    then show ?thesis by (rule grows_follows[OF assms(3)])
  qed
qed

lemma serve_accounted:
  assumes P: "decimal_column P" "distinct_uuids P" and t: "sound_tables P t" and c: "in_cents V t a"
  shows "outcomes (\<lambda>w. db w = t) (serve V P C a) (\<lambda>r w. accounted P a t (db w))"
proof -
  have start: "outcomes (\<lambda>w. grows P t 0 (db w)) m (\<lambda>r w. grows P t 0 (db w)) \<Longrightarrow>
      outcomes (\<lambda>w. db w = t) m (\<lambda>r w. grows P t 0 (db w))" for m :: "unit handler"
    by (erule outcomes_weaken) (simp_all add: grows_refl[OF t])
  show ?thesis
  proof (cases a)
    case (PostDeposit i body rid)
    then show ?thesis using deposit_accounted[OF P(1) t] c by simp
  next
    case (PostWithdraw i body rid)
    then show ?thesis using withdraw_accounted[OF P(1) t] c by simp
  next
    case (PostTransfer i body rid)
    then show ?thesis using transfer_accounted[OF P t] c by simp
  next
    case (GetBalance i)
    then show ?thesis
      using respond_silently[OF books_kept[OF books_queries(1) t]] by (simp add: accounted_def get_balance_def)
  next
    case (RecoveryJob nodeEnv)
    then show ?thesis using worker_grows[OF P t] by (simp add: accounted_def)
  next
    case (FraudMessage msg)
    then show ?thesis using books_kept[OF books_message t] by (simp add: accounted_def)
  qed (use t P in \<open>auto simp: accounted_def get_history_def intro!: start status_grows silently_outcomes
      books_kept books_queries relay_grows\<close>)
qed

section \<open>The properties of the whole service\<close>

lemma system_grows:
  assumes "system_run V P C w n w'" and "decimal_column P" "distinct_uuids P" "sound_tables P (db w)"
  shows "grows P (db w) n (db w')"
  using assms
proof (induction rule: system_run.induct)
  case (start w)
  then show ?case by (simp add: grows_refl)
next
  case (environment w n w1 w2)
  then show ?case by simp
next
  case (activity w n w1 a r w2)
  then have g: "grows P (db w) n (db w1)" by blast
  then have "sound_tables P (db w1)" by (simp add: grows_def)
  from outcomesD[OF serve_accounted[OF activity.prems(1,2) this activity.hyps(2)] refl activity.hyps(3)]
  show ?case by (simp add: accounted_def grows_trans[OF g])
qed

text \<open>In every run of the whole service, with clients, administrators, background jobs and
  messages in any order and failures and crashes anywhere, money only enters and leaves through
  deposits and withdrawals: the balances and the money in flight add up to what they were, plus
  what was deposited, minus what was withdrawn, to the cent; and no balance is ever negative.\<close>

theorem system_conserves_money:
  assumes "system_run V P C w n w'" and "decimal_column P" and "distinct_uuids P" and "sound_tables P (db w)"
  shows "money (ledger_of (db w')) = money (ledger_of (db w)) + n \<and>
    (\<forall>i b. balance_cents (db w') i = Some b \<longrightarrow> 0 \<le> b)"
  using system_grows[OF assms] by (auto simp: grows_def sound_tables_def sound_ledger_def)

text \<open>The log of wallet events is an audit trail of the whole service: if it accounts for every
  balance, then after any run of the service, with failures and crashes anywhere, the balance of
  every wallet is still the sum of the deposits, withdrawals and refunds its events record.\<close>

theorem audit_trail_accounts_for_balances:
  assumes "system_run V P C w n w'" and "decimal_column P" and "distinct_uuids P" and "sound_tables P (db w)"
    and "\<forall>i. owned (db w) i = recorded i (walletEvents (db w))"
  shows "owned (db w') i = recorded i (walletEvents (db w'))"
  using system_grows[OF assms(1-4)] assms(5) by (simp add: grows_def unexplained_def fun_eq_iff)

section \<open>A concrete run\<close>

text \<open>A wallet of ten dollars with its event, and a deposit of one dollar.\<close>

definition first_event :: event_row where
  "first_event = \<lparr>log_id = 1, log_walletId = ''a'', log_type = FUNDS_DEPOSITED, log_currency = ''USD'',
     log_amount = Some (Cents 1000), log_metadata = JNull, log_createdAt = 0\<rparr>"

definition audited_world :: world where
  "audited_world = new_world (sample_tables\<lparr>walletEvents := [first_event]\<rparr>) 0 []"

definition one_dollar :: json where
  "one_dollar = JObj [(''amount'', JNum (Fin 1))]"

lemma one_dollar_cents: "cents_in one_dollar = 100" "whole_cents one_dollar" "DepositDto class_validators one_dollar"
    "amount_of 100 = Fin 1"
proof -
  show a: "amount_of 100 = Fin 1"
    using round_double_grid[of 1 0] decimal_from_cents[of 100] by (simp add: amount_of_def del: decimal_from.simps)
  show c: "cents_in one_dollar = 100" by (simp add: cents_in_def one_dollar_def)
  show "whole_cents one_dollar" using a c by (simp add: whole_cents_def) (simp add: one_dollar_def)
  show "DepositDto class_validators one_dollar" by (simp add: DepositDto_def class_validators_def one_dollar_def)
qed

lemma audited_facts:
  "calm audited_world" "sound_tables P (db audited_world)" "money (ledger_of (db audited_world)) = 1000"
  "\<forall>i. owned (db audited_world) i = recorded i (walletEvents (db audited_world))"
  "wallets (db audited_world) ''a'' = Some (sample_row 1000)" "fresh_request None audited_world"
proof -
  have l: "ledger_of (sample_tables\<lparr>walletEvents := es\<rparr>) = ledger_of sample_tables" for es by (rule ledger_of_cong) simp_all
  show "sound_tables P (db audited_world)"
    using sample_sound[of P] unfolding sound_tables_def by (simp add: audited_world_def new_world_def l)
  show "money (ledger_of (db audited_world)) = 1000"
    using sample_ledger by (simp add: audited_world_def new_world_def l money_def total_of_pair) (simp add: total_of_def)
  show "\<forall>i. owned (db audited_world) i = recorded i (walletEvents (db audited_world))"
    by (auto simp: audited_world_def new_world_def owned_def balance_cents_def sample_tables_def empty_tables_def
      event_cents_def first_event_def)
qed (simp_all add: audited_world_def new_world_def calm_def fresh_request_def)

lemma one_dollar_run:
  "\<exists>w'. serve class_validators postgres default_config (PostDeposit ''a'' one_dollar None) audited_world = (Ok (), w') \<and>
    system_run class_validators postgres default_config audited_world 100 w' \<and>
    wallets (db w') ''a'' \<noteq> None"
proof -
  let ?a = "PostDeposit ''a'' one_dollar None" and ?w = audited_world
  have ok: "in_cents class_validators (db ?w) ?a"
    using one_dollar_cents audited_facts(3) by simp
  obtain j w' where run: "deposit postgres ''a'' (amount_of 100) None ?w = (Ok j, w')"
    using deposit_calm[of postgres ?w None "''a''" "sample_row 1000" 1000 100] audited_facts(1,5,6) by auto
  have "property one_dollar ''amount'' = JNum (amount_of 100)"
    using one_dollar_cents(2) by (simp add: whole_cents_def one_dollar_cents(1))
  then have s: "serve class_validators postgres default_config ?a ?w = (Ok (), w')"
    using run one_dollar_cents(3)
    by (simp add: silently_def post_deposit_def respond_def await_run try_catch_run ret_run)
  have d: "deposited ''a'' 100 None (db ?w) (db w')"
    using deposit_cases[OF _ _ _ _ run] audited_facts(2) 
    by (auto simp: given_def audited_facts(5) exact_row_def)
  then have e: "walletEvents (db w') \<noteq> walletEvents (db ?w)" "wallets (db w') ''a'' \<noteq> None"
    by (auto simp: deposited_def)
  have "system_run class_validators postgres default_config ?w (0 + inflow ?a (db ?w) (db w')) w'"
    by (rule system_run.activity[OF system_run.start ok s])
  then show ?thesis using s e by (simp add: one_dollar_cents(1)) 
qed

theorem system_conserves_money_witness:
  "\<exists>w'. serve class_validators postgres default_config (PostDeposit ''a'' one_dollar None) audited_world = (Ok (), w') \<and>
    money (ledger_of (db w')) = 1100"
proof -
  obtain w' where w': "serve class_validators postgres default_config (PostDeposit ''a'' one_dollar None) audited_world = (Ok (), w')"
      "system_run class_validators postgres default_config audited_world 100 w'"
    using one_dollar_run by blast
  have "money (ledger_of (db w')) = 1000 + 100"
    using system_conserves_money[OF w'(2) _ _ audited_facts(2)] audited_facts(3) by simp
  with w'(1) show ?thesis by auto
qed

theorem audit_trail_accounts_for_balances_witness:
  "\<exists>w'. serve class_validators postgres default_config (PostDeposit ''a'' one_dollar None) audited_world = (Ok (), w') \<and>
    owned (db w') ''a'' = recorded ''a'' (walletEvents (db w'))"
proof -
  obtain w' where w': "serve class_validators postgres default_config (PostDeposit ''a'' one_dollar None) audited_world = (Ok (), w')"
      "system_run class_validators postgres default_config audited_world 100 w'"
    using one_dollar_run by blast
  have "owned (db w') ''a'' = recorded ''a'' (walletEvents (db w'))"
    by (rule audit_trail_accounts_for_balances[OF w'(2) _ _ audited_facts(2,4)]) simp_all
  with w'(1) show ?thesis by blast
qed

end
