(* ===== verification/RetryLoop.thy ===== *)
theory RetryLoop imports TransferService
begin

text \<open>
  The retry loop of the transfer service (\<open>executeWithRetry\<close>) against a reference that spells out
  its attempts: it ends, after at most the configured number of attempts, and says what came of the
  last one. \<open>Math.random\<close> is in the unit interval (\<open>random_jitter\<close>).
\<close>

definition random_jitter :: "platform \<Rightarrow> bool" where
  "random_jitter P \<longleftrightarrow> (\<forall>n. 0 \<le> jitterOf P n \<and> jitterOf P n < 1)"

text \<open>\<open>n\<close> attempts that failed with a retryable error, each followed by a wait of up to 5.1
  seconds.\<close>

inductive failed_attempts :: "'a handler \<Rightarrow> world \<Rightarrow> nat \<Rightarrow> world \<Rightarrow> bool" for operation :: "'a handler" where
  none: "failed_attempts operation w 0 w"
| again: "operation w = (Throw e, w1) \<Longrightarrow> isRetryableError e \<Longrightarrow> 0 \<le> d \<Longrightarrow> d \<le> 5100 \<Longrightarrow>
    failed_attempts operation (w1\<lparr>clock := clock w1 + d\<rparr>) n w' \<Longrightarrow> failed_attempts operation w (Suc n) w'"

definition gave_up :: error where
  "gave_up = PlainError ''Operation failed due to concurrent modification. Please retry.''"

lemma backoff_bounds:
  assumes "0 \<le> j" "j < 1"
  shows "0 \<le> \<lceil>backoff_ms attempt initial j\<rceil>" "\<lceil>backoff_ms attempt initial j\<rceil> \<le> 5100"
proof -
  have "0 \<le> backoff_ms attempt initial j" using assms(1) by (simp add: backoff_ms_def)
  then show "0 \<le> \<lceil>backoff_ms attempt initial j\<rceil>" by simp
  have "min (2 ^ attempt * of_nat initial) 5000 \<le> (5000 :: rat)" by simp
  then have "backoff_ms attempt initial j \<le> 5100" unfolding backoff_ms_def using assms(2) by linarith
  then show "\<lceil>backoff_ms attempt initial j\<rceil> \<le> 5100" by (simp add: ceiling_le_iff)
qed

lemma retry_loop_attempts:
  assumes "random_jitter P"
  shows "retry_loop P C left attempt operation w = (r, w') \<Longrightarrow>
    \<exists>n w1. failed_attempts operation w n w1 \<and>
      ((n < left \<and> operation w1 = (r, w') \<and> (\<forall>e. r = Throw e \<longrightarrow> \<not> isRetryableError e)) \<or>
       (n = left \<and> r = Throw gave_up \<and> w' = w1))"
proof (induction left arbitrary: attempt w)
  case 0
  then show ?case by (auto simp: throw_def gave_up_def intro: failed_attempts.none)
next
  case (Suc k)
  obtain r1 w1 where op: "operation w = (r1, w1)" by fastforce
  show ?case
  proof (cases "\<exists>e. r1 = Throw e \<and> isRetryableError e")
    case True
    then obtain e where e: "r1 = Throw e" "isRetryableError e" by blast
    let ?d = "\<lceil>backoff_ms attempt (initialBackoffMs C) (jitterOf P (nat (clock w1)))\<rceil>"
    let ?w2 = "w1\<lparr>clock := clock w1 + ?d\<rparr>"
    have wait: "performExponentialBackoff P attempt (initialBackoffMs C) w1 = (Ok (), ?w2)"
      by (simp add: performExponentialBackoff_def sleep_def await_def get_state_def modify_def)
    have "retry_loop P C k (Suc attempt) operation ?w2 = (r, w')"
      using Suc.prems op e wait by (simp add: try_catch_def await_run)
    from Suc.IH[OF this] obtain n w3 where n: "failed_attempts operation ?w2 n w3"
        "(n < k \<and> operation w3 = (r, w') \<and> (\<forall>e. r = Throw e \<longrightarrow> \<not> isRetryableError e)) \<or>
         (n = k \<and> r = Throw gave_up \<and> w' = w3)"
      by blast
    have j: "0 \<le> jitterOf P n" "jitterOf P n < 1" for n using assms by (simp_all add: random_jitter_def)
    have d: "0 \<le> ?d" "?d \<le> 5100" by (rule backoff_bounds[OF j])+
    have "failed_attempts operation w (Suc n) w3"
      by (rule failed_attempts.again[OF _ e(2) d n(1)]) (simp add: op e(1))
    then show ?thesis using n(2) by auto
  next
    case False
    then have "r = r1 \<and> w' = w1" using Suc.prems op by (cases r1) (auto simp: try_catch_def throw_def)
    then show ?thesis using op False by (intro exI[of _ 0] exI[of _ w]) (auto intro: failed_attempts.none)
  qed
qed

text \<open>C13: The retry loop of the transfer service always ends, after at most the configured number of
  attempts: it repeats only after retryable errors, with waits of at most 5.1 seconds; it hands on
  the first resolution, the first other error or the crash of an attempt as it is; and it rejects
  with its own error only when all attempts have failed with retryable ones.\<close>

theorem retries_are_bounded:
  assumes "random_jitter P" and "executeWithRetry P C operation w = (r, w')"
  shows "\<exists>n w1. failed_attempts operation w n w1 \<and>
    ((n < maxRetries C \<and> operation w1 = (r, w') \<and> (\<forall>e. r = Throw e \<longrightarrow> \<not> isRetryableError e)) \<or>
     (n = maxRetries C \<and> r = Throw gave_up \<and> w' = w1))"
  by (rule retry_loop_attempts[OF assms(1) assms(2)[unfolded executeWithRetry_def]])

text \<open>A step that meets one serialization failure and then resolves.\<close>

definition contended :: "unit handler" where
  "contended = extern (\<lambda>w. (Inr (), w))"

theorem retries_are_bounded_witness:
  "\<exists>n w1 w'. executeWithRetry postgres default_config contended
      (new_world empty_tables 0 [Fail False (DriverError ''40001'' ''QueryFailedError'' ''could not serialize access'')]) = (Ok (), w') \<and>
    failed_attempts contended
      (new_world empty_tables 0 [Fail False (DriverError ''40001'' ''QueryFailedError'' ''could not serialize access'')]) n w1 \<and>
    n < 10 \<and> contended w1 = (Ok (), w')"
proof -
  let ?w = "new_world empty_tables 0 [Fail False (DriverError ''40001'' ''QueryFailedError'' ''could not serialize access'')]"
  let ?w1 = "?w\<lparr>script := []\<rparr>" and ?C = default_config
  let ?w2 = "?w1\<lparr>clock := clock ?w1 + \<lceil>backoff_ms 0 (initialBackoffMs ?C) (jitterOf postgres (nat (clock ?w1)))\<rceil>\<rparr>"
  have 1: "contended ?w = (Throw (DriverError ''40001'' ''QueryFailedError'' ''could not serialize access''), ?w1)"
    by (simp add: contended_def extern_def new_world_def)
  have 2: "await (performExponentialBackoff postgres 0 (initialBackoffMs ?C)) k ?w1 = k () ?w2" for k :: "unit \<Rightarrow> unit handler"
    unfolding performExponentialBackoff_def sleep_def await_def get_state_def modify_def by simp
  have 3: "contended ?w2 = (Ok (), ?w2)" by (simp add: contended_def extern_def perform_def)
  have "retry_loop postgres ?C (Suc 9) 0 contended ?w = retry_loop postgres ?C 9 (Suc 0) contended ?w2"
    unfolding retry_loop.simps(2) try_catch_def 1 prod.case outcome.case by (simp only: isRetryableError.simps if_True simp_thms 2 One_nat_def)
  moreover have "retry_loop postgres ?C (Suc 8) (Suc 0) contended ?w2 = (Ok (), ?w2)"
    unfolding retry_loop.simps(2) try_catch_def 3 by simp
  ultimately have run: "executeWithRetry postgres ?C contended ?w = (Ok (), ?w2)"
    by (simp add: executeWithRetry_def default_config_def)
  have "random_jitter postgres" by (simp add: random_jitter_def postgres_def)
  from retries_are_bounded[OF this run] show ?thesis using run by (auto simp: default_config_def)
qed

end
