(* ===== verification/RoundTrips.thy ===== *)
theory RoundTrips imports WalletGuarantees
begin

text \<open>
  What is saved is found again: a wallet whose amounts are whole cents survives the trip through the
  columns of its row, decimals, nullable limit and dates included, and comes back as it went, but
  for what the database assigns (version and times) and for a withdrawal date, which loses its time
  of day.
\<close>

text \<open>Amounts that are whole numbers of cents within the range of exactness.\<close>

definition cent_amount :: "number \<Rightarrow> bool" where
  "cent_amount a \<longleftrightarrow> (\<exists>k. a = amount_of k \<and> 0 \<le> k \<and> k \<le> 10 ^ 15)"

definition cent_wallet :: "wallet \<Rightarrow> bool" where
  "cent_wallet v \<longleftrightarrow> cent_amount (balance v) \<and> cent_amount (dailyWithdrawalTotal v) \<and>
     (case dailyWithdrawalLimit v of None \<Rightarrow> True | Some l \<Rightarrow> cent_amount l) \<and>
     length (wallet_id v) \<le> 255 \<and> length (currency v) \<le> 3"

text \<open>A date as it comes back from its column.\<close>

definition day_of :: "platform \<Rightarrow> js_date \<Rightarrow> js_date" where
  "day_of P d = (case d of NoDate \<Rightarrow> NoDate | DateObject t \<Rightarrow> DateText (dateColumn P t) | DateText n \<Rightarrow> DateText n)"

lemma date_from_to: "date_from (date_to P d) = day_of P d"
  by (cases d) (simp_all add: date_from_def date_to_def day_of_def)

lemma cent_amount_column:
  "decimal_column P \<Longrightarrow> cent_amount a \<Longrightarrow> \<exists>z. decimal_to P a = Inr z \<and> decimal_from z = a"
  using amount_to unfolding cent_amount_def amount_of_def by blast

lemma row_round_trip:
  assumes P: "decimal_column P" and v: "cent_wallet v"
  shows "\<exists>r. row_of_wallet P now old v = Inr r \<and> wallet_of_row (wallet_id v) r =
    v\<lparr>lastWithdrawalDate := day_of P (lastWithdrawalDate v),
      version := (case old of None \<Rightarrow> 1 | Some r0 \<Rightarrow> row_version r0 + 1),
      createdAt := Some (case old of None \<Rightarrow> now | Some r0 \<Rightarrow> row_createdAt r0), updatedAt := Some now\<rparr>"
proof -
  obtain b t where bt: "decimal_to P (balance v) = Inr b" "decimal_from b = balance v"
      "decimal_to P (dailyWithdrawalTotal v) = Inr t" "decimal_from t = dailyWithdrawalTotal v"
    using cent_amount_column[OF P] v unfolding cent_wallet_def by metis
  obtain l where l: "decimal_to_nullable P (dailyWithdrawalLimit v) = Inr l" "map_option decimal_from l = dailyWithdrawalLimit v"
  proof (cases "dailyWithdrawalLimit v")
    case None
    then show ?thesis using that[of None] by (simp add: decimal_to_nullable_def)
  next
    case (Some a)
    then obtain z where "decimal_to P a = Inr z" "decimal_from z = a"
      using cent_amount_column[OF P, of a] v by (auto simp: cent_wallet_def)
    then show ?thesis using that[of "Some z"] Some by (simp add: decimal_to_nullable_def)
  qed
  show ?thesis
    using v bt l by (simp add: row_of_wallet_def wallet_of_row_def varchar_def cent_wallet_def date_from_to)
qed

text \<open>C20: A wallet of whole cents that is saved and then looked up by its identifier is found as it was
  saved: every amount is the same number, the limit is there or not as before, currency and
  status are kept; only the times and the version are the database's, which the saved entity has too
  (the time of creation only if its row is new), and the date of the last withdrawal comes back as a day.\<close>

theorem saved_wallet_is_found:
  assumes "decimal_column P" and "calm w" and "cent_wallet v"
  shows "\<exists>w1 n c. save P v w = (Ok (v\<lparr>version := n, updatedAt := Some (clock w),
      createdAt := if wallets (db w) (wallet_id v) = None then Some c else createdAt v\<rparr>), w1) \<and> findById (wallet_id v) w1 =
    (Ok (Some (v\<lparr>lastWithdrawalDate := day_of P (lastWithdrawalDate v), version := n, createdAt := Some c,
      updatedAt := Some (clock w)\<rparr>)), w1)"
proof -
  let ?old = "wallets (db w) (wallet_id v)"
  obtain r where r: "row_of_wallet P (clock w) ?old v = Inr r" "wallet_of_row (wallet_id v) r =
    v\<lparr>lastWithdrawalDate := day_of P (lastWithdrawalDate v),
      version := (case ?old of None \<Rightarrow> 1 | Some r0 \<Rightarrow> row_version r0 + 1),
      createdAt := Some (case ?old of None \<Rightarrow> clock w | Some r0 \<Rightarrow> row_createdAt r0), updatedAt := Some (clock w)\<rparr>"
    using row_round_trip[OF assms(1,3)] by blast
  let ?w1 = "w\<lparr>db := (db w)\<lparr>wallets := (wallets (db w))(wallet_id v \<mapsto> r)\<rparr>\<rparr>"
  have "repository_sql (save_wallet P v) w = (Ok (saved_wallet ?old r v), ?w1)"
    using assms(2) r(1) by (intro repository_calm) (simp_all add: save_wallet_Inr)
  moreover have "row_version r = (case ?old of None \<Rightarrow> 1 | Some r0 \<Rightarrow> row_version r0 + 1)" "row_updatedAt r = clock w"
      "row_createdAt r = (case ?old of None \<Rightarrow> clock w | Some r0 \<Rightarrow> row_createdAt r0)"
    using r(1) by (auto simp: row_of_wallet_def check_Inr)
  ultimately have "save P v w = (Ok (v\<lparr>version := (case ?old of None \<Rightarrow> 1 | Some r0 \<Rightarrow> row_version r0 + 1),
      updatedAt := Some (clock w), createdAt := if ?old = None then Some (case ?old of None \<Rightarrow> clock w | Some r0 \<Rightarrow> row_createdAt r0)
        else createdAt v\<rparr>), ?w1)"
    by (cases ?old) (simp_all add: save_def saved_wallet_def)
  moreover have "findById (wallet_id v) ?w1 = (Ok (Some (wallet_of_row (wallet_id v) r)), ?w1)"
    using findById_calm[of ?w1 "wallet_id v"] assms(2) by simp
  ultimately show ?thesis unfolding r(2) by blast
qed

definition limited_wallet :: wallet where
  "limited_wallet = (new_wallet ''a'' ''USD'')\<lparr>balance := amount_of 1999, dailyWithdrawalLimit := Some (amount_of 500)\<rparr>"

theorem saved_wallet_is_found_witness:
  "\<exists>w1 n c. save postgres limited_wallet sample_world = (Ok (limited_wallet\<lparr>version := n, updatedAt := Some 0\<rparr>), w1) \<and>
    findById ''a'' w1 = (Ok (Some (limited_wallet\<lparr>lastWithdrawalDate := NoDate, version := n, createdAt := Some c,
      updatedAt := Some 0\<rparr>)), w1)"
proof -
  have "0 \<le> k \<Longrightarrow> k \<le> 10 ^ 15 \<Longrightarrow> cent_amount (amount_of k)" for k unfolding cent_amount_def by blast
  from this[of 1999] this[of 500] this[of 0]
  have "cent_wallet limited_wallet"
    by (simp add: cent_wallet_def limited_wallet_def new_wallet_def amount_of_def del: decimal_from.simps)
  moreover have "lastWithdrawalDate limited_wallet = NoDate" "wallet_id limited_wallet = ''a''" "clock sample_world = 0"
    by (simp_all add: limited_wallet_def new_wallet_def sample_world_def new_world_def)
  ultimately show ?thesis
    using saved_wallet_is_found[of postgres sample_world limited_wallet] by (simp add: day_of_def)
qed

end
