(* ===== verification/ReplayHazards.thy ===== *)
theory ReplayHazards imports TransferRuns
begin

text \<open>
  Where idempotency ends. The guarantees of \<open>WalletGuarantees\<close> and \<open>TransferGuarantees\<close> are
  about requests that do not overlap and keys that are stored; the theorems here are the cases the
  code does not handle: a request whose check came before the commit of its twin, a transfer whose
  key cannot be saved after the money has moved, and a replayed answer that goes into the cache as if
  it were the balance. Every call of the runs shown succeeds (\<open>calm\<close>), but for the save of the key.
\<close>

section \<open>A check that came too early\<close>

text \<open>The transaction of a request does not look at the key: a deposit that gets to it is applied.\<close>

lemma transaction_applies:
  assumes "decimal_column P" and "calm w" and "length q \<le> 255"
    and "redis_lookup (''lock:req:'' @ q) w = None"
    and "wallets (db w) i = Some r" and "sound_row r" and "row_status r = ACTIVE" and "length i \<le> 255"
    and "row_balance r = Cents j" and "0 < k" and "j + k \<le> 10 ^ 15 - 10"
  shows "\<exists>w'. execute P (idempotent_operation P i (amount_of k) FUNDS_DEPOSITED (\<lambda>now. wallet_deposit (amount_of k)) (Some q) True)
      \<lparr>lockKey = Some (''lock:req:'' @ q), lockTtl = 60\<rparr> w = (Ok (balance_result (JNum (js_add (amount_of j) (amount_of k))) i), w') \<and>
    calm w' \<and> deposited i k (Some q) (db w) (db w') \<and> balance_cents (db w') i = Some (j + k)"
proof -
  let ?op = "idempotent_operation P i (amount_of k) FUNDS_DEPOSITED (\<lambda>now. wallet_deposit (amount_of k)) (Some q) True"
  let ?opts = "\<lparr>lockKey = Some (''lock:req:'' @ q), lockTtl = 60\<rparr>" and ?b = "js_add (amount_of j) (amount_of k)"
  have j: "0 \<le> j" using assms(6,9) by (auto simp: sound_row_def)
  then have k: "k \<le> 10 ^ 15" "k \<le> 10 ^ 15 - 10" using assms(11) by auto
  obtain v where op: "wallet_deposit (amount_of k) (wallet_of_row i r) = (Ok (), v)"
      and v: "wallet_id v = i" "currency v = row_currency r" "balance v = ?b" "savable P v"
    using deposit_op_calm[OF assms(1,6-11)] by blast
  let ?w0 = "inside_state ?opts w"
  have "calm ?w0" "tx ?w0 = Some (db w)" "given (Some q) \<longrightarrow> length (the (Some q)) \<le> 255" using assms(2,3) by simp_all
  then obtain t1 es1 where w1: "?op ?w0 = (Ok (balance_result (JNum ?b) i), ?w0\<lparr>tx := Some t1, eventsToPublish := es1\<rparr>)"
    using movement_calm[where operation = "\<lambda>now. wallet_deposit (amount_of k)" and w = ?w0 and t = "db w" and rid = "Some q",
        OF assms(1) _ _ assms(5,6,8) op v assms(10) k(1), of FUNDS_DEPOSITED True] by blast
  have "lock_free ?opts w" using assms(4) by (simp add: lock_free_def)
  from execute_calm[where operation = ?op and P = P, OF assms(2) this w1] assms(2)
  obtain w' where run: "execute P ?op ?opts w = (Ok (balance_result (JNum ?b) i), w')" "calm w'" by simp
  from run(1) obtain es t2 now where mv: "movement P i (amount_of k) FUNDS_DEPOSITED (\<lambda>now. wallet_deposit (amount_of k)) (Some q) True
      (db w) (balance_result (JNum ?b) i) es t2" "db w' = insert_outbox P es now t2"
    by (rule deposit_tx.execute_ok)
  have "exact_row k (db w) i" using assms(5,9,11) j by (simp add: exact_row_def)
  then have d: "deposited i k (Some q) (db w) (db w')"
    unfolding mv(2) by (rule movement_deposited[OF mv(1) assms(1,10) k(2)])
  then have "balance_cents (db w') i = Some (j + k)"
    using assms(5,9) by (auto simp: deposited_def balance_cents_def)
  then show ?thesis using run d by blast
qed

text \<open>C35: The transaction of a request does not look at the key again. Of two requests with the same
  key, the second of which checked before the first committed and got the lock after the first
  released it, both are applied: the second deposit goes through although its key has a response.\<close>

theorem late_transaction_applies_again:
  assumes "decimal_column P" and "calm w" and "given (Some q)" and "length q \<le> 255"
    and "idempotencyKeys (db w) q = Some response" and "redis_lookup (''lock:req:'' @ q) w = None"
    and "wallets (db w) i = Some r" and "sound_row r" and "row_status r = ACTIVE" and "length i \<le> 255"
    and "row_balance r = Cents j" and "0 < k" and "j + k \<le> 10 ^ 15 - 10"
  shows "\<exists>a w'. execute P (idempotent_operation P i (amount_of k) FUNDS_DEPOSITED (\<lambda>now. wallet_deposit (amount_of k)) (Some q) True)
      \<lparr>lockKey = Some (''lock:req:'' @ q), lockTtl = 60\<rparr> w = (Ok a, w') \<and>
    deposited i k (Some q) (db w) (db w') \<and> balance_cents (db w') i = Some (j + k)"
  using transaction_applies[OF assms(1,2,4,6-13)] by blast

section \<open>A key that was cleaned up\<close>

text \<open>C29: Cleaning up forgets no key it should keep: whatever happens to the statement, the wallets, sagas and events
  are as they were, and a request answered within the last \<open>hours\<close> hours is still answered; and if the call
  resolves, exactly the older keys are gone, so that their requests count as new ones.\<close>

theorem cleanup_forgets_old_keys:
  assumes "\<And>t. local_time t = t + offset" and "\<And>t. utc t = t - offset"
    and "cleanupOld local_time utc hours w = (r, w')"
  shows "wallets (db w') = wallets (db w) \<and> sagas (db w') = sagas (db w) \<and>
    walletEvents (db w') = walletEvents (db w) \<and> outboxEvents (db w') = outboxEvents (db w) \<and>
    (\<forall>q created. keyTimes (db w) q = Some created \<and> clock w - 3600000 * hours \<le> created \<longrightarrow>
       stored_response (Some q) (db w') = stored_response (Some q) (db w)) \<and>
    (r = Ok () \<longrightarrow> (\<forall>q created. keyTimes (db w) q = Some created \<and> created < clock w - 3600000 * hours \<longrightarrow>
       stored_response (Some q) (db w') = None))"
proof -
  let ?cutoff = "clock w - 3600000 * hours"
  have cutoff: "cutoff_date local_time utc hours (clock w) = ?cutoff"
    using assms(1,2) by (simp add: cutoff_date_def)
  have run: "repository_sql (delete_keys_before ?cutoff) w = (r, w')"
    using assms(3) by (simp add: cleanupOld_def await_run get_state_run cutoff)
  from run show ?thesis
  proof (cases rule: repository_outcomes)
    case (effect now a)
    then have "db w' = (db w)\<lparr>idempotencyKeys := (\<lambda>i. if created_before ?cutoff (db w) i then None else idempotencyKeys (db w) i),
        keyTimes := (\<lambda>i. if created_before ?cutoff (db w) i then None else keyTimes (db w) i)\<rparr>"
      by (simp add: delete_keys_before_def)
    then show ?thesis by (auto simp: created_before_def stored_response_def)
  qed auto
qed

section \<open>A replayed answer in the cache\<close>

text \<open>A replayed deposit resolves with the old answer, as it should, but also puts the old balance into
  the cache: for the next thirty seconds balance queries report it, whatever the wallet has by then.\<close>

theorem replay_caches_old_balance:
  assumes "calm w" and "given rid" and "idempotencyKeys (db w) (the rid) = Some (balance_result (JNum (Fin b)) i)"
  shows "\<exists>w'. deposit P i a rid w = (Ok (balance_result (JNum (Fin b)) i), w') \<and> db w' = db w \<and>
    getBalance P i w' = (Ok (balance_result (JNum (Fin b)) i), w')"
proof -
  let ?r = "balance_result (JNum (Fin b)) i"
  have find: "findByRequestId (the rid) w = (Ok (Some \<lparr>key_requestId = the rid, key_response = ?r\<rparr>), w)"
    using assms(1,3) by (simp add: findByRequestId_calm)
  have call: "executeIdempotentTransaction P i a FUNDS_DEPOSITED (\<lambda>now. wallet_deposit a) rid True w = (Ok ?r, w)"
    using assms(2) by (simp add: executeIdempotentTransaction_def await_run find ret_run)
  have p: "property ?r ''balance'' = JNum (Fin b)" by (simp add: balance_result_def)
  obtain w' where cache: "setBalanceCache P i (JNum (Fin b)) w = (Ok (), w')" "db w' = db w"
    using assms(1) by (simp add: setBalanceCache_def redis_set_ex_calm)
  have "deposit P i a rid w = (Ok ?r, w')"
    by (simp add: deposit_def await_run call p cache(1) ret_run)
  then show ?thesis using getBalance_cached[OF assms(1) cache(1)] cache(2) by blast
qed

section \<open>A key that cannot be saved\<close>

text \<open>C34: A transfer saves its key only after the money has moved, and outside its transactions. If that
  save fails (here: the key is longer than its column), the request is answered with an error
  although the saga is completed, and no response is stored, so that every retry of the client moves
  the money again. A deposit with the same key is rolled back as a whole.\<close>

theorem unsaved_key_moves_money:
  assumes "decimal_column P" and "distinct_uuids P" and "sound_tables P (db w)" and "calm w" and "0 < maxRetries C"
    and "stored_response rid (db w) = None" and "\<not> storable rid"
    and "wallets (db w) f = Some rf" and "can_pay rf k" and "length f \<le> 255"
    and "wallets (db w) g = Some rg" and "can_receive rg k" and "length g \<le> 255"
    and "f \<noteq> g" and "row_currency rg = row_currency rf" and "0 < k" and "k \<le> 10 ^ 15 - 10"
  shows "\<exists>w'. executeTransfer P C f g (amount_of k) rid w = (Throw too_long, w') \<and>
    balance_cents (db w') = (balance_cents (db w))(f \<mapsto> cents (row_balance rf) - k, g \<mapsto> cents (row_balance rg) + k) \<and>
    stored_response rid (db w') = None"
proof -
  obtain saga x w1 w3 where new: "createSaga P f g (amount_of k) (row_currency rf) rid (w\<lparr>tx := None\<rparr>) = (Ok saga, w1)"
    and run: "start_transfer P C f g (amount_of k) rid w = try_catch
      (await (run_if (given rid) (idempotency_save \<lparr>key_requestId = the rid,
          key_response = transfer_result (saga_id saga) f g (amount_of k)\<rparr> False)) (\<lambda>_.
        ret (transfer_result (saga_id saga) f g (amount_of k)))) (handle_failure P C saga) w3"
    and w3: "calm w3" "idempotencyKeys (db w3) = idempotencyKeys (db w)" "sagas (db w3) (saga_id saga) = Some x" "srow_state x = COMPLETED"
    using transfer_until_key[OF assms(1,2,4,5,8-17), of rid] by blast
  have key: "given rid" "\<not> length (the rid) \<le> 255" using assms(7) by (simp_all add: storable_def)
  have save: "run_if (given rid) (idempotency_save \<lparr>key_requestId = the rid, key_response = j\<rparr> False) w3 = (Throw too_long, w3)" for j
    using key w3(1)
    by (simp add: run_if_def idempotency_save_def sql_def repository_sql_def extern_calm perform_def in_db_def
        save_idempotency_key_def varchar_def)
  have find: "saga_findById (saga_id saga) w3 = (Ok (Some (saga_of_row (saga_id saga) x)), w3)"
    using repository_calm[of w3 "find_saga (saga_id saga)" "Some (saga_of_row (saga_id saga) x)" "db w3"] w3(1,3)
    by (simp add: saga_findById_def)
  have "handle_failure P C saga too_long w3 = (Throw too_long, w3)"
    using w3(4) by (simp add: handle_failure_def await_run find ret_run saga_of_row_def throw_def)
  then have "start_transfer P C f g (amount_of k) rid w = (Throw too_long, w3)"
    unfolding run try_catch_def by (simp add: await_run save)
  moreover have none: "(if given rid then findByRequestId (the rid) else ret None) w = (Ok None, w)"
    using assms(4,6) key(1) by (simp add: stored_response_def findByRequestId_calm)
  ultimately have done1: "executeTransfer P C f g (amount_of k) rid w = (Throw too_long, w3)"
    by (auto simp: executeTransfer_def await_run simp del: if_split_asm)
  have "transfer_post P f g k (db w) (Throw too_long) (db w3)"
    using outcomesD[OF executeTransfer_post[OF assms(1-3,16,17)] refl done1] assms(6) by simp
  then obtain z where z: "transfer_outcome f g k (ledger_of (db w)) z (ledger_of (db w3))" by (auto simp: transfer_post_def)
  have "transfers (ledger_of (db w)) (saga_id saga) = None"
  proof -
    have "\<exists>t1. created P f g (amount_of k) (db w) saga t1"
      using outcomesD[OF createSaga_outcomes _ new, of "db w"] by auto
    then show ?thesis using created_ledger(3)[OF assms(1-3,16,17)] by blast
  qed
  moreover have "transfers (ledger_of (db w3)) (saga_id saga) = Some (transfer_of_row x)" using w3(3) by simp
  ultimately have "z = Some COMPLETED"
    using z w3(4) by (auto simp: transfer_outcome_def transfer_of_row_def new_transfer_def simp del: ledger_of_simps
        split: option.split_asm if_split_asm)
  moreover have b: "balance_cents (db w) f = Some (cents (row_balance rf))" "balance_cents (db w) g = Some (cents (row_balance rg))"
    using assms(8,11) by (simp_all add: balance_cents_def)
  ultimately have "balance_cents (db w3) = (balance_cents (db w))(f \<mapsto> cents (row_balance rf) - k, g \<mapsto> cents (row_balance rg) + k)"
    using z assms(14) by (intro completed_balances) auto
  then show ?thesis using done1 assms(6) w3(2) key(1) by (auto simp: stored_response_def)
qed

section \<open>Concrete cases\<close>

definition answered_world :: world where
  "answered_world = new_world (sample_tables\<lparr>idempotencyKeys := [''r'' \<mapsto> balance_result (JNum (Fin 7)) ''a'']\<rparr>) 0 []"

lemma answered_facts:
  "calm answered_world" "idempotencyKeys (db answered_world) ''r'' = Some (balance_result (JNum (Fin 7)) ''a'')"
  "wallets (db answered_world) ''a'' = Some (sample_row 1000)" "redis_lookup k answered_world = None"
  by (simp_all add: answered_world_def new_world_def calm_def redis_lookup_def)

theorem late_transaction_applies_again_witness:
  "\<exists>w' :: world. balance_cents (db answered_world) ''a'' = Some 1000 \<and>
    deposited ''a'' 100 (Some ''r'') (db answered_world) (db w') \<and> balance_cents (db w') ''a'' = Some 1100"
proof -
  have "balance_cents (db answered_world) ''a'' = Some 1000"
    by (simp add: balance_cents_def answered_facts(3))
  then show ?thesis
    using late_transaction_applies_again[of postgres answered_world "''r''" "balance_result (JNum (Fin 7)) ''a''" "''a''" "sample_row 1000" 1000 100]
      answered_facts by (simp add: given_def) blast
qed

text \<open>A key of the epoch, two days later.\<close>

definition old_key_world :: world where
  "old_key_world = new_world (sample_tables\<lparr>idempotencyKeys := [''r'' \<mapsto> JNull], keyTimes := [''r'' \<mapsto> 0]\<rparr>) 172800000 []"

theorem cleanup_forgets_old_keys_witness:
  "stored_response (Some ''r'') (db (snd (cleanupOld id id 24 old_key_world))) = None \<and>
   stored_response (Some ''r'') (db (snd (cleanupOld id id 72 old_key_world))) = Some JNull"
proof -
  have run: "fst (cleanupOld id id 24 old_key_world) = Ok ()"
    by (simp add: cleanupOld_def await_run get_state_run repository_sql_def extern_run perform_def in_db_def
        delete_keys_before_def old_key_world_def new_world_def)
  have w: "keyTimes (db old_key_world) ''r'' = Some 0" "clock old_key_world = 172800000"
    "stored_response (Some ''r'') (db old_key_world) = Some JNull"
    by (simp_all add: old_key_world_def new_world_def stored_response_def given_def)
  have "stored_response (Some ''r'') (db (snd (cleanupOld id id 24 old_key_world))) = None"
    using cleanup_forgets_old_keys[of id 0 id 24 old_key_world, OF _ _ surjective_pairing] run w(1,2) by simp
  moreover have "stored_response (Some ''r'') (db (snd (cleanupOld id id 72 old_key_world))) = Some JNull"
    using cleanup_forgets_old_keys[of id 0 id 72 old_key_world, OF _ _ surjective_pairing] w by simp
  ultimately show ?thesis by simp
qed

theorem replay_caches_old_balance_witness:
  "\<exists>w'. deposit postgres ''a'' (amount_of 100) (Some ''r'') answered_world = (Ok (balance_result (JNum (Fin 7)) ''a''), w') \<and>
    balance_cents (db w') ''a'' = Some 1000 \<and> getBalance postgres ''a'' w' = (Ok (balance_result (JNum (Fin 7)) ''a''), w')"
  using replay_caches_old_balance[of answered_world "Some ''r''" 7 "''a''" postgres "amount_of 100"] answered_facts
  by (auto simp: given_def balance_cents_def)

theorem unsaved_key_moves_money_witness:
  "\<exists>w'. executeTransfer postgres default_config ''a'' ''b'' (amount_of 100) (Some (replicate 256 CHR ''k'')) sample_world =
     (Throw too_long, w') \<and> balance_cents (db w') ''a'' = Some 900 \<and> balance_cents (db w') ''b'' = Some 100"
proof -
  have "\<not> storable (Some (replicate 256 CHR ''k''))" by (simp add: storable_def given_def)
  from unsaved_key_moves_money[OF _ _ _ _ _ _ this, of postgres sample_world default_config "''a''" "sample_row 1000" 100 "''b''" "sample_row 0"]
  show ?thesis by (auto simp: default_config_def)
qed

end
