(* ===== verification/Tasks.thy ===== *)
theory Tasks imports SystemRuns
begin

text \<open>
  The operations of the service cut at the points where they let others run. A \<^emph>\<open>task\<close> is what
  is left of an operation: its outcome, or a segment that runs undisturbed and leaves another task.
  A database transaction is one segment (it holds the row lock of its wallet from its first statement
  to its commit); so is every single call outside of transactions, and what runs between two
  \<open>await\<close>s of the language. Every handler that writes the books has its task here, built from the
  same transaction bodies; run without interruption it is the handler (\<open>run_alone\<close> equations, and
  for the activities \<open>alone_as_served\<close>).

  The relay, the consumer and the queries write nothing that a transaction of the others reads, and are
  single segments.
\<close>

section \<open>Tasks\<close>

datatype 'a task = Finished "(error, 'a) outcome" | Segment "world \<Rightarrow> 'a task \<times> world"

primrec run_alone :: "'a task \<Rightarrow> 'a handler" where
  "run_alone (Finished r) = (\<lambda>w. (r, w))"
| "run_alone (Segment f) = (\<lambda>w. case map_prod run_alone id (f w) of (m, w') \<Rightarrow> m w')"

definition resolved :: "'a \<Rightarrow> 'a task" where
  "resolved a = Finished (Ok a)"

definition rejected :: "error \<Rightarrow> 'a task" where
  "rejected e = Finished (Throw e)"

definition atomically :: "'a handler \<Rightarrow> 'a task" where
  "atomically m = Segment (\<lambda>w. case m w of (r, w') \<Rightarrow> (Finished r, w'))"

primrec and_then :: "'a task \<Rightarrow> ('a \<Rightarrow> 'b task) \<Rightarrow> 'b task" where
  "and_then (Finished r) = (\<lambda>k. case r of Ok a \<Rightarrow> k a | Throw e \<Rightarrow> Finished (Throw e) | Crash \<Rightarrow> Finished Crash)"
| "and_then (Segment f) = (\<lambda>k. Segment (\<lambda>w. case map_prod and_then id (f w) of (m, w') \<Rightarrow> (m k, w')))"

primrec or_catch :: "'a task \<Rightarrow> (error \<Rightarrow> 'a task) \<Rightarrow> 'a task" where
  "or_catch (Finished r) = (\<lambda>h. case r of Ok a \<Rightarrow> Finished (Ok a) | Throw e \<Rightarrow> h e | Crash \<Rightarrow> Finished Crash)"
| "or_catch (Segment f) = (\<lambda>h. Segment (\<lambda>w. case map_prod or_catch id (f w) of (m, w') \<Rightarrow> (m h, w')))"

text \<open>The outcome of a segment as a value, for the \<open>finally\<close> blocks that come after it.\<close>

definition caught :: "'a handler \<Rightarrow> (error + 'a) handler" where
  "caught m = try_catch (await m (\<lambda>a. ret (Inr a))) (\<lambda>e. ret (Inl e))"

fun of_sum :: "error + 'a \<Rightarrow> 'a task" where
  "of_sum (Inl e) = rejected e"
| "of_sum (Inr a) = resolved a"

fun each_task :: "'x list \<Rightarrow> ('x \<Rightarrow> unit task) \<Rightarrow> unit task" where
  "each_task [] body = resolved ()"
| "each_task (x # xs) body = and_then (body x) (\<lambda>_. each_task xs body)"

named_theorems alone \<open>what a task does when nothing comes between\<close>

lemma run_alone_resolved [alone]: "run_alone (resolved a) = ret a"
  by (simp add: resolved_def ret_def)

lemma run_alone_rejected [alone]: "run_alone (rejected e) = throw e"
  by (simp add: rejected_def throw_def)

lemma run_alone_atomically [alone]: "run_alone (atomically m) = m"
  by (simp add: atomically_def fun_eq_iff split: prod.split)

lemma run_alone_and_then [alone]: "run_alone (and_then m k) = await (run_alone m) (\<lambda>a. run_alone (k a))"
proof (induction m)
  case (Finished r)
  then show ?case by (cases r) (simp_all add: await_def fun_eq_iff)
next
  case (Segment f)
  show ?case
  proof
    fix w
    obtain m w' where f: "f w = (m, w')" by fastforce
    have "run_alone (and_then m k) = await (run_alone m) (\<lambda>a. run_alone (k a))"
      by (rule Segment.IH[of "f w"]) (rule rangeI, simp add: f)
    then show "run_alone (and_then (Segment f) k) w = await (run_alone (Segment f)) (\<lambda>a. run_alone (k a)) w"
      by (simp add: f await_def)
  qed
qed

lemma run_alone_or_catch [alone]: "run_alone (or_catch m h) = try_catch (run_alone m) (\<lambda>e. run_alone (h e))"
proof (induction m)
  case (Finished r)
  then show ?case by (cases r) (simp_all add: try_catch_def fun_eq_iff)
next
  case (Segment f)
  show ?case
  proof
    fix w
    obtain m w' where f: "f w = (m, w')" by fastforce
    have "run_alone (or_catch m h) = try_catch (run_alone m) (\<lambda>e. run_alone (h e))"
      by (rule Segment.IH[of "f w"]) (rule rangeI, simp add: f)
    then show "run_alone (or_catch (Segment f) h) w = try_catch (run_alone (Segment f)) (\<lambda>e. run_alone (h e)) w"
      by (simp add: f try_catch_def)
  qed
qed

lemma run_alone_each_task [alone]: "run_alone (each_task xs body) = for_each xs (\<lambda>x. run_alone (body x))"
  by (induction xs) (simp_all add: alone)

lemma run_alone_if [alone]: "run_alone (if b then m else n) = (if b then run_alone m else run_alone n)"
  by simp

lemma run_alone_case_option [alone]:
  "run_alone (case z of None \<Rightarrow> m | Some x \<Rightarrow> f x) = (case z of None \<Rightarrow> run_alone m | Some x \<Rightarrow> run_alone (f x))"
  by (cases z) simp_all

lemma run_alone_of_sum:
  "await (caught m) (\<lambda>r. await f (\<lambda>_. run_alone (of_sum r))) = try_finally m f"
  by (auto simp: caught_def try_finally_def try_catch_def await_def ret_def alone throw_def fun_eq_iff
      split: prod.split outcome.split)

section \<open>Transactions\<close>

text \<open>The lock of the request, the connection, the whole transaction, its release and that of the lock.\<close>

definition transaction_segment :: "platform \<Rightarrow> 'a handler \<Rightarrow> (error + 'a) handler" where
  "transaction_segment P operation =
     await startTransaction (\<lambda>_.
     await (modify (\<lambda>w. w\<lparr>eventsToPublish := []\<rparr>)) (\<lambda>_.
     caught (try_catch
       (await operation (\<lambda>result.
        await get_state (\<lambda>w.
        await (run_if (eventsToPublish w \<noteq> []) (outbox_saveAll P (eventsToPublish w) True)) (\<lambda>_.
        await commitTransaction (\<lambda>_.
        ret result)))))
       (\<lambda>e. await rollbackTransaction (\<lambda>_. throw e)))))"

definition execute_task :: "platform \<Rightarrow> 'a handler \<Rightarrow> transaction_options \<Rightarrow> 'a task" where
  "execute_task P operation opts =
     and_then (atomically (acquireLock opts)) (\<lambda>_.
     and_then (atomically connect) (\<lambda>_.
     and_then (atomically (transaction_segment P operation)) (\<lambda>r.
     and_then (atomically release) (\<lambda>_.
     and_then (atomically (run_if (given (lockKey opts)) (redis_del (the (lockKey opts))))) (\<lambda>_.
     of_sum r)))))"

lemma run_alone_execute [alone]: "run_alone (execute_task P operation opts) = execute P operation opts"
  by (simp add: execute_task_def execute_def transaction_segment_def alone await_assoc run_alone_of_sum[symmetric])

section \<open>The wallet service\<close>

definition stateChange_task ::
  "platform \<Rightarrow> string \<Rightarrow> wallet_event_type \<Rightarrow> (wallet, error, unit) program \<Rightarrow> (int \<Rightarrow> json) \<Rightarrow> unit task" where
  "stateChange_task P walletId eventType operation metadata =
     and_then (atomically get_state) (\<lambda>w.
     and_then (execute_task P (stateChange_operation P walletId eventType operation (metadata (clock w))) default_options) (\<lambda>_.
     atomically (invalidateBalanceCache walletId)))"

definition freezeWallet_task :: "platform \<Rightarrow> string \<Rightarrow> string \<Rightarrow> string \<Rightarrow> unit task" where
  "freezeWallet_task P walletId reason frozenBy = stateChange_task P walletId WALLET_FROZEN wallet_freeze
     (\<lambda>now. JObj [(''reason'', JStr reason), (''frozenBy'', JStr frozenBy), (''frozenAt'', JDate now)])"

definition unfreezeWallet_task :: "platform \<Rightarrow> string \<Rightarrow> string \<Rightarrow> unit task" where
  "unfreezeWallet_task P walletId unfrozenBy = stateChange_task P walletId WALLET_UNFROZEN wallet_unfreeze
     (\<lambda>now. JObj [(''unfrozenBy'', JStr unfrozenBy), (''unfrozenAt'', JDate now)])"

definition closeWallet_task :: "platform \<Rightarrow> string \<Rightarrow> string \<Rightarrow> string \<Rightarrow> unit task" where
  "closeWallet_task P walletId reason closedBy = stateChange_task P walletId WALLET_CLOSED wallet_close
     (\<lambda>now. JObj [(''reason'', JStr reason), (''closedBy'', JStr closedBy), (''closedAt'', JDate now)])"

definition setDailyWithdrawalLimit_task ::
  "platform \<Rightarrow> string \<Rightarrow> number option \<Rightarrow> string \<Rightarrow> string option \<Rightarrow> unit task" where
  "setDailyWithdrawalLimit_task P walletId limit setBy reason =
     execute_task P (limit_operation P walletId limit setBy reason) default_options"

definition idempotent_task ::
  "platform \<Rightarrow> string \<Rightarrow> number \<Rightarrow> wallet_event_type \<Rightarrow> (int \<Rightarrow> (wallet, error, unit) program) \<Rightarrow>
   string option \<Rightarrow> bool \<Rightarrow> json task" where
  "idempotent_task P walletId amount eventType operation requestId autoCreateWallet =
     and_then (atomically (if given requestId then findByRequestId (the requestId) else ret None)) (\<lambda>existing.
     case existing of
       Some key \<Rightarrow> resolved (key_response key)
     | None \<Rightarrow> execute_task P
         (idempotent_operation P walletId amount eventType operation requestId autoCreateWallet)
         \<lparr>lockKey = (if given requestId then Some (''lock:req:'' @ the requestId) else None), lockTtl = 60\<rparr>)"

definition then_cached :: "platform \<Rightarrow> string \<Rightarrow> json task \<Rightarrow> json task" where
  "then_cached P walletId m =
     and_then m (\<lambda>result.
     and_then (atomically (setBalanceCache P walletId (property result ''balance''))) (\<lambda>_.
     resolved result))"

definition deposit_task :: "platform \<Rightarrow> string \<Rightarrow> number \<Rightarrow> string option \<Rightarrow> json task" where
  "deposit_task P walletId amount requestId = then_cached P walletId
     (idempotent_task P walletId amount FUNDS_DEPOSITED (\<lambda>now. wallet_deposit amount) requestId True)"

definition withdraw_task :: "platform \<Rightarrow> string \<Rightarrow> number \<Rightarrow> string option \<Rightarrow> json task" where
  "withdraw_task P walletId amount requestId = then_cached P walletId
     (idempotent_task P walletId amount FUNDS_WITHDRAWN (\<lambda>now. wallet_withdraw now now amount) requestId False)"

lemma run_alone_idempotent [alone]:
  "run_alone (idempotent_task P i a ty operation rid auto) = executeIdempotentTransaction P i a ty operation rid auto"
proof -
  have "(case z of None \<Rightarrow> execute P m opts | Some key \<Rightarrow> ret (key_response key)) =
      run_alone (case z of None \<Rightarrow> execute_task P m opts | Some key \<Rightarrow> resolved (key_response key))" for z m opts
    by (cases z) (simp_all add: alone)
  then show ?thesis by (simp add: idempotent_task_def executeIdempotentTransaction_def alone)
qed

lemma run_alone_wallet_service [alone]:
  "run_alone (deposit_task P i a rid) = deposit P i a rid"
  "run_alone (withdraw_task P i a rid) = withdraw P i a rid"
  "run_alone (freezeWallet_task P i reason actor) = freezeWallet P i reason actor"
  "run_alone (unfreezeWallet_task P i actor) = unfreezeWallet P i actor"
  "run_alone (closeWallet_task P i reason actor) = closeWallet P i reason actor"
  "run_alone (setDailyWithdrawalLimit_task P i limit actor why) = setDailyWithdrawalLimit P i limit actor why"
  by (simp_all add: deposit_task_def deposit_def withdraw_task_def withdraw_def then_cached_def
      freezeWallet_task_def freezeWallet_def unfreezeWallet_task_def unfreezeWallet_def closeWallet_task_def
      closeWallet_def stateChange_task_def executeStateChange_def setDailyWithdrawalLimit_task_def
      setDailyWithdrawalLimit_def alone)

section \<open>The transfer service\<close>

fun retry_task :: "platform \<Rightarrow> app_config \<Rightarrow> nat \<Rightarrow> nat \<Rightarrow> 'a task \<Rightarrow> 'a task" where
  "retry_task P C 0 attempt operation =
     rejected (PlainError ''Operation failed due to concurrent modification. Please retry.'')"
| "retry_task P C (Suc left) attempt operation =
     or_catch operation (\<lambda>e.
       if isRetryableError e
       then and_then (atomically (performExponentialBackoff P attempt (initialBackoffMs C))) (\<lambda>_.
            retry_task P C left (Suc attempt) operation)
       else rejected e)"

definition step_task ::
  "platform \<Rightarrow> app_config \<Rightarrow> string \<Rightarrow> string \<Rightarrow> number \<Rightarrow> (int \<Rightarrow> (wallet, error, unit) program) \<Rightarrow>
   wallet_event_type \<Rightarrow> json \<Rightarrow> (transfer_saga, error, unit) program \<Rightarrow>
   (transfer_saga \<Rightarrow> int \<Rightarrow> outbox_event list) \<Rightarrow> unit task" where
  "step_task P C sagaId walletId amount operation eventType eventMetadata updateSaga additionalOutboxEvents =
     retry_task P C (maxRetries C) 0 (execute_task P
       (step_operation P sagaId walletId amount operation eventType eventMetadata updateSaga additionalOutboxEvents)
       default_options)"

definition debit_task :: "platform \<Rightarrow> app_config \<Rightarrow> transfer_saga \<Rightarrow> unit task" where
  "debit_task P C saga =
     and_then (step_task P C (saga_id saga) (fromWalletId saga) (saga_amount saga)
       (\<lambda>now. wallet_withdraw now now (saga_amount saga)) FUNDS_WITHDRAWN
       (JObj [(''sagaId'', JStr (saga_id saga)), (''transferTo'', JStr (toWalletId saga))])
       markAsDebited (\<lambda>_ _. [])) (\<lambda>_.
     atomically (invalidateBalanceCache (fromWalletId saga)))"

definition credit_task :: "platform \<Rightarrow> app_config \<Rightarrow> transfer_saga \<Rightarrow> bool \<Rightarrow> unit task" where
  "credit_task P C saga recovered =
     and_then (step_task P C (saga_id saga) (toWalletId saga) (saga_amount saga)
       (\<lambda>now. wallet_credit (saga_amount saga)) FUNDS_DEPOSITED
       (JObj [(''sagaId'', JStr (saga_id saga)), (''transferFrom'', JStr (fromWalletId saga))])
       markAsCompleted (\<lambda>currentSaga now. [completion_event recovered currentSaga now])) (\<lambda>_.
     atomically (invalidateBalanceCache (toWalletId saga)))"

definition compensate_task :: "platform \<Rightarrow> app_config \<Rightarrow> string \<Rightarrow> string \<Rightarrow> number \<Rightarrow> string \<Rightarrow> unit task" where
  "compensate_task P C sagaId from_id amount errorMessage = or_catch
     (and_then (step_task P C sagaId from_id amount (\<lambda>now. wallet_credit amount) TRANSFER_COMPENSATED
        (JObj [(''sagaId'', JStr sagaId), (''reason'', JStr errorMessage)])
        (markAsCompensated errorMessage) (\<lambda>_ _. [])) (\<lambda>_.
      atomically (await get_state (\<lambda>w.
      publish C (money_payload TRANSFER_FAILED from_id amount
        (JObj [(''sagaId'', JStr sagaId), (''reason'', JStr errorMessage)]) (clock w))))))
     (\<lambda>e. rejected e)"

definition mark_failed :: "platform \<Rightarrow> transfer_saga \<Rightarrow> error \<Rightarrow> unit handler" where
  "mark_failed P currentSaga e =
     await (call_method (markAsFailed (error_message e)) currentSaga) (\<lambda>currentSaga.
     await (saga_save P currentSaga) (\<lambda>_. ret ()))"

definition settle_task :: "platform \<Rightarrow> app_config \<Rightarrow> transfer_saga \<Rightarrow> error \<Rightarrow> unit task" where
  "settle_task P C currentSaga e =
     (if saga_state currentSaga = DEBITED
      then compensate_task P C (saga_id currentSaga) (fromWalletId currentSaga) (saga_amount currentSaga) (error_message e)
      else if saga_state currentSaga \<noteq> COMPLETED \<and> saga_state currentSaga \<noteq> COMPENSATED \<and>
              saga_state currentSaga \<noteq> FAILED
      then atomically (mark_failed P currentSaga e)
      else resolved ())"

definition handle_failure_task :: "platform \<Rightarrow> app_config \<Rightarrow> transfer_saga \<Rightarrow> error \<Rightarrow> json task" where
  "handle_failure_task P C saga e =
     and_then (atomically (saga_findById (saga_id saga))) (\<lambda>found.
     case found of
       None \<Rightarrow> rejected (PlainError (''Saga '' @ saga_id saga @ '' not found during error handling''))
     | Some currentSaga \<Rightarrow> and_then (settle_task P C currentSaga e) (\<lambda>_. rejected e))"

definition run_saga_task ::
  "platform \<Rightarrow> app_config \<Rightarrow> transfer_saga \<Rightarrow> string \<Rightarrow> string \<Rightarrow> number \<Rightarrow> string option \<Rightarrow> json task" where
  "run_saga_task P C saga from_id to_id amount requestId =
     and_then (debit_task P C saga) (\<lambda>_.
     and_then (credit_task P C saga False) (\<lambda>_.
     let result = transfer_result (saga_id saga) from_id to_id amount in
     and_then (atomically (run_if (given requestId)
       (idempotency_save \<lparr>key_requestId = the requestId, key_response = result\<rparr> False))) (\<lambda>_.
     resolved result)))"

definition start_transfer_task ::
  "platform \<Rightarrow> app_config \<Rightarrow> string \<Rightarrow> string \<Rightarrow> number \<Rightarrow> string option \<Rightarrow> json task" where
  "start_transfer_task P C from_id to_id amount requestId =
     (if from_id = to_id then rejected (BadRequestException ''Cannot transfer to the same wallet'')
      else and_then (atomically (findById from_id)) (\<lambda>found.
      case found of
        None \<Rightarrow> rejected (wallet_not_found from_id)
      | Some fromWallet \<Rightarrow>
          and_then (atomically (getOrCreate P to_id (currency fromWallet) False)) (\<lambda>toWallet.
          if currency toWallet \<noteq> currency fromWallet
          then rejected (CurrencyMismatchError (currency fromWallet) (currency toWallet) from_id to_id)
          else and_then (atomically (createSaga P from_id to_id amount (currency fromWallet) requestId)) (\<lambda>saga.
            or_catch (run_saga_task P C saga from_id to_id amount requestId) (handle_failure_task P C saga)))))"

definition executeTransfer_task ::
  "platform \<Rightarrow> app_config \<Rightarrow> string \<Rightarrow> string \<Rightarrow> number \<Rightarrow> string option \<Rightarrow> json task" where
  "executeTransfer_task P C from_id to_id amount requestId =
     and_then (atomically (if given requestId then findByRequestId (the requestId) else ret None)) (\<lambda>existing.
     case existing of
       Some key \<Rightarrow> resolved (key_response key)
     | None \<Rightarrow> start_transfer_task P C from_id to_id amount requestId)"

definition recoverSaga_task :: "platform \<Rightarrow> app_config \<Rightarrow> string \<Rightarrow> unit task" where
  "recoverSaga_task P C sagaId =
     and_then (atomically (saga_findById sagaId)) (\<lambda>found.
     case found of
       None \<Rightarrow> resolved ()
     | Some saga \<Rightarrow>
         if saga_state saga = DEBITED
         then or_catch (credit_task P C saga True) (\<lambda>e.
                compensate_task P C (saga_id saga) (fromWalletId saga) (saga_amount saga)
                  (''Recovery failed: '' @ error_message e))
         else resolved ())"

lemma run_alone_retry [alone]:
  "run_alone (retry_task P C left attempt m) = retry_loop P C left attempt (run_alone m)"
  by (induction left arbitrary: attempt) (simp_all add: alone cong: if_cong)

lemma run_alone_steps [alone]:
  "run_alone (debit_task P C saga) = debitFromSender P C saga"
  "run_alone (credit_task P C saga recovered) = creditToReceiver P C saga recovered"
  "run_alone (compensate_task P C s i a reason) = compensate P C s i a reason"
  by (simp_all add: debit_task_def debitFromSender_def credit_task_def creditToReceiver_def compensate_task_def
      compensate_def step_task_def executeTransactionalStep_def executeWithRetry_def alone)

lemma run_alone_run_saga [alone]: "run_alone (run_saga_task P C saga f g a rid) = run_saga P C saga f g a rid"
  by (simp add: run_saga_task_def run_saga_def Let_def alone)

lemma run_alone_handle_failure [alone]: "run_alone (handle_failure_task P C saga e) = handle_failure P C saga e"
proof -
  have "run_alone (settle_task P C cur e) = (if saga_state cur = DEBITED
      then compensate P C (saga_id cur) (fromWalletId cur) (saga_amount cur) (error_message e)
      else if saga_state cur \<noteq> COMPLETED \<and> saga_state cur \<noteq> COMPENSATED \<and> saga_state cur \<noteq> FAILED
      then await (call_method (markAsFailed (error_message e)) cur) (\<lambda>cur. await (saga_save P cur) (\<lambda>_. ret ()))
      else ret ())" for cur
    by (simp add: settle_task_def mark_failed_def alone)
  then show ?thesis
    unfolding handle_failure_task_def handle_failure_def by (simp add: alone cong: option.case_cong)
qed

lemma run_alone_transfer [alone]:
  "run_alone (executeTransfer_task P C f g a rid) = executeTransfer P C f g a rid"
proof -
  have s: "run_alone (start_transfer_task P C f g a rid) = start_transfer P C f g a rid"
    by (simp add: start_transfer_task_def start_transfer_def alone cong: if_cong option.case_cong)
  then show ?thesis by (simp add: executeTransfer_task_def executeTransfer_def alone cong: option.case_cong)
qed

lemma run_alone_recovery [alone]: "run_alone (recoverSaga_task P C s) = recoverSaga P C s"
  by (simp add: recoverSaga_task_def recoverSaga_def run_if_def alone cong: if_cong option.case_cong)

section \<open>The recovery worker\<close>

text \<open>The flag is tested and set without an \<open>await\<close> in between.\<close>

definition begin_recovery :: "bool handler" where
  "begin_recovery = await get_state (\<lambda>w.
     if isRecovering w then ret False else await (set_recovering True) (\<lambda>_. ret True))"

definition find_stuck :: "platform \<Rightarrow> app_config \<Rightarrow> transfer_saga list handler" where
  "find_stuck P C = await get_state (\<lambda>w. saga_find P (is_stuck C (clock w)) 10)"

definition recovery_body_task :: "platform \<Rightarrow> app_config \<Rightarrow> unit task" where
  "recovery_body_task P C =
     and_then (atomically (find_stuck P C)) (\<lambda>stuckSagas.
     each_task stuckSagas (\<lambda>saga. or_catch (recoverSaga_task P C (saga_id saga)) (\<lambda>_. resolved ())))"

definition processStuckSagas_task :: "platform \<Rightarrow> app_config \<Rightarrow> unit task" where
  "processStuckSagas_task P C =
     and_then (atomically begin_recovery) (\<lambda>free.
     if \<not> free then resolved ()
     else and_then (or_catch (recovery_body_task P C) (\<lambda>_. resolved ())) (\<lambda>_. atomically (set_recovering False)))"

definition recoverStuckSagas_task :: "platform \<Rightarrow> app_config \<Rightarrow> string \<Rightarrow> unit task" where
  "recoverStuckSagas_task P C nodeEnv = (if nodeEnv = ''test'' then resolved () else processStuckSagas_task P C)"

lemma for_each_nil_if: "(if xs = [] then ret () else for_each xs body) = for_each xs body"
  by (cases xs) simp_all

lemma run_alone_recovery_body [alone]: "run_alone (recovery_body_task P C) = recovery_body P C"
  by (simp add: recovery_body_task_def recovery_body_def find_stuck_def recover_one_def[abs_def] alone await_assoc for_each_nil_if)

text \<open>A body that never rejects needs no \<open>finally\<close>.\<close>

lemma try_finally_caught:
  "try_finally (try_catch m (\<lambda>_. ret ())) f = await (try_catch m (\<lambda>_. ret ())) (\<lambda>_. f)"
  if "\<And>w. fst (f w) = Ok ()"
  using that by (auto simp: try_finally_def try_catch_def await_def ret_def fun_eq_iff split: prod.splits outcome.splits)

lemma run_alone_worker [alone]: "run_alone (recoverStuckSagas_task P C nodeEnv) = recoverStuckSagas P C nodeEnv"
proof -
  have "run_alone (processStuckSagas_task P C) = processStuckSagas P C"
    unfolding processStuckSagas_task_def processStuckSagas_def begin_recovery_def
    by (subst try_finally_caught)
       (auto simp: alone await_def get_state_def ret_def set_recovering_def modify_def fun_eq_iff
         split: prod.splits outcome.splits)
  then show ?thesis by (simp add: recoverStuckSagas_task_def recoverStuckSagas_def alone)
qed

section \<open>Activities\<close>

definition respond_task :: "json task \<Rightarrow> response task" where
  "respond_task m = or_catch (and_then m (\<lambda>j. resolved (Response 200 j))) (\<lambda>e. resolved (filter_exception e))"

definition silent_task :: "'a task \<Rightarrow> unit task" where
  "silent_task m = and_then m (\<lambda>_. resolved ())"

fun task_of :: "validators \<Rightarrow> platform \<Rightarrow> app_config \<Rightarrow> activity \<Rightarrow> unit task" where
  "task_of V P C (PostDeposit i body rid) = silent_task (if \<not> DepositDto V body then resolved invalid_body
     else respond_task (deposit_task P i (number_field (property body ''amount'')) rid))"
| "task_of V P C (PostWithdraw i body rid) = silent_task (if \<not> WithdrawDto V body then resolved invalid_body
     else respond_task (withdraw_task P i (number_field (property body ''amount'')) rid))"
| "task_of V P C (PostTransfer i body rid) = silent_task (if \<not> TransferDto V body then resolved invalid_body
     else respond_task (executeTransfer_task P C i (string_field (property body ''toWalletId''))
       (number_field (property body ''amount'')) rid))"
| "task_of V P C (FreezeWallet i reason frozenBy) = freezeWallet_task P i reason frozenBy"
| "task_of V P C (UnfreezeWallet i unfrozenBy) = unfreezeWallet_task P i unfrozenBy"
| "task_of V P C (CloseWallet i reason closedBy) = closeWallet_task P i reason closedBy"
| "task_of V P C (SetLimit i limit setBy reason) = setDailyWithdrawalLimit_task P i limit setBy reason"
| "task_of V P C (RecoveryJob nodeEnv) = recoverStuckSagas_task P C nodeEnv"
| "task_of V P C a = atomically (serve V P C a)"

lemma run_alone_respond [alone]: "run_alone (respond_task m) = respond (run_alone m)"
  by (simp add: respond_task_def respond_def alone)

lemma run_alone_silent [alone]: "run_alone (silent_task m) = silently (run_alone m)"
  by (simp add: silent_task_def silently_def alone)

text \<open>Cutting an activity into segments changes nothing of what it does: run without interruption, the
  task of every activity, request, administration, job or message, is the activity as it is served.\<close>

theorem alone_as_served: "run_alone (task_of V P C a) = serve V P C a"
  by (cases a) (simp_all add: alone post_deposit_def post_withdraw_def post_transfer_def)

end
