(* ===== verification/RelyGuarantee.thy ===== *)
theory RelyGuarantee imports Tasks
begin

text \<open>
  How a task is judged when others run between its segments: it relies on what they keep of the
  committed tables, and guarantees something of every segment of its own. The ghost value next to the
  tables is what the task owns. The locale \<open>rely_guarantee\<close> has the rules for the control structures
  of tasks; it is instantiated, per activity, in \<open>Overlap\<close>.
\<close>

section \<open>What a transaction segment leaves\<close>

fun flat :: "(error, error + 'a) outcome \<Rightarrow> (error, 'a) outcome" where
  "flat (Ok (Inl e)) = Throw e"
| "flat (Ok (Inr a)) = Ok a"
| "flat (Throw e) = Throw e"
| "flat Crash = Crash"

lemma flat_Ok [simp]: "flat r = Ok a \<longleftrightarrow> r = Ok (Inr a)"
  by (cases r rule: flat.cases) auto

lemma outcomes_caught: "outcomes I m Q \<Longrightarrow> outcomes I (caught m) (\<lambda>r. Q (flat r))"
  unfolding caught_def outcomes_def try_catch_def await_def ret_def
  by (auto split: prod.splits outcome.splits)

lemma transaction_segment_transacted:
  assumes "obeys inside_tx operation"
  shows "outcomes (\<lambda>w. db w = t) (transaction_segment P operation) (\<lambda>r w. transacted P operation t (flat r) (db w))"
proof -
  have body: "outcomes (entry t)
      (await operation (\<lambda>result. await get_state (\<lambda>w.
       await (run_if (eventsToPublish w \<noteq> []) (outbox_saveAll P (eventsToPublish w) True)) (\<lambda>_.
       await commitTransaction (\<lambda>_. ret result))))) (\<lambda>r w. transacted P operation t r (db w))"
    by (rule outcomes_await[OF outcomes_operation[OF assms]])
       (auto intro: outcomes_by_state outcomes_commit_phase transacted_same)
  have undone: "outcomes (\<lambda>w. transacted P operation t (Throw e) (db w)) (await rollbackTransaction (\<lambda>_. throw e))
      (\<lambda>r w. transacted P operation t r (db w))" for e
    by (rule outcomes_by_state, rule outcomes_weaken[OF outcomes_rollback]) (auto intro: transacted_rejected)
  note main = outcomes_caught[OF outcomes_try_catch[OF body undone]]
  show ?thesis
    unfolding transaction_segment_def
    apply (rule outcomes_await[OF outcomes_start])
      apply (rule outcomes_await[where M = "\<lambda>r w. (r = Ok () \<and> entry t w)"])
         apply (auto simp: outcomes_def modify_def entry_def)[1]
        apply (rule outcomes_weaken[OF main])
           apply (auto intro: transacted_same)
    done
qed

context atomic_operation begin

lemma segment_effect:
  assumes "transaction_segment P operation w = (r, w')"
  obtains (nothing) "db w' = db w" "\<forall>a. flat r \<noteq> Ok a"
  | (all) a es t1 now where "Q (db w) a es t1" "db w' = insert_outbox P es now t1" "\<forall>b. flat r = Ok b \<longrightarrow> b = a"
proof -
  have "transacted P operation (db w) (flat r) (db w')"
    by (rule outcomesD[OF transaction_segment_transacted[OF inside] refl assms])
  then show ?thesis
    unfolding transacted_def using effect that unfolding establishes_def by blast
qed

end

section \<open>Rely and guarantee\<close>

primrec abides ::
  "('g \<Rightarrow> tables \<Rightarrow> tables \<Rightarrow> bool) \<Rightarrow> (tables \<Rightarrow> bool) \<Rightarrow> ('g \<Rightarrow> tables \<Rightarrow> 'g \<Rightarrow> tables \<Rightarrow> bool) \<Rightarrow>
   'a task \<Rightarrow> 'g \<Rightarrow> tables \<Rightarrow> ((error, 'a) outcome \<Rightarrow> 'g \<Rightarrow> tables \<Rightarrow> bool) \<Rightarrow> bool" where
  "abides rely cond guar (Finished r) = (\<lambda>g t Q. Q r g t)"
| "abides rely cond guar (Segment f) = (\<lambda>g t Q. \<forall>w. rely g t (db w) \<longrightarrow> cond (db w) \<longrightarrow>
     (case map_prod (abides rely cond guar) id (f w) of (K, w') \<Rightarrow> \<exists>g'. guar g (db w) g' (db w') \<and> K g' (db w') Q))"

lemma abides_Segment:
  "abides rely cond guar (Segment f) g t Q \<longleftrightarrow> (\<forall>w m w'. rely g t (db w) \<longrightarrow> cond (db w) \<longrightarrow> f w = (m, w') \<longrightarrow>
     (\<exists>g'. guar g (db w) g' (db w') \<and> abides rely cond guar m g' (db w') Q))"
  unfolding abides.simps
proof (rule iff_allI)
  fix w
  show "(rely g t (db w) \<longrightarrow> cond (db w) \<longrightarrow> (case map_prod (abides rely cond guar) id (f w) of (K, w') \<Rightarrow>
      \<exists>g'. guar g (db w) g' (db w') \<and> K g' (db w') Q)) \<longleftrightarrow>
    (\<forall>m w'. rely g t (db w) \<longrightarrow> cond (db w) \<longrightarrow> f w = (m, w') \<longrightarrow>
      (\<exists>g'. guar g (db w) g' (db w') \<and> abides rely cond guar m g' (db w') Q))"
    by (cases "f w") simp
qed

lemmas abides_simps [simp] = abides.simps(1) abides_Segment

declare abides.simps(2) [simp del]

lemma task_induct [case_names Finished Segment]:
  assumes "\<And>r. S (Finished r)" "\<And>f. (\<And>w m w'. f w = (m, w') \<Longrightarrow> S m) \<Longrightarrow> S (Segment f)"
  shows "S m"
proof (induction m)
  case (Segment f)
  then show ?case using assms(2)[of f] by (metis fst_conv fsts.intros rangeI)
qed (rule assms(1))

text \<open>Started where \<open>I\<close> holds, the task keeps to its guarantee and ends where \<open>Q\<close> holds.\<close>

definition conforms ::
  "('g \<Rightarrow> tables \<Rightarrow> tables \<Rightarrow> bool) \<Rightarrow> (tables \<Rightarrow> bool) \<Rightarrow> ('g \<Rightarrow> tables \<Rightarrow> 'g \<Rightarrow> tables \<Rightarrow> bool) \<Rightarrow>
   ('g \<Rightarrow> tables \<Rightarrow> bool) \<Rightarrow> 'a task \<Rightarrow> ((error, 'a) outcome \<Rightarrow> 'g \<Rightarrow> tables \<Rightarrow> bool) \<Rightarrow> bool" where
  "conforms rely cond guar I m Q \<longleftrightarrow> (\<forall>g t. I g t \<longrightarrow> abides rely cond guar m g t Q)"

definition undisturbed :: "('g \<Rightarrow> tables \<Rightarrow> tables \<Rightarrow> bool) \<Rightarrow> ('g \<Rightarrow> tables \<Rightarrow> bool) \<Rightarrow> bool" where
  "undisturbed rely I \<longleftrightarrow> (\<forall>g t t'. I g t \<longrightarrow> rely g t t' \<longrightarrow> I g t')"

lemma undisturbedD: "undisturbed rely I \<Longrightarrow> I g t \<Longrightarrow> rely g t t' \<Longrightarrow> I g t'"
  unfolding undisturbed_def by blast

text \<open>What is kept whatever comes of a task, and what holds besides when it resolves.\<close>

definition upon :: "('g \<Rightarrow> tables \<Rightarrow> bool) \<Rightarrow> ('a \<Rightarrow> 'g \<Rightarrow> tables \<Rightarrow> bool) \<Rightarrow> (error, 'a) outcome \<Rightarrow> 'g \<Rightarrow> tables \<Rightarrow> bool" where
  "upon J K r g t \<longleftrightarrow> J g t \<and> (\<forall>a. r = Ok a \<longrightarrow> K a g t)"

lemma upon_simps [simp]:
  "upon J K (Ok a) g t \<longleftrightarrow> J g t \<and> K a g t" "upon J K (Throw e) g t \<longleftrightarrow> J g t" "upon J K Crash g t \<longleftrightarrow> J g t"
  by (auto simp: upon_def)

locale rely_guarantee =
  fixes rely :: "'g \<Rightarrow> tables \<Rightarrow> tables \<Rightarrow> bool" and cond :: "tables \<Rightarrow> bool"
    and guar :: "'g \<Rightarrow> tables \<Rightarrow> 'g \<Rightarrow> tables \<Rightarrow> bool"
  assumes rely_trans: "rely g t t1 \<Longrightarrow> rely g t1 t2 \<Longrightarrow> rely g t t2"
    and idle: "rely g t t1 \<Longrightarrow> guar g t1 g t1"
begin

lemma abides_later:
  assumes "abides rely cond guar m g t Q" "rely g t t1" "\<And>r. undisturbed rely (Q r)"
  shows "abides rely cond guar m g t1 Q"
  using assms(1)
proof (cases m)
  case (Finished r)
  then show ?thesis using assms(1,2) undisturbedD[OF assms(3)] by simp
next
  case (Segment f)
  then show ?thesis using assms(1) rely_trans[OF assms(2)] by simp
qed

lemma abides_weaken:
  "abides rely cond guar m g t Q \<Longrightarrow> (\<And>r g t. Q r g t \<Longrightarrow> Q' r g t) \<Longrightarrow> abides rely cond guar m g t Q'"
  by (induction m arbitrary: g t rule: task_induct) (simp, simp, metis)

lemma abides_and_then:
  "abides rely cond guar m g t M \<Longrightarrow> (\<And>a g t. M (Ok a) g t \<Longrightarrow> abides rely cond guar (k a) g t Q) \<Longrightarrow>
   (\<And>e g t. M (Throw e) g t \<Longrightarrow> Q (Throw e) g t) \<Longrightarrow> (\<And>g t. M Crash g t \<Longrightarrow> Q Crash g t) \<Longrightarrow>
   abides rely cond guar (and_then m k) g t Q"
proof (induction m arbitrary: g t rule: task_induct)
  case (Finished r)
  then show ?case by (cases r) simp_all
next
  case (Segment f)
  have "\<exists>g'. guar g (db w) g' (db w') \<and> abides rely cond guar n g' (db w') Q"
    if w: "rely g t (db w)" "cond (db w)" "(case map_prod and_then id (f w) of (m, w') \<Rightarrow> (m k, w')) = (n, w')" for w n w'
  proof -
    obtain m where m: "f w = (m, w')" "n = and_then m k" using w(3) by (cases "f w") auto
    then obtain g' where "guar g (db w) g' (db w')" "abides rely cond guar m g' (db w') M"
      using Segment.prems(1)[unfolded abides_Segment, rule_format, OF w(1,2) m(1)] by blast
    then show ?thesis using Segment.IH[OF m(1)] Segment.prems(2-) m(2) by blast
  qed
  then show ?case by simp
qed

lemma abides_or_catch:
  "abides rely cond guar m g t M \<Longrightarrow> (\<And>e g t. M (Throw e) g t \<Longrightarrow> abides rely cond guar (h e) g t Q) \<Longrightarrow>
   (\<And>a g t. M (Ok a) g t \<Longrightarrow> Q (Ok a) g t) \<Longrightarrow> (\<And>g t. M Crash g t \<Longrightarrow> Q Crash g t) \<Longrightarrow>
   abides rely cond guar (or_catch m h) g t Q"
proof (induction m arbitrary: g t rule: task_induct)
  case (Finished r)
  then show ?case by (cases r) simp_all
next
  case (Segment f)
  have "\<exists>g'. guar g (db w) g' (db w') \<and> abides rely cond guar n g' (db w') Q"
    if w: "rely g t (db w)" "cond (db w)" "(case map_prod or_catch id (f w) of (m, w') \<Rightarrow> (m h, w')) = (n, w')" for w n w'
  proof -
    obtain m where m: "f w = (m, w')" "n = or_catch m h" using w(3) by (cases "f w") auto
    then obtain g' where "guar g (db w) g' (db w')" "abides rely cond guar m g' (db w') M"
      using Segment.prems(1)[unfolded abides_Segment, rule_format, OF w(1,2) m(1)] by blast
    then show ?thesis using Segment.IH[OF m(1)] Segment.prems(2-) m(2) by blast
  qed
  then show ?case by simp
qed

text \<open>What no guarantee takes from the ghost value stays.\<close>

lemma abides_upward:
  assumes up: "\<And>g t g' t'. guar g t g' t' \<Longrightarrow> U g \<Longrightarrow> U g'"
  shows "abides rely cond guar m g t Q \<Longrightarrow> U g \<Longrightarrow> abides rely cond guar m g t (\<lambda>r g t. Q r g t \<and> U g)"
proof (induction m arbitrary: g t rule: task_induct)
  case (Segment f)
  have "\<exists>g'. guar g (db w) g' (db w') \<and> abides rely cond guar m g' (db w') (\<lambda>r g t. Q r g t \<and> U g)"
    if w: "rely g t (db w)" "cond (db w)" "f w = (m, w')" for w m w'
  proof -
    obtain g' where "guar g (db w) g' (db w')" "abides rely cond guar m g' (db w') Q"
      using Segment.prems(1)[unfolded abides_Segment, rule_format, OF w] by blast
    then show ?thesis using Segment.IH[OF w(3)] up Segment.prems(2) by blast
  qed
  then show ?case by simp
qed simp

text \<open>The rules in terms of what holds when the task is started, at whatever tables.\<close>

lemma conforms_weaken:
  "conforms rely cond guar I m Q \<Longrightarrow> (\<And>g t. I' g t \<Longrightarrow> I g t) \<Longrightarrow> (\<And>r g t. Q r g t \<Longrightarrow> Q' r g t) \<Longrightarrow>
   conforms rely cond guar I' m Q'"
  unfolding conforms_def using abides_weaken by blast

lemma conforms_resolved: "(\<And>g t. I g t \<Longrightarrow> Q (Ok a) g t) \<Longrightarrow> conforms rely cond guar I (resolved a) Q"
  by (simp add: conforms_def resolved_def)

lemma conforms_rejected: "(\<And>g t. I g t \<Longrightarrow> Q (Throw e) g t) \<Longrightarrow> conforms rely cond guar I (rejected e) Q"
  by (simp add: conforms_def rejected_def)

lemma conforms_and_then:
  "conforms rely cond guar I m M \<Longrightarrow> (\<And>a. conforms rely cond guar (M (Ok a)) (k a) Q) \<Longrightarrow>
   (\<And>e g t. M (Throw e) g t \<Longrightarrow> Q (Throw e) g t) \<Longrightarrow> (\<And>g t. M Crash g t \<Longrightarrow> Q Crash g t) \<Longrightarrow>
   conforms rely cond guar I (and_then m k) Q"
  unfolding conforms_def by (blast intro: abides_and_then)

lemma conforms_or_catch:
  "conforms rely cond guar I m M \<Longrightarrow> (\<And>e. conforms rely cond guar (M (Throw e)) (h e) Q) \<Longrightarrow>
   (\<And>a g t. M (Ok a) g t \<Longrightarrow> Q (Ok a) g t) \<Longrightarrow> (\<And>g t. M Crash g t \<Longrightarrow> Q Crash g t) \<Longrightarrow>
   conforms rely cond guar I (or_catch m h) Q"
  unfolding conforms_def by (blast intro: abides_or_catch)

lemma conforms_upward:
  "conforms rely cond guar I m Q \<Longrightarrow> (\<And>g t g' t'. guar g t g' t' \<Longrightarrow> U g \<Longrightarrow> U g') \<Longrightarrow>
   conforms rely cond guar (\<lambda>g t. I g t \<and> U g) m (\<lambda>r g t. Q r g t \<and> U g)"
  unfolding conforms_def by (simp add: abides_upward)

lemma conforms_each:
  "(\<And>x. conforms rely cond guar I (body x) (\<lambda>_. I)) \<Longrightarrow> conforms rely cond guar I (each_task xs body) (\<lambda>_. I)"
proof (induction xs)
  case (Cons x xs)
  show ?case
    unfolding each_task.simps by (rule conforms_and_then[OF Cons.prems Cons.IH[OF Cons.prems]])
qed (simp add: conforms_resolved)

lemma conforms_atomically:
  assumes "undisturbed rely I"
    and "\<And>g w r w'. I g (db w) \<Longrightarrow> cond (db w) \<Longrightarrow> m w = (r, w') \<Longrightarrow> \<exists>g'. guar g (db w) g' (db w') \<and> Q r g' (db w')"
  shows "conforms rely cond guar I (atomically m) Q"
  using assms undisturbedD[OF assms(1)] by (auto simp: conforms_def atomically_def split: prod.splits)

lemma conforms_silent:
  assumes "undisturbed rely I" "obeys same_tables m"
    and "\<And>g w r w'. I g (db w) \<Longrightarrow> m w = (r, w') \<Longrightarrow> Q r g (db w)"
  shows "conforms rely cond guar I (atomically m) Q"
proof -
  have "\<exists>g'. guar g (db w) g' (db w') \<and> Q r g' (db w')"
    if I: "I g t" and rely: "rely g t (db w)" and run: "m w = (r, w')" for g t w r w'
  proof -
    have "db w' = db w" using obeysD[OF assms(2) run] by (simp add: same_tables_def)
    then show ?thesis using idle[OF rely] assms(3)[OF undisturbedD[OF assms(1) I rely] run] by auto
  qed
  then show ?thesis unfolding conforms_def atomically_def by (simp split: prod.split)
qed

text \<open>A silent segment that others may not disturb, between two others.\<close>

lemma conforms_idle:
  "undisturbed rely I \<Longrightarrow> obeys same_tables m \<Longrightarrow> conforms rely cond guar I (atomically m) (\<lambda>_. I)"
  by (rule conforms_silent)

lemma conforms_execute:
  assumes J: "undisturbed rely J" and K: "\<And>a. undisturbed rely (K a)"
    and seg: "\<And>g w r w'. J g (db w) \<Longrightarrow> cond (db w) \<Longrightarrow> transaction_segment P operation w = (r, w') \<Longrightarrow>
      \<exists>g'. guar g (db w) g' (db w') \<and> upon J K (flat r) g' (db w')"
  shows "conforms rely cond guar J (execute_task P operation opts) (upon J K)"
proof -
  let ?C = "conforms rely cond guar"
  have u: "undisturbed rely (upon J K r)" for r
    unfolding undisturbed_def upon_def using undisturbedD[OF J] undisturbedD[OF K] by blast
  have last: "?C (upon J K (flat (Ok r))) (of_sum r) (upon J K)" for r
    by (cases r) (auto intro: conforms_resolved conforms_rejected)
  have del: "obeys same_tables (run_if b (redis_del k))" for b k
    by (intro tables_contract.obeys_control step_rules)
  have rest: "?C (upon J K (flat (Ok r))) (and_then (atomically release) (\<lambda>_.
     and_then (atomically (run_if b (redis_del k))) (\<lambda>_. of_sum r))) (upon J K)" for r b k
    by (rule conforms_and_then[OF conforms_idle[OF u obeys_tables_runner(4)]
          conforms_and_then[OF conforms_idle[OF u del] last]]) (simp_all add: upon_def)
  show ?thesis
    unfolding execute_task_def
    apply (rule conforms_and_then[OF conforms_idle[OF J obeys_tables_lock]])
      apply (rule conforms_and_then[OF conforms_idle[OF J obeys_tables_runner(1)]])
        apply (rule conforms_and_then[OF conforms_atomically[OF J seg]])
             apply assumption+
          apply (rule conforms_weaken[OF rest])
           apply (simp_all add: upon_def)
    done
qed

lemma conforms_retry:
  assumes "conforms rely cond guar J m (upon J K)" "undisturbed rely J"
  shows "conforms rely cond guar J (retry_task P C left attempt m) (upon J K)"
proof (induction left arbitrary: attempt)
  case 0
  then show ?case by (auto intro: conforms_rejected)
next
  case (Suc n)
  have again: "conforms rely cond guar J (and_then (atomically (performExponentialBackoff P attempt (initialBackoffMs C)))
      (\<lambda>_. retry_task P C n (Suc attempt) m)) (upon J K)"
    by (rule conforms_and_then[OF conforms_idle[OF assms(2) tables_backoff] Suc.IH]) simp_all
  show ?case
    unfolding retry_task.simps
  proof (rule conforms_or_catch[OF assms(1)])
    show "conforms rely cond guar (upon J K (Throw e)) (if isRetryableError e then
        and_then (atomically (performExponentialBackoff P attempt (initialBackoffMs C))) (\<lambda>_. retry_task P C n (Suc attempt) m)
      else rejected e) (upon J K)" for e
      using again by (auto intro: conforms_rejected elim: conforms_weaken)
  qed simp_all
qed

lemma conforms_respond:
  "conforms rely cond guar I m (\<lambda>_. J) \<Longrightarrow> conforms rely cond guar I (silent_task (respond_task m)) (\<lambda>_. J)"
  unfolding silent_task_def respond_task_def
  by (rule conforms_and_then[OF conforms_or_catch[OF conforms_and_then]]) (auto intro: conforms_resolved)

end

end
