(* ===== verification/Overlap.thy ===== *)
theory Overlap imports RelyGuarantee
begin

text \<open>
  What an activity guarantees, and relies on between its segments, when others are under way. It is
  about sagas: nobody changes the parties or the amount of a saga or moves it against its state
  machine, and nobody but the transfer that created it (\<open>own\<close>) touches a pending one. Deposits,
  withdrawals and changes of status are judged here, transfers and recoveries in
  \<open>OverlappingTransfers\<close>; \<open>OverlappingRuns\<close> has the runs and the properties.
\<close>

section \<open>Rely and guarantee of the activities\<close>

text \<open>The sagas of \<open>t\<close> in \<open>t'\<close>: parties and amount stay, the state moves along the machine, and those of
  \<open>kept\<close> that are pending stay pending.\<close>

definition progress :: "string set \<Rightarrow> tables \<Rightarrow> tables \<Rightarrow> bool" where
  "progress kept t t' \<longleftrightarrow> (\<forall>s x. transfers (ledger_of t) s = Some x \<longrightarrow>
     (\<exists>st. transfers (ledger_of t') s = Some (x\<lparr>tr_state := st\<rparr>) \<and> saga_moves\<^sup>*\<^sup>* (tr_state x) st \<and>
       (s \<in> kept \<and> tr_state x = PENDING \<longrightarrow> st = PENDING)))"

definition relying :: "platform \<Rightarrow> string set \<Rightarrow> tables \<Rightarrow> tables \<Rightarrow> bool" where
  "relying P own t t' \<longleftrightarrow> sound_tables P t' \<and> progress own t t'"

definition guarantee ::
  "platform \<Rightarrow> activity \<Rightarrow> string set \<Rightarrow> tables \<Rightarrow> string set \<Rightarrow> tables \<Rightarrow> bool" where
  "guarantee P a own t own' t' \<longleftrightarrow> accounted P a t t' \<and> progress (- own) t t' \<and> own \<subseteq> own' \<and>
     own' \<subseteq> own \<union> (dom (sagas t') - dom (sagas t))"

lemma progressI:
  "(\<And>s x. transfers (ledger_of t) s = Some x \<Longrightarrow> \<exists>st. transfers (ledger_of t') s = Some (x\<lparr>tr_state := st\<rparr>) \<and>
     saga_moves\<^sup>*\<^sup>* (tr_state x) st \<and> (s \<in> kept \<and> tr_state x = PENDING \<longrightarrow> st = PENDING)) \<Longrightarrow> progress kept t t'"
  unfolding progress_def by blast

lemma progressE:
  assumes "progress kept t t'" "transfers (ledger_of t) s = Some x"
  obtains st where "transfers (ledger_of t') s = Some (x\<lparr>tr_state := st\<rparr>)" "saga_moves\<^sup>*\<^sup>* (tr_state x) st"
    "s \<in> kept \<and> tr_state x = PENDING \<longrightarrow> st = PENDING"
  using assms(1)[unfolded progress_def, rule_format, OF assms(2)] that by blast

lemma progress_same: "sagas t' = sagas t \<Longrightarrow> progress kept t t'"
proof (rule progressI)
  fix s x assume e: "sagas t' = sagas t" and "transfers (ledger_of t) s = Some x"
  then have "transfers (ledger_of t') s = Some (x\<lparr>tr_state := tr_state x\<rparr>)" by simp
  then show "\<exists>st. transfers (ledger_of t') s = Some (x\<lparr>tr_state := st\<rparr>) \<and> saga_moves\<^sup>*\<^sup>* (tr_state x) st \<and>
      (s \<in> kept \<and> tr_state x = PENDING \<longrightarrow> st = PENDING)" by blast
qed

lemma progress_trans: "progress kept t t1 \<Longrightarrow> progress kept t1 t2 \<Longrightarrow> progress kept t t2"
proof (rule progressI)
  fix s x assume p: "progress kept t t1" "progress kept t1 t2" and x: "transfers (ledger_of t) s = Some x"
  obtain s1 where s1: "transfers (ledger_of t1) s = Some (x\<lparr>tr_state := s1\<rparr>)" "saga_moves\<^sup>*\<^sup>* (tr_state x) s1"
      "s \<in> kept \<and> tr_state x = PENDING \<longrightarrow> s1 = PENDING"
    by (rule progressE[OF p(1) x])
  obtain s2 where s2: "transfers (ledger_of t2) s = Some (x\<lparr>tr_state := s1\<rparr>\<lparr>tr_state := s2\<rparr>)" "saga_moves\<^sup>*\<^sup>* s1 s2"
      "s \<in> kept \<and> s1 = PENDING \<longrightarrow> s2 = PENDING"
    by (rule progressE[OF p(2) s1(1)]) auto
  have "transfers (ledger_of t2) s = Some (x\<lparr>tr_state := s2\<rparr>)" using s2(1) by (simp del: ledger_of_simps)
  moreover have "saga_moves\<^sup>*\<^sup>* (tr_state x) s2" using s1(2) s2(2) by (rule rtranclp_trans)
  ultimately show "\<exists>st. transfers (ledger_of t2) s = Some (x\<lparr>tr_state := st\<rparr>) \<and> saga_moves\<^sup>*\<^sup>* (tr_state x) st \<and>
      (s \<in> kept \<and> tr_state x = PENDING \<longrightarrow> st = PENDING)" using s1(3) s2(3) by blast
qed

lemma progress_mono: "progress kept t t' \<Longrightarrow> kept' \<subseteq> kept \<Longrightarrow> progress kept' t t'"
  unfolding progress_def by blast

text \<open>A step of the protocol is progress, and so is a run of it.\<close>

lemma progress_run: "ledger_run (ledger_of t) (ledger_of t') \<Longrightarrow> progress {} t t'"
proof (rule progressI)
  fix s x assume "ledger_run (ledger_of t) (ledger_of t')" "transfers (ledger_of t) s = Some x"
  then obtain y where y: "transfers (ledger_of t') s = Some y" "saga_moves\<^sup>*\<^sup>* (tr_state x) (tr_state y)"
      "tr_from y = tr_from x" "tr_to y = tr_to x" "tr_cents y = tr_cents x"
    using run_transfer by blast
  then have "y = x\<lparr>tr_state := tr_state y\<rparr>" by simp
  then show "\<exists>st. transfers (ledger_of t') s = Some (x\<lparr>tr_state := st\<rparr>) \<and> saga_moves\<^sup>*\<^sup>* (tr_state x) st \<and>
      (s \<in> {} \<and> tr_state x = PENDING \<longrightarrow> st = PENDING)" using y(1,2) by (metis empty_iff)
qed

text \<open>A run that gets only one transfer on.\<close>

lemma progress_carries:
  assumes c: "carries P t s x t'" and x: "transfers (ledger_of t) s = Some (x\<lparr>tr_state := st0\<rparr>)"
    and own: "s \<notin> kept \<or> st0 \<noteq> PENDING"
  shows "progress kept t t'"
proof (rule progressI)
  fix s' y assume y: "transfers (ledger_of t) s' = Some y"
  have run: "ledger_run (ledger_of t) (ledger_of t')" using carries_follows[OF c] by (simp add: follows_def)
  obtain st where st: "transfers (ledger_of t') s' = Some (y\<lparr>tr_state := st\<rparr>)" "saga_moves\<^sup>*\<^sup>* (tr_state y) st"
    using progressE[OF progress_run[OF run] y] by metis
  show "\<exists>st. transfers (ledger_of t') s' = Some (y\<lparr>tr_state := st\<rparr>) \<and> saga_moves\<^sup>*\<^sup>* (tr_state y) st \<and>
      (s' \<in> kept \<and> tr_state y = PENDING \<longrightarrow> st = PENDING)"
  proof (cases "s' = s")
    case True
    then have "y = x\<lparr>tr_state := st0\<rparr>" using x y by (simp del: ledger_of_simps)
    then have "tr_state y = st0" by simp
    then show ?thesis using st own True by blast
  next
    case False
    then have "transfers (ledger_of t') s' = transfers (ledger_of t) s'"
      using c unfolding carries_def stage_def settled_def by (auto simp del: ledger_of_simps)
    then have "transfers (ledger_of t') s' = Some (y\<lparr>tr_state := tr_state y\<rparr>)" using y by (simp del: ledger_of_simps)
    then show ?thesis by blast
  qed
qed

lemma guarantee_same: "sound_tables P t \<Longrightarrow> guarantee P a own t own t"
  by (simp add: guarantee_def accounted_same progress_same)

interpretation overlap: rely_guarantee "relying P" "\<lambda>t. in_cents V t a" "guarantee P a"
  for V P a
  by unfold_locales (auto simp: relying_def intro: progress_trans guarantee_same)

lemma undisturbed_sound: "undisturbed (relying P) (\<lambda>own. sound_tables P)"
  by (simp add: undisturbed_def relying_def)

text \<open>A segment that leaves the sagas alone, and the books accounted for.\<close>

lemma guarantee_wallets:
  "accounted P a t t' \<Longrightarrow> sagas t' = sagas t \<Longrightarrow> guarantee P a own t own t' \<and> sound_tables P t'"
  by (auto simp: guarantee_def accounted_def grows_def intro: progress_same)

section \<open>Deposits, withdrawals and changes of status\<close>

lemma movement_sagas: "movement P i a ty operation rid auto t res es t' \<Longrightarrow> sagas t' = sagas t"
  by (auto simp: movement_def wallet_before_def opened_def with_key_def split: if_splits option.splits)

lemma state_change_sagas: "state_change P i ty operation t es t' \<Longrightarrow> sagas t' = sagas t"
  by (auto simp: state_change_def)

text \<open>The contract of a transaction body gives the conformance of its task.\<close>

context atomic_operation begin

lemma execute_conforms:
  assumes "\<And>t b es t1 now. sound_tables P t \<Longrightarrow> in_cents V t a \<Longrightarrow> Q t b es t1 \<Longrightarrow>
    accounted P a t (insert_outbox P es now t1) \<and> sagas t1 = sagas t"
  shows "conforms (relying P) (\<lambda>t. in_cents V t a) (guarantee P a) (\<lambda>own. sound_tables P)
    (execute_task P operation opts) (\<lambda>_ own. sound_tables P)"
proof -
  have "conforms (relying P) (\<lambda>t. in_cents V t a) (guarantee P a) (\<lambda>own. sound_tables P)
    (execute_task P operation opts) (upon (\<lambda>own. sound_tables P) (\<lambda>_ _ _. True))"
  proof (rule overlap.conforms_execute[OF undisturbed_sound])
    fix own :: "string set" and w r w'
    assume t: "sound_tables P (db w)" "in_cents V (db w) a" and run: "transaction_segment P operation w = (r, w')"
    from run show "\<exists>own'. guarantee P a own (db w) own' (db w') \<and> upon (\<lambda>own. sound_tables P) (\<lambda>_ _ _. True) (flat r) own' (db w')"
    proof (cases rule: segment_effect)
      case nothing
      then show ?thesis using guarantee_same[OF t(1)] t(1) by (auto simp: upon_def)
    next
      case (all b es t1 now)
      then show ?thesis
        using guarantee_wallets[OF conjunct1[OF assms[OF t all(1), of now]]] assms[OF t all(1)]
        by (auto simp: upon_def)
    qed
  qed (simp add: undisturbed_def)
  then show ?thesis by (rule overlap.conforms_weaken) (simp_all add: upon_def)
qed

end

text \<open>\<open>safe V P a m\<close>: the task \<open>m\<close> keeps to what the activity \<open>a\<close> guarantees, started at any sound tables.\<close>

definition safe :: "validators \<Rightarrow> platform \<Rightarrow> activity \<Rightarrow> 'a task \<Rightarrow> bool" where
  "safe V P a m \<longleftrightarrow> conforms (relying P) (\<lambda>t. in_cents V t a) (guarantee P a) (\<lambda>own. sound_tables P) m (\<lambda>_ own. sound_tables P)"

lemma safe_silent: "obeys same_tables m \<Longrightarrow> safe V P a (atomically m)"
  unfolding safe_def by (rule overlap.conforms_idle[OF undisturbed_sound])

lemma safe_resolved [simp]: "safe V P a (resolved b)" and safe_rejected [simp]: "safe V P a (rejected e)"
  unfolding safe_def by (simp_all add: overlap.conforms_resolved overlap.conforms_rejected)

lemma safe_and_then: "safe V P a m \<Longrightarrow> (\<And>b. safe V P a (k b)) \<Longrightarrow> safe V P a (and_then m k)"
  unfolding safe_def by (rule overlap.conforms_and_then)

lemma safe_respond: "safe V P a m \<Longrightarrow> safe V P a (silent_task (respond_task m))"
  unfolding safe_def by (rule overlap.conforms_respond)

lemma safe_option: "safe V P a m \<Longrightarrow> (\<And>x. safe V P a (f x)) \<Longrightarrow> safe V P a (case z of None \<Rightarrow> m | Some x \<Rightarrow> f x)"
  by (cases z) simp_all

lemma safe_silently_resolved [simp]: "safe V P a (silent_task (resolved b))"
  by (simp add: silent_task_def safe_and_then)

lemma tables_existing: "obeys same_tables (if given rid then findByRequestId (the rid) else ret None)"
  by (simp add: tables_findByRequestId tables_contract.obeys_ret)

lemma safe_then_cached: "safe V P a m \<Longrightarrow> safe V P a (then_cached P i m)"
  unfolding then_cached_def
  by (intro safe_and_then safe_silent safe_resolved) (simp_all add: setBalanceCache_def step_rules)

lemma safe_idempotent:
  "(\<And>opts. safe V P a (execute_task P (idempotent_operation P i x ty operation rid auto) opts)) \<Longrightarrow>
   safe V P a (idempotent_task P i x ty operation rid auto)"
  unfolding idempotent_task_def
  by (intro safe_and_then safe_silent safe_option) (simp_all only: tables_existing safe_resolved)

lemma safe_deposit:
  assumes "decimal_column P" "DepositDto V body"
  shows "safe V P (PostDeposit i body rid) (deposit_task P i (amount_of (cents_in body)) rid)"
  unfolding deposit_task_def
proof (intro safe_then_cached safe_idempotent)
  fix opts
  show "safe V P (PostDeposit i body rid) (execute_task P (idempotent_operation P i (amount_of (cents_in body)) FUNDS_DEPOSITED
      (\<lambda>now. wallet_deposit (amount_of (cents_in body))) rid True) opts)"
    unfolding safe_def
  proof (rule deposit_tx.execute_conforms)
    fix t res es t1 now
    assume t: "sound_tables P t" "in_cents V t (PostDeposit i body rid)"
      and mv: "movement P i (amount_of (cents_in body)) FUNDS_DEPOSITED (\<lambda>now. wallet_deposit (amount_of (cents_in body))) rid True t res es t1"
    have k: "0 < cents_in body" "cents_in body \<le> 10 ^ 15 - 10" "money (ledger_of t) + cents_in body \<le> 10 ^ 15 - 10"
      using t(2) assms(2) by (simp_all add: whole_cents_def)
    show "accounted P (PostDeposit i body rid) t (insert_outbox P es now t1) \<and> sagas t1 = sagas t"
      using deposit_grows[OF assms(1) t(1) k mv, of now] movement_sagas[OF mv] by (simp add: accounted_def)
  qed
qed

lemma safe_withdraw:
  assumes "decimal_column P" "WithdrawDto V body"
  shows "safe V P (PostWithdraw i body rid) (withdraw_task P i (amount_of (cents_in body)) rid)"
  unfolding withdraw_task_def
proof (intro safe_then_cached safe_idempotent)
  fix opts
  show "safe V P (PostWithdraw i body rid) (execute_task P (idempotent_operation P i (amount_of (cents_in body)) FUNDS_WITHDRAWN
      (\<lambda>now. wallet_withdraw now now (amount_of (cents_in body))) rid False) opts)"
    unfolding safe_def
  proof (rule withdraw_tx.execute_conforms)
    fix t res es t1 now
    assume t: "sound_tables P t" "in_cents V t (PostWithdraw i body rid)"
      and mv: "movement P i (amount_of (cents_in body)) FUNDS_WITHDRAWN (\<lambda>now. wallet_withdraw now now (amount_of (cents_in body))) rid False t res es t1"
    have k: "0 < cents_in body" "cents_in body \<le> 10 ^ 15 - 10" using t(2) assms(2) by (simp_all add: whole_cents_def)
    show "accounted P (PostWithdraw i body rid) t (insert_outbox P es now t1) \<and> sagas t1 = sagas t"
      using withdraw_grows[OF assms(1) t(1) k mv, of now] movement_sagas[OF mv] by (simp add: accounted_def)
  qed
qed

text \<open>Changes of status and limit.\<close>

lemma state_change_accounted:
  assumes "decimal_column P" "sound_tables P t" "state_change P i ty operation t es t1"
    and "\<And>v v'. operation v = (Ok (), v') \<Longrightarrow> balance v' = balance v" and "\<And>t'. inflow a t t' = 0"
  shows "accounted P a t (insert_outbox P es now t1) \<and> sagas t1 = sagas t"
  using grows_outbox[OF state_change_grows[OF assms(1-4)]] state_change_sagas[OF assms(3)]
  by (simp add: accounted_def assms(5))

lemma safe_stateChange:
  assumes "\<And>m. safe V P a (execute_task P (stateChange_operation P i ty operation m) default_options)"
  shows "safe V P a (stateChange_task P i ty operation m)"
  unfolding stateChange_task_def
  by (intro safe_and_then safe_silent assms)
     (simp_all add: tables_contract.obeys_get_state tables_invalidateBalanceCache)

lemma safe_status:
  assumes P: "decimal_column P"
  shows "safe V P (FreezeWallet i r b) (freezeWallet_task P i r b)"
    "safe V P (UnfreezeWallet i b) (unfreezeWallet_task P i b)"
    "safe V P (CloseWallet i r b) (closeWallet_task P i r b)"
    "safe V P (SetLimit i l b why) (setDailyWithdrawalLimit_task P i l b why)"
proof -
  note acc = state_change_accounted[OF P]
  show "safe V P (FreezeWallet i r b) (freezeWallet_task P i r b)"
    unfolding freezeWallet_task_def
    by (rule safe_stateChange, unfold safe_def, rule freeze_tx.execute_conforms, rule acc)
       (assumption | auto simp: status_operations_keep_balance)+
  show "safe V P (UnfreezeWallet i b) (unfreezeWallet_task P i b)"
    unfolding unfreezeWallet_task_def
    by (rule safe_stateChange, unfold safe_def, rule unfreeze_tx.execute_conforms, rule acc)
       (assumption | auto simp: status_operations_keep_balance)+
  show "safe V P (CloseWallet i r b) (closeWallet_task P i r b)"
    unfolding closeWallet_task_def
    by (rule safe_stateChange, unfold safe_def, rule close_tx.execute_conforms, rule acc)
       (assumption | auto simp: status_operations_keep_balance)+
  show "safe V P (SetLimit i l b why) (setDailyWithdrawalLimit_task P i l b why)"
    unfolding setDailyWithdrawalLimit_task_def safe_def
    by (rule limit_tx.execute_conforms, rule acc) (assumption | auto simp: status_operations_keep_balance)+
qed

end
