(* ===== verification/OverlappingTransfers.thy ===== *)
theory OverlappingTransfers imports Overlap
begin

text \<open>
  Transfers and recoveries between the segments of others: what a transfer knows of its saga stays true
  whatever the others do, and every segment of it is a step of the protocol.
\<close>

declare ledger_of_simps [simp del]

section \<open>What is known of a saga\<close>

definition knows :: "platform \<Rightarrow> string \<Rightarrow> transfer \<Rightarrow> string set \<Rightarrow> tables \<Rightarrow> bool" where
  "knows P s x own t \<longleftrightarrow> sound_tables P t \<and>
     (\<exists>st. transfers (ledger_of t) s = Some (x\<lparr>tr_state := st\<rparr>) \<and> (s \<in> own \<or> st \<noteq> PENDING))"

lemma not_pending_again: "saga_moves\<^sup>*\<^sup>* st st' \<Longrightarrow> st \<noteq> PENDING \<Longrightarrow> st' \<noteq> PENDING"
  by (induction rule: rtranclp_induct) (auto elim: saga_moves.cases)

lemma knows_later:
  assumes "knows P s x own t" "sound_tables P t'" "progress kept t t'"
  shows "knows P s x own t'"
proof -
  obtain st where st: "transfers (ledger_of t) s = Some (x\<lparr>tr_state := st\<rparr>)" "s \<in> own \<or> st \<noteq> PENDING"
    using assms(1) by (auto simp: knows_def)
  obtain st' where st': "transfers (ledger_of t') s = Some (x\<lparr>tr_state := st\<rparr>\<lparr>tr_state := st'\<rparr>)" "saga_moves\<^sup>*\<^sup>* st st'"
    by (rule progressE[OF assms(3) st(1)]) auto
  then have "transfers (ledger_of t') s = Some (x\<lparr>tr_state := st'\<rparr>)" by simp
  then show ?thesis using assms(2) st(2) not_pending_again[OF st'(2)] unfolding knows_def by blast
qed

lemma undisturbed_knows: "undisturbed (relying P) (knows P s x)"
  unfolding undisturbed_def relying_def using knows_later by blast

lemma knows_carries: "knows P s x own t \<Longrightarrow> carries P t s x t"
  unfolding knows_def carries_def
  using stage_start[of P t s] by (auto simp: stage_def)

text \<open>A segment that gets the known saga on, and nothing else.\<close>

lemma guarantee_carries:
  assumes "knows P s x own t" "carries P t s x t'" "\<And>t t'. inflow a t t' = 0"
  shows "guarantee P a own t own t' \<and> knows P s x own t'"
proof -
  obtain st where st: "transfers (ledger_of t) s = Some (x\<lparr>tr_state := st\<rparr>)" "s \<in> own \<or> st \<noteq> PENDING"
    using assms(1) by (auto simp: knows_def)
  have "sound_tables P t" using assms(1) by (simp add: knows_def)
  then have "accounted P a t t'"
    using grows_follows[OF _ carries_follows[OF assms(2)]] by (simp add: accounted_def assms(3))
  moreover have "progress (- own) t t'" using progress_carries[OF assms(2) st(1)] st(2) by auto
  ultimately show ?thesis
    using knows_later[OF assms(1) carries_sound[OF assms(2)]] by (simp add: guarantee_def)
qed

section \<open>The steps\<close>

abbreviation conforming ::
  "validators \<Rightarrow> platform \<Rightarrow> activity \<Rightarrow> (string set \<Rightarrow> tables \<Rightarrow> bool) \<Rightarrow> 'a task \<Rightarrow>
   ((error, 'a) outcome \<Rightarrow> string set \<Rightarrow> tables \<Rightarrow> bool) \<Rightarrow> bool" where
  "conforming V P a \<equiv> conforms (relying P) (\<lambda>t. in_cents V t a) (guarantee P a)"

lemma conforming_by_value:
  "(\<And>x. conforming V P a (I x) m Q) \<Longrightarrow> conforming V P a (\<lambda>own t. \<exists>x. I x own t) m Q"
  unfolding conforms_def by blast

context atomic_operation begin

lemma known_conforms:
  assumes "\<And>t c es t1. carries P t s x t \<Longrightarrow> Q t c es t1 \<Longrightarrow> carries P t s x t1" and "\<And>t t'. inflow a t t' = 0"
  shows "conforming V P a (knows P s x) (retry_task P C left attempt (execute_task P operation opts)) (\<lambda>_. knows P s x)"
proof -
  have "conforming V P a (knows P s x) (execute_task P operation opts) (upon (knows P s x) (\<lambda>_ _ _. True))"
  proof (rule overlap.conforms_execute[OF undisturbed_knows])
    fix own and w :: world and r w'
    assume k: "knows P s x own (db w)" and run: "transaction_segment P operation w = (r, w')"
    have "sound_tables P (db w)" using k by (simp add: knows_def)
    have "carries P (db w) s x (db w')"
      using run
    proof (cases rule: segment_effect)
      case (all c es t1 now)
      then show ?thesis using assms(1)[OF knows_carries[OF k] all(1)] by (simp add: carries_outbox)
    qed (simp add: knows_carries[OF k])
    then show "\<exists>own'. guarantee P a own (db w) own' (db w') \<and> upon (knows P s x) (\<lambda>_ _ _. True) (flat r) own' (db w')"
      using guarantee_carries[OF k _ assms(2)] by (auto simp: upon_def)
  qed (simp add: undisturbed_def)
  then show ?thesis
    by (rule overlap.conforms_weaken[OF overlap.conforms_retry[OF _ undisturbed_knows]]) (simp_all add: upon_def)
qed

end

text \<open>The tasks of the three steps.\<close>

lemma conforms_then_silent:
  "conforming V P a (knows P s x) m (\<lambda>_. knows P s x) \<Longrightarrow> obeys same_tables n \<Longrightarrow>
   conforming V P a (knows P s x) (and_then m (\<lambda>_. atomically n)) (\<lambda>_. knows P s x)"
  by (erule overlap.conforms_and_then) (simp_all add: overlap.conforms_idle[OF undisturbed_knows])

lemma debit_conforms:
  assumes "decimal_column P" "s \<noteq> []" "stands_for saga s x" "\<And>t t'. inflow a t t' = 0"
  shows "conforming V P a (knows P s x) (debit_task P C saga) (\<lambda>_. knows P s x)"
proof -
  have saga: "saga_id saga = s" "fromWalletId saga = tr_from x" "toWalletId saga = tr_to x" "saga_amount saga = amount_of (tr_cents x)"
    using assms(3) by (simp_all add: stands_for_def)
  show ?thesis
    unfolding debit_task_def step_task_def saga
    by (rule conforms_then_silent[OF debit_tx.known_conforms[OF stage_carries[OF debit_stage]] tables_invalidateBalanceCache])
       (use assms in blast)+
qed

lemma credit_conforms:
  assumes "decimal_column P" "s \<noteq> []" "stands_for saga s x" "\<And>t t'. inflow a t t' = 0"
  shows "conforming V P a (knows P s x) (credit_task P C saga recovered) (\<lambda>_. knows P s x)"
proof -
  have saga: "saga_id saga = s" "fromWalletId saga = tr_from x" "toWalletId saga = tr_to x" "saga_amount saga = amount_of (tr_cents x)"
    using assms(3) by (simp_all add: stands_for_def)
  show ?thesis
    unfolding credit_task_def step_task_def saga
    by (rule conforms_then_silent[OF credit_tx.known_conforms[OF stage_carries[OF credit_stage]] tables_invalidateBalanceCache])
       (use assms in blast)+
qed

lemma compensate_conforms:
  assumes "decimal_column P" "s \<noteq> []" "\<And>t t'. inflow a t t' = 0"
  shows "conforming V P a (knows P s x) (compensate_task P C s (tr_from x) (amount_of (tr_cents x)) reason) (\<lambda>_. knows P s x)"
proof -
  have publish: "obeys same_tables (await get_state (\<lambda>w. publish C (f w)))" for f :: "world \<Rightarrow> json"
    by (intro tables_contract.obeys_control step_rules)
  show ?thesis
    unfolding compensate_task_def step_task_def
    by (rule overlap.conforms_or_catch[OF conforms_then_silent[OF refund_tx.known_conforms[OF stage_carries[OF refund_stage]] publish]])
       (use assms in \<open>auto intro: overlap.conforms_rejected\<close>)
qed

section \<open>The transfer\<close>

text \<open>The transfer owns its saga; the object it reads again is the saga's, and says truly that it is
  pending, until the transfer itself changes it.\<close>

definition owns :: "platform \<Rightarrow> string \<Rightarrow> transfer \<Rightarrow> string set \<Rightarrow> tables \<Rightarrow> bool" where
  "owns P s x own t \<longleftrightarrow> knows P s x own t \<and> s \<in> own"

definition pending_if :: "bool \<Rightarrow> platform \<Rightarrow> string \<Rightarrow> transfer \<Rightarrow> string set \<Rightarrow> tables \<Rightarrow> bool" where
  "pending_if b P s x own t \<longleftrightarrow> owns P s x own t \<and> (b \<longrightarrow> transfers (ledger_of t) s = Some (x\<lparr>tr_state := PENDING\<rparr>))"

lemma undisturbed_owns: "undisturbed (relying P) (owns P s x)"
  using undisturbed_knows[of P s x] by (auto simp: undisturbed_def owns_def)

lemma undisturbed_pending: "undisturbed (relying P) (pending_if b P s x)"
  unfolding undisturbed_def
proof (intro allI impI)
  fix own t t' assume p: "pending_if b P s x own t" and r: "relying P own t t'"
  have "transfers (ledger_of t') s = Some (x\<lparr>tr_state := PENDING\<rparr>)"
    if pend: "transfers (ledger_of t) s = Some (x\<lparr>tr_state := PENDING\<rparr>)"
  proof -
    have "progress own t t'" and "s \<in> own" using r p by (auto simp: relying_def pending_if_def owns_def)
    from this(1) pend obtain st where "transfers (ledger_of t') s = Some (x\<lparr>tr_state := PENDING\<rparr>\<lparr>tr_state := st\<rparr>)" "st = PENDING"
      by (rule progressE) (use \<open>s \<in> own\<close> in auto)
    then show ?thesis by simp
  qed
  then show "pending_if b P s x own t'"
    using p undisturbedD[OF undisturbed_owns _ r] by (auto simp: pending_if_def)
qed

lemma owned_conforms:
  assumes "conforming V P a (knows P s x) m (\<lambda>_. knows P s x)"
  shows "conforming V P a (pending_if b P s x) m (\<lambda>_ own. sound_tables P)"
    "conforming V P a (owns P s x) m (\<lambda>_ own. sound_tables P)"
  by (rule overlap.conforms_weaken[OF assms]; auto simp: pending_if_def owns_def knows_def)+

text \<open>A known saga as it is read.\<close>

lemma known_row:
  assumes "knows P s x own t" "sagas t s = Some r"
  shows "stands_for (saga_of_row s r) s x" "saga_state (saga_of_row s r) = PENDING \<Longrightarrow>
    transfers (ledger_of t) s = Some (x\<lparr>tr_state := PENDING\<rparr>)"
proof -
  show "stands_for (saga_of_row s r) s x" using row_stands_for[OF knows_carries[OF assms(1)] assms(2)] .
  obtain st where st: "transfers (ledger_of t) s = Some (x\<lparr>tr_state := st\<rparr>)" using assms(1) by (auto simp: knows_def)
  then have "transfer_of_row r = x\<lparr>tr_state := st\<rparr>" using assms(2) by (simp add: ledger_of_simps)
  then have "st = srow_state r" by (metis transfer.select_convs(4) transfer.surjective transfer.update_convs(4) transfer_of_row_def)
  then show "saga_state (saga_of_row s r) = PENDING \<Longrightarrow> transfers (ledger_of t) s = Some (x\<lparr>tr_state := PENDING\<rparr>)"
    using st by (simp add: saga_of_row_def)
qed

lemma settle_conforms:
  assumes P: "decimal_column P" "s \<noteq> []" and cur: "stands_for cur s x" and a: "\<And>t t'. inflow a t t' = 0"
  shows "conforming V P a (pending_if (saga_state cur = PENDING) P s x) (settle_task P C cur e) (\<lambda>_ own. sound_tables P)"
proof -
  have f: "saga_id cur = s" "fromWalletId cur = tr_from x" "saga_amount cur = amount_of (tr_cents x)"
    using cur by (simp_all add: stands_for_def)
  have fail: "conforming V P a (pending_if True P s x) (atomically (mark_failed P cur e)) (\<lambda>_ own. sound_tables P)"
    if st: "saga_state cur = PENDING"
  proof (rule overlap.conforms_atomically[OF undisturbed_pending])
    fix own and w :: world and r w' assume p: "pending_if True P s x own (db w)" and run: "mark_failed P cur e w = (r, w')"
    have k: "knows P s x own (db w)" using p by (simp add: pending_if_def owns_def)
    have "carries P (db w) s x (db w')"
      using give_up_carries[OF P cur st knows_carries[OF k], of "error_message e"] p run knows_carries[OF k]
      unfolding mark_failed_def mark_failed_run pending_if_def
      by (auto simp: await_def ret_def split: prod.splits outcome.splits)
    from guarantee_carries[OF k this a] show "\<exists>own'. guarantee P a own (db w) own' (db w') \<and> sound_tables P (db w')"
      by (auto simp: knows_def)
  qed
  have sound: "pending_if b P s x own t \<Longrightarrow> sound_tables P t" for b own t
    by (simp add: pending_if_def owns_def knows_def)
  show ?thesis
    unfolding settle_task_def f
    using owned_conforms(1)[OF compensate_conforms[OF P a]] fail
    by (cases "saga_state cur") (auto intro!: overlap.conforms_resolved sound)
qed

lemma handle_failure_conforms:
  assumes P: "decimal_column P" "s \<noteq> []" and saga: "stands_for saga s x" and a: "\<And>t t'. inflow a t t' = 0"
  shows "conforming V P a (owns P s x) (handle_failure_task P C saga e) (\<lambda>_ own. sound_tables P)"
proof -
  have sid: "saga_id saga = s" using saga by (simp add: stands_for_def)
  let ?M = "\<lambda>r own t. sound_tables P t \<and> (\<forall>cur. r = Ok (Some cur) \<longrightarrow>
     stands_for cur s x \<and> pending_if (saga_state cur = PENDING) P s x own t)"
  have find: "conforming V P a (owns P s x) (atomically (saga_findById s)) ?M"
  proof (rule overlap.conforms_silent[OF undisturbed_owns tables_saga_findById])
    fix own and w :: world and r w' assume o: "owns P s x own (db w)" and run: "saga_findById s w = (r, w')"
    have k: "knows P s x own (db w)" using o by (simp add: owns_def)
    have "\<forall>z. r = Ok z \<longrightarrow> z = map_option (saga_of_row s) (sagas (db w) s)"
      using outcomesD[OF saga_findById_outcomes[where J = "\<lambda>t. t = db w"] refl run] by auto
    then have "\<exists>row. sagas (db w) s = Some row \<and> cur = saga_of_row s row" if "r = Ok (Some cur)" for cur
      using that by (metis map_option_eq_Some)
    then show "?M r own (db w)"
      using o k known_row[OF k] unfolding pending_if_def knows_def by metis
  qed
  have branch: "conforming V P a (?M (Ok z)) (case z of
      None \<Rightarrow> rejected (PlainError (''Saga '' @ s @ '' not found during error handling''))
    | Some cur \<Rightarrow> and_then (settle_task P C cur e) (\<lambda>_. rejected e)) (\<lambda>_ own. sound_tables P)" for z
  proof (cases z)
    case (Some cur)
    have "conforming V P a (\<lambda>own t. stands_for cur s x \<and> pending_if (saga_state cur = PENDING) P s x own t)
       (and_then (settle_task P C cur e) (\<lambda>_. rejected e)) (\<lambda>_ own. sound_tables P)"
    proof (cases "stands_for cur s x")
      case True
      then show ?thesis
        using overlap.conforms_and_then[OF settle_conforms[OF P True a] overlap.conforms_rejected] by simp
    qed (simp add: conforms_def)
    then show ?thesis unfolding Some by (auto elim: overlap.conforms_weaken)
  qed (auto intro: overlap.conforms_rejected)
  show ?thesis
    unfolding handle_failure_task_def sid
    by (rule overlap.conforms_and_then[OF find branch]) simp_all
qed

lemma owned_stays:
  assumes "conforming V P a (knows P s x) m (\<lambda>_. knows P s x)"
  shows "conforming V P a (owns P s x) m (\<lambda>_. owns P s x)"
proof -
  have "owns P s x = (\<lambda>own t. knows P s x own t \<and> s \<in> own)" by (simp add: owns_def fun_eq_iff)
  then show ?thesis
    using overlap.conforms_upward[OF assms, of "\<lambda>own. s \<in> own"] by (simp add: guarantee_def subset_iff)
qed

text \<open>The key is saved outside of every transaction; it touches no saga.\<close>

lemma save_key_conforms:
  assumes a: "\<And>t t'. inflow a t t' = 0"
  shows "conforming V P a (owns P s x) (atomically (run_if b (idempotency_save k False))) (\<lambda>_. owns P s x)"
proof (rule owned_stays, rule overlap.conforms_atomically[OF undisturbed_knows])
  fix own and w :: world and r w'
  assume k: "knows P s x own (db w)" and run: "run_if b (idempotency_save k False) w = (r, w')"
  have "outcomes (\<lambda>v. carries P (db w) s x (db v)) (run_if b (idempotency_save k False)) (\<lambda>_ v. carries P (db w) s x (db v))"
    by (rule outcomes_run_if[OF idempotency_save_outcomes]) (auto intro: carries_keys)
  then have "carries P (db w) s x (db w')" using knows_carries[OF k] run by (rule outcomesD)
  from guarantee_carries[OF k this a] show "\<exists>own'. guarantee P a own (db w) own' (db w') \<and> knows P s x own' (db w')" by blast
qed

lemma run_saga_conforms:
  assumes P: "decimal_column P" "s \<noteq> []" and saga: "stands_for saga s x" and a: "\<And>t t'. inflow a t t' = 0"
  shows "conforming V P a (owns P s x) (run_saga_task P C saga f g k rid) (\<lambda>_. owns P s x)"
  unfolding run_saga_task_def Let_def
  by (rule overlap.conforms_and_then[OF owned_stays[OF debit_conforms[OF assms]]
        overlap.conforms_and_then[OF owned_stays[OF credit_conforms[OF assms]]
        overlap.conforms_and_then[OF save_key_conforms[OF a] overlap.conforms_resolved]]])

text \<open>A started transfer, from the tables in which its saga was created.\<close>

lemma started_conforms:
  assumes P: "decimal_column P" "s \<noteq> []" and saga: "stands_for saga s x" and a: "\<And>t t'. inflow a t t' = 0"
  shows "conforming V P a (owns P s x) (or_catch (run_saga_task P C saga f g k rid) (handle_failure_task P C saga))
    (\<lambda>_ own. sound_tables P)"
proof -
  have "owns P s x own t \<Longrightarrow> sound_tables P t" for own t by (simp add: owns_def knows_def)
  then show ?thesis
    by (intro overlap.conforms_or_catch[OF run_saga_conforms[OF assms] handle_failure_conforms[OF assms]])
qed

text \<open>Creating the saga makes the transfer its owner.\<close>

definition created_saga :: "platform \<Rightarrow> transfer_saga \<Rightarrow> transfer \<Rightarrow> string set \<Rightarrow> tables \<Rightarrow> bool" where
  "created_saga P saga x own t \<longleftrightarrow> stands_for saga (saga_id saga) x \<and> saga_id saga \<noteq> [] \<and> owns P (saga_id saga) x own t"

lemma progress_more:
  "(\<And>s x. transfers (ledger_of t) s = Some x \<Longrightarrow> transfers (ledger_of t') s = Some x) \<Longrightarrow> progress kept t t'"
proof (rule progressI)
  fix s x assume "\<And>s x. transfers (ledger_of t) s = Some x \<Longrightarrow> transfers (ledger_of t') s = Some x"
    "transfers (ledger_of t) s = Some x"
  then have "transfers (ledger_of t') s = Some (x\<lparr>tr_state := tr_state x\<rparr>)" by simp
  then show "\<exists>st. transfers (ledger_of t') s = Some (x\<lparr>tr_state := st\<rparr>) \<and> saga_moves\<^sup>*\<^sup>* (tr_state x) st \<and>
      (s \<in> kept \<and> tr_state x = PENDING \<longrightarrow> st = PENDING)" by blast
qed

lemma create_conforms:
  assumes P: "decimal_column P" "distinct_uuids P" and k: "0 < k" "k \<le> 10 ^ 15 - 10" and a: "\<And>t t'. inflow a t t' = 0"
  shows "conforming V P a (\<lambda>own. sound_tables P) (atomically (createSaga P f g (amount_of k) cur rid))
    (\<lambda>r own t. sound_tables P t \<and> (\<forall>saga. r = Ok saga \<longrightarrow> created_saga P saga (new_transfer f g k) own t))"
proof (rule overlap.conforms_atomically[OF undisturbed_sound])
  fix own and w :: world and r :: "(error, transfer_saga) outcome" and w'
  let ?Q = "\<lambda>own t. sound_tables P t \<and> (\<forall>saga. r = Ok saga \<longrightarrow> created_saga P saga (new_transfer f g k) own t)"
  assume t: "sound_tables P (db w)" and run: "createSaga P f g (amount_of k) cur rid w = (r, w')"
  from outcomesD[OF createSaga_outcomes refl run]
  show "\<exists>own'. guarantee P a own (db w) own' (db w') \<and> ?Q own' (db w')"
  proof (elim disjE conjE exE)
    assume "db w' = db w" "\<forall>s. r \<noteq> Ok s"
    then show ?thesis using t by (auto intro: guarantee_same)
  next
    fix saga t1 es now assume c: "created P f g (amount_of k) (db w) saga t1" "db w' = insert_outbox P es now t1"
      "\<forall>b. r = Ok b \<longrightarrow> b = saga"
    let ?s = "saga_id saga" and ?x = "new_transfer f g k"
    note new = created_ledger[OF P t k c(1)]
    have ledger: "transfers (ledger_of (db w')) = (transfers (ledger_of (db w)))(?s \<mapsto> ?x)"
      using new(6) by (simp add: c(2) ledger_of_outbox)
    have sound: "sound_tables P (db w')" using new(1) by (simp add: c(2) sound_tables_outbox)
    have "follows P (db w) (db w')"
      unfolding c(2) by (rule follows_outbox) (use new run_step[OF run_refl new(2)] in \<open>simp add: follows_def\<close>)
    then have acc: "accounted P a (db w) (db w')" using grows_follows[OF t] by (simp add: accounted_def a)
    have "?s \<in> dom (sagas (db w')) - dom (sagas (db w))"
      using new(3) fun_cong[OF ledger, of ?s] by (auto simp: ledger_of_simps)
    moreover have "progress (- own) (db w) (db w')"
      by (rule progress_more) (use new(3) in \<open>auto simp: ledger\<close>)
    ultimately have "guarantee P a own (db w) (insert ?s own) (db w')" using acc by (auto simp: guarantee_def)
    moreover have "transfers (ledger_of (db w')) ?s = Some (?x\<lparr>tr_state := PENDING\<rparr>)"
      by (simp add: ledger new_transfer_def)
    then have "owns P ?s ?x (insert ?s own) (db w')" using sound by (auto simp: owns_def knows_def)
    ultimately show ?thesis using sound c(3) new(5,7) by (auto simp: created_saga_def)
  qed
qed

lemma open_conforms:
  assumes a: "\<And>t t'. inflow a t t' = 0"
  shows "safe V P a (atomically (getOrCreate P g cur False))"
  unfolding safe_def
proof (rule overlap.conforms_atomically[OF undisturbed_sound])
  fix own and w :: world and r :: "(error, wallet) outcome" and w'
  assume t: "sound_tables P (db w)" and run: "getOrCreate P g cur False w = (r, w')"
  from outcomesD[OF getOrCreate_outcomes refl run]
  show "\<exists>own'. guarantee P a own (db w) own' (db w') \<and> sound_tables P (db w')"
  proof (elim disjE conjE exE)
    fix v assume o: "opened P g cur (db w) v (db w')"
    note led = opened_ledger[OF o t]
    have "follows P (db w) (db w')" using led by (simp add: follows_def)
    then have "accounted P a (db w) (db w')" using grows_follows[OF t] by (simp add: accounted_def a)
    then show ?thesis
      using led(1,3) by (auto simp: guarantee_def intro!: exI[of _ own] progress_more)
  qed (use t in \<open>auto intro: guarantee_same\<close>)
qed

lemma transfer_safe:
  assumes P: "decimal_column P" "distinct_uuids P" and k: "0 < k" "k \<le> 10 ^ 15 - 10" and a: "\<And>t t'. inflow a t t' = 0"
  shows "safe V P a (executeTransfer_task P C f g (amount_of k) rid)"
proof -
  have begun: "safe V P a (and_then (atomically (createSaga P f g (amount_of k) cur rid)) (\<lambda>saga.
      or_catch (run_saga_task P C saga f g (amount_of k) rid) (handle_failure_task P C saga)))" for cur
    unfolding safe_def
  proof (rule overlap.conforms_and_then[OF create_conforms[OF P k a]])
    fix saga
    let ?m = "or_catch (run_saga_task P C saga f g (amount_of k) rid) (handle_failure_task P C saga)"
    have "conforming V P a (created_saga P saga (new_transfer f g k)) ?m (\<lambda>_ own. sound_tables P)"
    proof (cases "saga_id saga \<noteq> [] \<and> stands_for saga (saga_id saga) (new_transfer f g k)")
      case True
      then show ?thesis
        by (intro overlap.conforms_weaken[OF started_conforms[OF P(1) conjunct1[OF True] conjunct2[OF True] a]])
           (simp_all add: created_saga_def)
    qed (auto simp: conforms_def created_saga_def)
    then show "conforming V P a (\<lambda>own t. sound_tables P t \<and>
        (\<forall>s. Ok saga = Ok s \<longrightarrow> created_saga P s (new_transfer f g k) own t)) ?m (\<lambda>_ own. sound_tables P)"
      by (rule overlap.conforms_weaken) simp_all
  qed simp_all
  have "safe V P a (start_transfer_task P C f g (amount_of k) rid)"
    unfolding start_transfer_task_def
    by (auto intro!: safe_and_then safe_option safe_silent begun open_conforms a tables_findById)
  then show ?thesis
    unfolding executeTransfer_task_def by (intro safe_and_then safe_option safe_silent) (simp_all only: tables_existing safe_resolved)
qed

section \<open>The recovery worker\<close>

lemma recovery_safe:
  assumes P: "decimal_column P" "distinct_uuids P" and a: "\<And>t t'. inflow a t t' = 0"
  shows "safe V P a (recoverSaga_task P C s)"
proof -
  let ?M = "\<lambda>r own t. sound_tables P t \<and> (\<forall>saga. r = Ok (Some saga) \<longrightarrow> saga_state saga = DEBITED \<longrightarrow>
     (\<exists>x. s \<noteq> [] \<and> stands_for saga s x \<and> knows P s x own t))"
  have find: "conforming V P a (\<lambda>own. sound_tables P) (atomically (saga_findById s)) ?M"
  proof (rule overlap.conforms_silent[OF undisturbed_sound tables_saga_findById])
    fix own and w :: world and r :: "(error, transfer_saga option) outcome" and w'
    assume t: "sound_tables P (db w)" and run: "saga_findById s w = (r, w')"
    have z: "\<forall>z. r = Ok z \<longrightarrow> z = map_option (saga_of_row s) (sagas (db w) s)"
      using outcomesD[OF saga_findById_outcomes[where J = "\<lambda>t. t = db w"] refl run] by auto
    have "\<exists>x. s \<noteq> [] \<and> stands_for saga s x \<and> knows P s x own (db w)"
      if "r = Ok (Some saga)" and st: "saga_state saga = DEBITED" for saga
    proof -
      obtain row where row: "sagas (db w) s = Some row" "saga = saga_of_row s row" using z \<open>r = Ok (Some saga)\<close> by (metis map_option_eq_Some)
      let ?x = "transfer_of_row row"
      have "s \<noteq> []" using t row(1) P(2) unfolding sound_tables_def distinct_uuids_def by metis
      moreover have "transfers (ledger_of (db w)) s = Some (?x\<lparr>tr_state := DEBITED\<rparr>)"
        using row st by (simp add: ledger_of_simps transfer_of_row_def saga_of_row_def)
      then have "knows P s ?x own (db w)" using t unfolding knows_def by blast
      ultimately show ?thesis using known_row(1)[OF _ row(1)] row(2) by blast
    qed
    then show "?M r own (db w)" using t by blast
  qed
  have branch: "conforming V P a (?M (Ok z)) (case z of None \<Rightarrow> resolved () | Some saga \<Rightarrow>
      if saga_state saga = DEBITED
      then or_catch (credit_task P C saga True) (\<lambda>e. compensate_task P C (saga_id saga) (fromWalletId saga) (saga_amount saga)
             (''Recovery failed: '' @ error_message e))
      else resolved ()) (\<lambda>_ own. sound_tables P)" for z
  proof (cases "\<exists>saga. z = Some saga \<and> saga_state saga = DEBITED")
    case True
    then obtain saga where z: "z = Some saga" "saga_state saga = DEBITED" by blast
    let ?m = "or_catch (credit_task P C saga True) (\<lambda>e. compensate_task P C (saga_id saga) (fromWalletId saga) (saga_amount saga)
             (''Recovery failed: '' @ error_message e))"
    have "conforming V P a (\<lambda>own t. s \<noteq> [] \<and> stands_for saga s x \<and> knows P s x own t) ?m (\<lambda>_ own. sound_tables P)" for x
    proof (cases "s \<noteq> [] \<and> stands_for saga s x")
      case True
      then have f: "saga_id saga = s" "fromWalletId saga = tr_from x" "saga_amount saga = amount_of (tr_cents x)"
        by (simp_all add: stands_for_def)
      have "conforming V P a (knows P s x) ?m (\<lambda>_. knows P s x)"
        unfolding f by (rule overlap.conforms_or_catch[OF credit_conforms[OF P(1) _ _ a] compensate_conforms[OF P(1) _ a]]) (use True in auto)
      then show ?thesis by (rule overlap.conforms_weaken) (simp_all add: knows_def)
    qed (auto simp: conforms_def)
    then have known: "conforming V P a (\<lambda>own t. \<exists>x. s \<noteq> [] \<and> stands_for saga s x \<and> knows P s x own t) ?m (\<lambda>_ own. sound_tables P)"
      by (rule conforming_by_value)
    have "conforming V P a (?M (Ok z)) ?m (\<lambda>_ own. sound_tables P)"
      by (rule overlap.conforms_weaken[OF known]) (use z in auto)
    then show ?thesis by (simp add: z del: split_paired_All)
  qed (auto intro: overlap.conforms_resolved split: option.split)
  show ?thesis
    unfolding recoverSaga_task_def safe_def by (rule overlap.conforms_and_then[OF find branch]) simp_all
qed

lemma worker_safe:
  assumes "decimal_column P" "distinct_uuids P" "\<And>t t'. inflow a t t' = 0"
  shows "safe V P a (recoverStuckSagas_task P C nodeEnv)"
proof -
  have flag: "obeys same_tables begin_recovery" "obeys same_tables (set_recovering False)"
    by (auto simp: begin_recovery_def set_recovering_def obeys_def same_tables_def await_def get_state_def modify_def ret_def)
  have find: "obeys same_tables (find_stuck P C)"
    unfolding find_stuck_def by (intro tables_contract.obeys_control tables_saga_find)
  have one: "safe V P a (or_catch (recoverSaga_task P C s) (\<lambda>_. resolved ()))" for s
    unfolding safe_def by (rule overlap.conforms_or_catch[OF recovery_safe[OF assms, unfolded safe_def]]) (auto intro: overlap.conforms_resolved)
  have body: "safe V P a (recovery_body_task P C)"
    unfolding recovery_body_task_def
    by (intro safe_and_then safe_silent find) (unfold safe_def, rule overlap.conforms_each[OF one[unfolded safe_def]])
  have "safe V P a (or_catch (recovery_body_task P C) (\<lambda>_. resolved ()))"
    unfolding safe_def by (rule overlap.conforms_or_catch[OF body[unfolded safe_def]]) (auto intro: overlap.conforms_resolved)
  then have "safe V P a (processStuckSagas_task P C)"
    unfolding processStuckSagas_task_def by (auto intro!: safe_and_then safe_silent flag)
  then show ?thesis by (simp add: recoverStuckSagas_task_def)
qed

end
