(* ===== verification/OverlappingRuns.thy ===== *)
theory OverlappingRuns imports OverlappingTransfers
begin

text \<open>
  Runs of overlapping activities. Any number of requests, administrative calls, jobs and messages are
  under way, on one instance of the service or several; at every step one of them runs its next
  segment, so that their segments interleave in every possible way. A task can vanish at any moment:
  its process died. In every such run, under every script of the environment, money is conserved, the
  event log accounts for every balance and every saga keeps to its state machine.

  Transactions are serialised here: each is one segment. \<open>LostIsolation\<close> shows what happens when two
  transactions of one saga are not.
\<close>

section \<open>Runs of overlapping activities\<close>

text \<open>The tasks under way, by a number of their own.\<close>

type_synonym pool = "nat \<Rightarrow> (activity \<times> unit task) option"

inductive overlapping_run ::
  "validators \<Rightarrow> platform \<Rightarrow> app_config \<Rightarrow> world \<Rightarrow> int \<Rightarrow> pool \<Rightarrow> world \<Rightarrow> bool"
  for V :: validators and P :: platform and C :: app_config where
  start: "overlapping_run V P C w 0 Map.empty w"
| environment: "overlapping_run V P C w n ts w1 \<Longrightarrow> db w2 = db w1 \<Longrightarrow> overlapping_run V P C w n ts w2"
| arrival: "overlapping_run V P C w n ts w1 \<Longrightarrow> ts k = None \<Longrightarrow>
    overlapping_run V P C w n (ts(k \<mapsto> (a, task_of V P C a))) w1"
| segment: "overlapping_run V P C w n ts w1 \<Longrightarrow> ts k = Some (a, Segment f) \<Longrightarrow> in_cents V (db w1) a \<Longrightarrow>
    f w1 = (m, w2) \<Longrightarrow> overlapping_run V P C w (n + inflow a (db w1) (db w2)) (ts(k \<mapsto> (a, m))) w2"
| death: "overlapping_run V P C w n ts w1 \<Longrightarrow> overlapping_run V P C w n (ts(k := None)) w1"

section \<open>Every activity conforms\<close>

text \<open>An activity whose amounts are never in cents has nothing to guarantee.\<close>

lemma safe_vacuous: "(\<And>t. \<not> in_cents V t a) \<Longrightarrow> safe V P a m"
  unfolding safe_def conforms_def by (cases m) simp_all

lemma amount_field: "whole_cents body \<Longrightarrow> number_field (property body ''amount'') = amount_of (cents_in body)"
  by (simp add: whole_cents_def)

lemma silent_safe:
  assumes "\<And>t. sound_tables P t \<Longrightarrow> outcomes (\<lambda>w. db w = t) m (\<lambda>r w. sagas (db w) = sagas t)"
    and "\<And>t. sound_tables P t \<Longrightarrow> in_cents V t a \<Longrightarrow> outcomes (\<lambda>w. db w = t) m (\<lambda>r w. accounted P a t (db w))"
  shows "safe V P a (atomically m)"
  unfolding safe_def
proof (rule overlap.conforms_atomically[OF undisturbed_sound])
  fix own and w :: world and r w' assume t: "sound_tables P (db w)" "in_cents V (db w) a" and run: "m w = (r, w')"
  have "accounted P a (db w) (db w')" "sagas (db w') = sagas (db w)"
    using outcomesD[OF assms(1)[OF t(1)] refl run] outcomesD[OF assms(2)[OF t] refl run] by simp_all
  then show "\<exists>own'. guarantee P a own (db w) own' (db w') \<and> sound_tables P (db w')"
    using guarantee_wallets by blast
qed

lemma same_books_sagas: "obeys same_books m \<Longrightarrow> outcomes (\<lambda>w. db w = t) m (\<lambda>r w. sagas (db w) = sagas t)"
  by (rule outcomesI) (auto simp: same_books_def dest: obeysD)

lemma served_sagas:
  "outcomes (\<lambda>w. db w = t) (serve V P C (GetBalance i)) (\<lambda>r w. sagas (db w) = sagas t)"
  "outcomes (\<lambda>w. db w = t) (serve V P C (GetHistory i n k)) (\<lambda>r w. sagas (db w) = sagas t)"
  "outcomes (\<lambda>w. db w = t) (serve V P C RelayJob) (\<lambda>r w. sagas (db w) = sagas t)"
  "outcomes (\<lambda>w. db w = t) (serve V P C (FraudMessage msg)) (\<lambda>r w. sagas (db w) = sagas t)"
proof -
  show "outcomes (\<lambda>w. db w = t) (serve V P C (GetBalance i)) (\<lambda>r w. sagas (db w) = sagas t)"
    using respond_silently[OF same_books_sagas[OF books_queries(1)]] by (simp add: get_balance_def)
  show "outcomes (\<lambda>w. db w = t) (serve V P C (GetHistory i n k)) (\<lambda>r w. sagas (db w) = sagas t)"
    using silently_outcomes[OF same_books_sagas[OF books_queries(2)]] by (simp add: get_history_def)
  show "outcomes (\<lambda>w. db w = t) (serve V P C RelayJob) (\<lambda>r w. sagas (db w) = sagas t)"
    unfolding serve.simps by (rule outcomes_weaken[OF handleCron_outcomes]) (auto simp: relayed_def set_published_def)
  show "outcomes (\<lambda>w. db w = t) (serve V P C (FraudMessage msg)) (\<lambda>r w. sagas (db w) = sagas t)"
    unfolding serve.simps by (rule same_books_sagas[OF books_message])
qed

lemma task_safe:
  assumes P: "decimal_column P" "distinct_uuids P"
  shows "safe V P a (task_of V P C a)"
proof (cases a)
  case (PostDeposit i body rid)
  show ?thesis
  proof (cases "DepositDto V body \<and> whole_cents body")
    case True
    then show ?thesis
      using safe_respond[OF safe_deposit[OF P(1)]] unfolding PostDeposit by (simp add: amount_field)
  qed (auto simp: PostDeposit intro: safe_vacuous)
next
  case (PostWithdraw i body rid)
  show ?thesis
  proof (cases "WithdrawDto V body \<and> whole_cents body")
    case True
    then show ?thesis
      using safe_respond[OF safe_withdraw[OF P(1)]] unfolding PostWithdraw by (simp add: amount_field)
  qed (auto simp: PostWithdraw intro: safe_vacuous)
next
  case (PostTransfer i body rid)
  show ?thesis
  proof (cases "TransferDto V body \<and> whole_cents body")
    case True
    then have k: "0 < cents_in body" "cents_in body \<le> 10 ^ 15 - 10" by (simp_all add: whole_cents_def)
    show ?thesis
      using safe_respond[OF transfer_safe[OF P k, of a]] True unfolding PostTransfer by (simp add: amount_field)
  qed (auto simp: PostTransfer intro: safe_vacuous)
next
  case (GetBalance i)
  show ?thesis
    unfolding GetBalance task_of.simps by (rule silent_safe[OF served_sagas(1) serve_accounted[OF P]])
next
  case (GetHistory i n k)
  show ?thesis
    unfolding GetHistory task_of.simps by (rule silent_safe[OF served_sagas(2) serve_accounted[OF P]])
next
  case RelayJob
  show ?thesis
    unfolding RelayJob task_of.simps by (rule silent_safe[OF served_sagas(3) serve_accounted[OF P]])
next
  case (FraudMessage msg)
  show ?thesis
    unfolding FraudMessage task_of.simps by (rule silent_safe[OF served_sagas(4) serve_accounted[OF P]])
next
  case (RecoveryJob nodeEnv)
  then show ?thesis using worker_safe[OF P, of a] by simp
qed (use safe_status[OF P(1)] in simp_all)

section \<open>The invariant of a run\<close>

text \<open>Every task of the pool keeps to its contract; what they own is there, and owned once.\<close>

definition kept_by :: "validators \<Rightarrow> platform \<Rightarrow> pool \<Rightarrow> (nat \<Rightarrow> string set) \<Rightarrow> tables \<Rightarrow> bool" where
  "kept_by V P ts own t \<longleftrightarrow> (\<forall>j k. j \<noteq> k \<longrightarrow> ts j \<noteq> None \<longrightarrow> ts k \<noteq> None \<longrightarrow> own j \<inter> own k = {}) \<and>
     (\<forall>k a m. ts k = Some (a, m) \<longrightarrow> own k \<subseteq> dom (sagas t) \<and>
        abides (relying P) (\<lambda>t. in_cents V t a) (guarantee P a) m (own k) t (\<lambda>_ own. sound_tables P))"

lemma kept_by_start: "kept_by V P Map.empty own t"
  by (simp add: kept_by_def)

lemma kept_by_death: "kept_by V P ts own t \<Longrightarrow> kept_by V P (ts(k := None)) own t"
  by (auto simp: kept_by_def)

lemma kept_by_arrival:
  assumes "kept_by V P ts own t" "decimal_column P" "distinct_uuids P" "sound_tables P t"
  shows "kept_by V P (ts(k \<mapsto> (a, task_of V P C a))) (own(k := {})) t"
  using assms(1) task_safe[OF assms(2,3), of V a C] assms(4)
  by (auto simp: kept_by_def safe_def conforms_def)

lemma progress_dom: "progress kept t t' \<Longrightarrow> dom (sagas t) \<subseteq> dom (sagas t')"
proof
  fix s assume p: "progress kept t t'" and "s \<in> dom (sagas t)"
  then obtain r where "transfers (ledger_of t) s = Some (transfer_of_row r)" by (auto simp: ledger_of_simps)
  then obtain st where "transfers (ledger_of t') s = Some ((transfer_of_row r)\<lparr>tr_state := st\<rparr>)"
    using p by (elim progressE)
  then show "s \<in> dom (sagas t')" by (auto simp: ledger_of_simps)
qed

lemma kept_byD:
  assumes "kept_by V P ts own t"
  shows "j \<noteq> k \<Longrightarrow> ts j \<noteq> None \<Longrightarrow> ts k \<noteq> None \<Longrightarrow> own j \<inter> own k = {}"
    "ts k = Some (a, m) \<Longrightarrow> own k \<subseteq> dom (sagas t)"
    "ts k = Some (a, m) \<Longrightarrow> abides (relying P) (\<lambda>t. in_cents V t a) (guarantee P a) m (own k) t (\<lambda>_ own. sound_tables P)"
  using assms unfolding kept_by_def by blast+

lemma kept_by_segment:
  assumes ts: "kept_by V P ts own t" "ts k = Some (a, Segment f)" and t: "sound_tables P t" "in_cents V t a"
    and run: "db w = t" "f w = (m, w')"
  shows "\<exists>own'. accounted P a t (db w') \<and> progress {} t (db w') \<and> kept_by V P (ts(k \<mapsto> (a, m))) own' (db w')"
proof -
  note c = kept_byD(3)[OF ts]
  have "relying P (own k) t (db w)" "in_cents V (db w) a" using t run(1) by (simp_all add: relying_def progress_same)
  from c[unfolded abides_Segment, rule_format, OF this run(2)]
  obtain mine where g: "guarantee P a (own k) t mine (db w')"
      and m: "abides (relying P) (\<lambda>t. in_cents V t a) (guarantee P a) m mine (db w') (\<lambda>_ own. sound_tables P)"
    unfolding run(1) by blast
  have acc: "accounted P a t (db w')" and p: "progress (- own k) t (db w')"
    and mine: "mine \<subseteq> own k \<union> (dom (sagas (db w')) - dom (sagas t))"
    using g by (simp_all add: guarantee_def)
  have sound: "sound_tables P (db w')" using acc by (simp add: accounted_def grows_def)
  have grown: "dom (sagas t) \<subseteq> dom (sagas (db w'))" using progress_dom[OF p] .
  have theirs: "own j \<inter> own k = {}" "own j \<subseteq> dom (sagas t)" "own j \<inter> mine = {}" if "ts j = Some bn" "j \<noteq> k" for j bn
  proof -
    show "own j \<inter> own k = {}" using kept_byD(1)[OF ts(1) that(2)] that(1) ts(2) by simp
    moreover show "own j \<subseteq> dom (sagas t)" using kept_byD(2)[OF ts(1), of j "fst bn" "snd bn"] that(1) by simp
    ultimately show "own j \<inter> mine = {}" using mine by blast
  qed
  have others: "abides (relying P) (\<lambda>t. in_cents V t b) (guarantee P b) n (own j) (db w') (\<lambda>_ own. sound_tables P)"
    if j: "ts j = Some (b, n)" "j \<noteq> k" for j b n
  proof (rule overlap.abides_later[OF kept_byD(3)[OF ts(1) j(1)] _ undisturbed_sound])
    show "relying P (own j) t (db w')" using sound progress_mono[OF p, of "own j"] theirs(1)[OF j] by (auto simp: relying_def)
  qed
  have "kept_by V P (ts(k \<mapsto> (a, m))) (own(k := mine)) (db w')"
    unfolding kept_by_def
  proof (intro conjI allI impI)
    fix i j assume ij: "i \<noteq> j" "(ts(k \<mapsto> (a, m))) i \<noteq> None" "(ts(k \<mapsto> (a, m))) j \<noteq> None"
    show "(own(k := mine)) i \<inter> (own(k := mine)) j = {}"
    proof (cases "i = k \<or> j = k")
      case True
      then show ?thesis using ij theirs(3)[of i] theirs(3)[of j] by (auto split: if_splits)
    next
      case False
      then show ?thesis using kept_byD(1)[OF ts(1) ij(1)] ij by simp
    qed
  next
    fix j b n assume j: "(ts(k \<mapsto> (a, m))) j = Some (b, n)"
    show "(own(k := mine)) j \<subseteq> dom (sagas (db w'))"
    proof (cases "j = k")
      case True
      have "own k \<subseteq> dom (sagas t)" using kept_byD(2)[OF ts] .
      then have "mine \<subseteq> dom (sagas (db w'))" using mine grown by blast
      then show ?thesis using True by simp
    next
      case False
      then show ?thesis using j theirs(2)[of j "(b, n)"] grown by auto
    qed
    show "abides (relying P) (\<lambda>t. in_cents V t b) (guarantee P b) n ((own(k := mine)) j) (db w') (\<lambda>_ own. sound_tables P)"
    proof (cases "j = k")
      case False
      then show ?thesis using j others[of j b n] by simp
    qed (use j m in simp)
  qed
  then show ?thesis using acc progress_mono[OF p] by blast
qed

lemma overlapping_invariant:
  assumes "overlapping_run V P C w n ts w'" "decimal_column P" "distinct_uuids P" "sound_tables P (db w)"
  shows "grows P (db w) n (db w') \<and> progress {} (db w) (db w') \<and> (\<exists>own. kept_by V P ts own (db w'))"
  using assms
proof (induction rule: overlapping_run.induct)
  case (start w)
  then show ?case using kept_by_start by (auto simp: grows_refl progress_same)
next
  case (arrival w n ts w1 k a)
  then obtain own where i: "grows P (db w) n (db w1)" "progress {} (db w) (db w1)" "kept_by V P ts own (db w1)" by blast
  then have "sound_tables P (db w1)" by (simp add: grows_def)
  then show ?case using i kept_by_arrival[OF i(3) arrival.prems(1,2)] by blast
next
  case (segment w n ts w1 k a f m w2)
  then obtain own where i: "grows P (db w) n (db w1)" "progress {} (db w) (db w1)" "kept_by V P ts own (db w1)" by blast
  then have s: "sound_tables P (db w1)" by (simp add: grows_def)
  obtain own' where "accounted P a (db w1) (db w2)" "progress {} (db w1) (db w2)" "kept_by V P (ts(k \<mapsto> (a, m))) own' (db w2)"
    using kept_by_segment[OF i(3) segment.hyps(2) s segment.hyps(3) refl segment.hyps(4)] by blast
  then show ?case unfolding accounted_def using grows_trans[OF i(1)] progress_trans[OF i(2)] by blast
next
  case (death w n ts w1 k)
  then show ?case using kept_by_death by blast
qed auto

section \<open>The properties\<close>

text \<open>C1: However requests, administration, jobs and messages overlap, on one instance of the service or
  many, with failures and crashes anywhere, money is conserved: the balances and the money in flight
  add up to what they were, plus what was deposited, minus what was withdrawn, to the cent, and no
  balance is ever negative, as long as transactions are serialised.\<close>

theorem overlapping_runs_conserve_money:
  assumes "overlapping_run V P C w n ts w'" and "decimal_column P" and "distinct_uuids P" and "sound_tables P (db w)"
  shows "money (ledger_of (db w')) = money (ledger_of (db w)) + n \<and>
    (\<forall>i b. balance_cents (db w') i = Some b \<longrightarrow> 0 \<le> b)"
  using overlapping_invariant[OF assms] by (auto simp: grows_def sound_tables_def sound_ledger_def ledger_of_simps)

text \<open>C5: However activities overlap, the log of wallet events still accounts for every balance.\<close>

theorem overlapping_audit_trail:
  assumes "overlapping_run V P C w n ts w'" and "decimal_column P" and "distinct_uuids P" and "sound_tables P (db w)"
    and "\<forall>i. owned (db w) i = recorded i (walletEvents (db w))"
  shows "owned (db w') i = recorded i (walletEvents (db w'))"
  using overlapping_invariant[OF assms(1-4)] assms(5) by (simp add: grows_def unexplained_def fun_eq_iff)

text \<open>C3: As long as transactions are serialised (each takes effect in one step, and other activities come in between the
  transactions of one), however activities overlap, a transfer request with a recovery of its saga, two
  recoveries of one saga, or whatever else, a committed saga is never lost, keeps its parties and its amount, and
  moves only along the state machine: it is credited or refunded, never both. The database does not
  serialise the transactions of one saga when they lock different wallets: \<open>refund_races_credit\<close> in
  \<open>LostIsolation\<close> is a refund and a credit of one saga that interleave within their transactions, and then both
  are committed.\<close>

theorem overlapping_sagas_keep_state_machine:
  assumes "overlapping_run V P C w n ts w'" and "decimal_column P" and "distinct_uuids P" and "sound_tables P (db w)"
    and "sagas (db w) s = Some x"
  shows "\<exists>y. sagas (db w') s = Some y \<and> saga_moves\<^sup>*\<^sup>* (srow_state x) (srow_state y) \<and>
    srow_from y = srow_from x \<and> srow_to y = srow_to x \<and> cents (srow_amount y) = cents (srow_amount x)"
proof -
  have "progress {} (db w) (db w')" using overlapping_invariant[OF assms(1-4)] by blast
  moreover have "transfers (ledger_of (db w)) s = Some (transfer_of_row x)" using assms(5) by (simp add: ledger_of_simps)
  ultimately obtain st where st: "transfers (ledger_of (db w')) s = Some ((transfer_of_row x)\<lparr>tr_state := st\<rparr>)"
      "saga_moves\<^sup>*\<^sup>* (tr_state (transfer_of_row x)) st"
    by (rule progressE)
  then obtain y where "sagas (db w') s = Some y" "transfer_of_row y = (transfer_of_row x)\<lparr>tr_state := st\<rparr>"
    by (auto simp: ledger_of_simps)
  then show ?thesis using st(2) by (auto simp: transfer_of_row_def)
qed

section \<open>Two transfers at once\<close>

text \<open>A task that is not interrupted is a run, whatever else is under way.\<close>

lemma uninterrupted:
  assumes a: "\<And>t. in_cents V t a" "\<And>t t'. inflow a t t' = 0"
  shows "overlapping_run V P C w n ts w1 \<Longrightarrow> ts k = Some (a, m) \<Longrightarrow> run_alone m w1 = (r, w2) \<Longrightarrow>
    overlapping_run V P C w n (ts(k \<mapsto> (a, Finished r))) w2"
proof (induction m arbitrary: ts w1 rule: task_induct)
  case (Finished r')
  then show ?case by (simp add: fun_upd_idem)
next
  case (Segment f)
  obtain m w3 where f: "f w1 = (m, w3)" by fastforce
  then have "run_alone m w3 = (r, w2)" using Segment.prems(3) by simp
  moreover have "overlapping_run V P C w n (ts(k \<mapsto> (a, m))) w3"
    using overlapping_run.segment[OF Segment.prems(1,2) a(1) f] a(2) by simp
  ultimately have "overlapping_run V P C w n (ts(k \<mapsto> (a, m), k \<mapsto> (a, Finished r))) w2"
    using Segment.IH[OF f, of "ts(k \<mapsto> (a, m))" w3] by (simp only: fun_upd_same)
  then show ?case by (simp only: fun_upd_upd)
qed

lemma first_arrival: "overlapping_run V P C w 0 [k \<mapsto> (a, task_of V P C a)] w"
  by (rule overlapping_run.arrival[OF overlapping_run.start]) simp

definition pay_b :: json where
  "pay_b = JObj [(''toWalletId'', JStr ''b''), (''amount'', JNum (Fin 1))]"

abbreviation first_transfer :: activity where
  "first_transfer \<equiv> PostTransfer ''a'' pay_b (Some ''r'')"

abbreviation second_transfer :: activity where
  "second_transfer \<equiv> PostTransfer ''a'' pay_b None"

lemma pay_b_cents: "TransferDto class_validators pay_b" "property pay_b ''amount'' = JNum (amount_of 100)"
    "property pay_b ''toWalletId'' = JStr ''b''" "in_cents V t (PostTransfer i pay_b rid)"
proof -
  show "TransferDto class_validators pay_b" by (simp add: TransferDto_def class_validators_def pay_b_def)
  show p: "property pay_b ''amount'' = JNum (amount_of 100)"
    by (simp add: one_dollar_cents(4) pay_b_def)
  show "property pay_b ''toWalletId'' = JStr ''b''" by (simp add: pay_b_def)
  have "cents_in pay_b = 100" by (simp add: cents_in_def pay_b_def)
  then show "in_cents V t (PostTransfer i pay_b rid)" using p by (simp add: whole_cents_def)
qed

text \<open>The second transfer looks for its key (it has none), then the first runs as a whole.\<close>

lemma two_transfers:
  "\<exists>m w'. overlapping_run class_validators postgres default_config audited_world 0
      [0 \<mapsto> (second_transfer, m), 1 \<mapsto> (first_transfer, Finished (Ok ()))] w' \<and> m \<noteq> Finished (Ok ())"
proof -
  let ?R = "overlapping_run class_validators postgres default_config audited_world 0"
  let ?m = "silent_task (respond_task (start_transfer_task postgres default_config ''a'' ''b'' (amount_of 100) None))"
  have "task_of class_validators postgres default_config second_transfer =
      silent_task (respond_task (executeTransfer_task postgres default_config ''a'' ''b'' (amount_of 100) None))"
    using pay_b_cents by simp
  then obtain f where f: "task_of class_validators postgres default_config second_transfer = Segment f"
      "f audited_world = (?m, audited_world)"
    by (simp add: executeTransfer_task_def silent_task_def respond_task_def atomically_def given_def ret_def)
  have r1: "?R [0 \<mapsto> (second_transfer, Segment f)] audited_world"
    unfolding f(1)[symmetric] by (rule first_arrival)
  have "?R [0 \<mapsto> (second_transfer, ?m)] audited_world"
    using overlapping_run.segment[OF r1, where k = 0 and a = second_transfer and f = f] f(2) pay_b_cents(4) by simp
  then have r2: "?R [0 \<mapsto> (second_transfer, ?m), 1 \<mapsto> (first_transfer, task_of class_validators postgres default_config first_transfer)] audited_world"
    by (rule overlapping_run.arrival) simp
  have "wallets (db audited_world) ''b'' = Some (sample_row 0)" "stored_response (Some ''r'') (db audited_world) = None"
    by (simp_all add: audited_world_def new_world_def sample_tables_def stored_response_def empty_tables_def)
  then obtain s w' where run: "sample_call audited_world = (Ok (transfer_result s ''a'' ''b'' (amount_of 100)), w')"
    using executeTransfer_calm[of postgres audited_world default_config "Some ''r''" "''a''" "sample_row 1000" 100 "''b''" "sample_row 0"]
      audited_facts by (auto simp: default_config_def)
  have "run_alone (task_of class_validators postgres default_config first_transfer) audited_world = (Ok (), w')"
    using run pay_b_cents by (simp add: alone silently_def respond_def await_run try_catch_run ret_run)
  from uninterrupted[where a = first_transfer and k = 1, OF pay_b_cents(4) _ r2 _ this]
  have "?R [0 \<mapsto> (second_transfer, ?m), 1 \<mapsto> (first_transfer, Finished (Ok ()))] w'" by simp
  moreover have "?m \<noteq> Finished (Ok ())"
    by (simp add: start_transfer_task_def silent_task_def respond_task_def atomically_def)
  ultimately show ?thesis by blast
qed

theorem overlapping_runs_conserve_money_witness:
  "\<exists>m w'. overlapping_run class_validators postgres default_config audited_world 0
      [0 \<mapsto> (second_transfer, m), 1 \<mapsto> (first_transfer, Finished (Ok ()))] w' \<and> money (ledger_of (db w')) = 1000"
  using two_transfers overlapping_runs_conserve_money[of class_validators postgres default_config audited_world 0]
    audited_facts(2,3) by fastforce

theorem overlapping_audit_trail_witness:
  "\<exists>m w'. overlapping_run class_validators postgres default_config audited_world 0
      [0 \<mapsto> (second_transfer, m), 1 \<mapsto> (first_transfer, Finished (Ok ()))] w' \<and>
    owned (db w') ''a'' = recorded ''a'' (walletEvents (db w'))"
  using two_transfers overlapping_audit_trail[of class_validators postgres default_config audited_world 0]
    audited_facts(2,4) by fastforce

text \<open>Two recovery jobs that found the same saga.\<close>

theorem overlapping_sagas_keep_state_machine_witness:
  "\<exists>m r w' y. overlapping_run class_validators postgres default_config stuck_world 0
      [0 \<mapsto> (RecoveryJob ''a'', m), 1 \<mapsto> (RecoveryJob ''b'', Finished r)] w' \<and>
    sagas (db w') ''s'' = Some y \<and> saga_moves\<^sup>*\<^sup>* DEBITED (srow_state y) \<and> srow_to y = ''b''"
proof -
  let ?R = "overlapping_run class_validators postgres default_config stuck_world 0"
  let ?t = "\<lambda>e. (RecoveryJob e, task_of class_validators postgres default_config (RecoveryJob e))"
  have r1: "?R [0 \<mapsto> ?t ''a''] stuck_world"
    by (rule first_arrival)
  then have r2: "?R [0 \<mapsto> ?t ''a'', 1 \<mapsto> ?t ''b''] stuck_world" by (rule overlapping_run.arrival) simp
  obtain r w' where "run_alone (snd (?t ''b'')) stuck_world = (r, w')" by fastforce
  from uninterrupted[where a = "RecoveryJob ''b''" and k = 1, OF _ _ r2 _ this[unfolded snd_conv]]
  have "?R [0 \<mapsto> ?t ''a'', 1 \<mapsto> (RecoveryJob ''b'', Finished r)] w'" by simp
  then show ?thesis
    using overlapping_sagas_keep_state_machine[of class_validators postgres default_config stuck_world 0 _ w' "''s''" debited_row]
    by fastforce
qed

end
