(* ===== verification/AppendOnly.thy ===== *)
theory AppendOnly imports OverlappingRuns "HOL-Library.Sublist"
begin

text \<open>
  Nothing that has been committed is deleted. The comments of the event entity promise it of the log, the
  outbox needs it to lose no event, and idempotency lasts as long as the keys do. Every statement
  of the services keeps the rows there are (\<open>appending\<close>), therefore every transaction does,
  therefore every segment of every activity, and therefore every run, however its activities overlap
  and whatever fails. The runs are those of \<open>Overlap\<close>: transactions are serialised, and amounts are whole cents
  (which the statements here do not need).
\<close>

section \<open>Statements and transactions\<close>

text \<open>The rows of an outbox stay in place and only change to published.\<close>

definition outbox_kept :: "outbox_row list \<Rightarrow> outbox_row list \<Rightarrow> bool" where
  "outbox_kept xs ys \<longleftrightarrow> length xs \<le> length ys \<and> (\<forall>n < length xs.
     ys ! n = (xs ! n)\<lparr>published := published (ys ! n)\<rparr> \<and> (published (xs ! n) \<longrightarrow> published (ys ! n)))"

lemma outbox_kept_refl [simp]: "outbox_kept xs xs"
  by (simp add: outbox_kept_def)

lemma outbox_kept_trans: "outbox_kept xs ys \<Longrightarrow> outbox_kept ys zs \<Longrightarrow> outbox_kept xs zs"
  unfolding outbox_kept_def
  by (metis (no_types, lifting) less_le_trans order_trans outbox_row.surjective outbox_row.update_convs(6))

lemma outbox_kept_append: "outbox_kept xs ys \<Longrightarrow> outbox_kept xs (ys @ zs)"
  by (auto simp: outbox_kept_def nth_append)

definition appends :: "tables \<Rightarrow> tables \<Rightarrow> bool" where
  "appends t t' \<longleftrightarrow> prefix (walletEvents t) (walletEvents t') \<and> prefix (fraudAlerts t) (fraudAlerts t') \<and>
     dom (wallets t) \<subseteq> dom (wallets t') \<and> dom (sagas t) \<subseteq> dom (sagas t') \<and>
     dom (idempotencyKeys t) \<subseteq> dom (idempotencyKeys t') \<and> outbox_kept (outboxEvents t) (outboxEvents t')"

lemma appends_refl [simp]: "appends t t"
  by (simp add: appends_def)

lemma appends_trans: "appends t t1 \<Longrightarrow> appends t1 t2 \<Longrightarrow> appends t t2"
  unfolding appends_def by (meson outbox_kept_trans prefix_order.trans subset_trans)

lemma appends_insert_outbox: "appends t t' \<Longrightarrow> appends t (insert_outbox P es now t')"
  by (induction P es now t' rule: insert_outbox.induct) (simp_all add: appends_def outbox_kept_append)

lemma appends_set_published [simp]: "appends t (set_published ids t)"
  by (simp add: appends_def set_published_def outbox_kept_def)

definition appending :: "(int \<Rightarrow> tables \<Rightarrow> error + 'a \<times> tables) \<Rightarrow> bool" where
  "appending f \<longleftrightarrow> (\<forall>now t a t'. f now t = Inr (a, t') \<longrightarrow> appends t t')"

lemma appending_statements:
  "appending (find_wallet i)" "appending (save_wallet P v)" "appending (insert_wallet_on_conflict_do_nothing i cur)"
  "appending (count_events i)" "appending (insert_event P e)" "appending (find_saga s)" "appending (save_saga P y)"
  "appending (find_idempotency_key q)" "appending (save_idempotency_key k)" "appending (reading g)"
  by (auto simp: appending_def appends_def save_wallet_Inr insert_event_Inr insert_wallet_on_conflict_do_nothing_def
      save_saga_def find_idempotency_key_def save_idempotency_key_def reading_def check_Inr Let_def split: if_splits)

lemma appending_outbox: "appending (\<lambda>now t. Inr (b, insert_outbox P es now t))"
  by (simp add: appending_def appends_insert_outbox)

text \<open>Inside a transaction: the working copy starts with the log of the tables \<open>t\<close>.\<close>

definition copying :: "tables \<Rightarrow> world \<Rightarrow> world \<Rightarrow> bool" where
  "copying t = invariant_step (\<lambda>w. \<forall>t1. tx w = Some t1 \<longrightarrow> appends t t1)"

interpretation copy_contract: step_contract "copying t"
  unfolding copying_def by (rule invariant_contract.step_contract_axioms)

named_theorems copy_rules \<open>programs that keep the log of the working copy\<close>

lemma copying_sql:
  assumes "appending f"
  shows "obeys (copying t) (sql True f)"
proof -
  have f: "appends t t1 \<Longrightarrow> f now t1 = Inr (a, t2) \<Longrightarrow> appends t t2" for now t1 a t2
    using assms appends_trans[of t t1 t2] by (simp add: appending_def)
  have call: "copying t w (snd (in_tx f w))" for w
  proof (cases "tx w")
    case (Some t1)
    then show ?thesis
      using f[of t1 "clock w"] by (cases "f (clock w) t1") (auto simp: copying_def invariant_step_def in_tx_def)
  qed (auto simp: copying_def invariant_step_def in_tx_def split: sum.split)
  show ?thesis
    unfolding sql_def manager_sql_def if_True
    by (rule obeys_extern, erule (1) copy_contract.trans) (auto simp: call, auto simp: copying_def invariant_step_def)
qed

lemmas copying_statements [copy_rules] = appending_statements[THEN copying_sql] appending_outbox[THEN copying_sql]

lemma copying_publish [copy_rules]: "obeys (copying t) (publishEvent e)"
  by (simp add: obeys_def publishEvent_def modify_def copying_def invariant_step_def)

lemma copying_find [copy_rules]: "obeys (copying t) (findByIdWithLock i True)"
  unfolding findByIdWithLock_def by (rule copy_rules)

lemma copying_save [copy_rules]: "obeys (copying t) (saveWithEvent P v ty a m True)"
  unfolding saveWithEvent_def saveWithEvent_execute_def if_True by (intro copy_contract.obeys_control copy_rules)

lemma copying_getOrCreate_execute [copy_rules]: "obeys (copying t) (getOrCreate_execute P i cur)"
  unfolding getOrCreate_execute_def by (intro copy_contract.obeys_control copy_rules)

lemma copying_getOrCreate [copy_rules]: "obeys (copying t) (getOrCreate P i cur True)"
  by (simp add: getOrCreate_def copy_rules)

lemma copying_key [copy_rules]: "obeys (copying t) (idempotency_save k True)"
  unfolding idempotency_save_def by (rule copy_rules)

lemma copying_operations [copy_rules]:
  "obeys (copying t) (stateChange_operation P i ty op m)"
  "obeys (copying t) (limit_operation P i limit actor why)"
  "obeys (copying t) (idempotent_operation P i a ty opn rid auto)"
  "obeys (copying t) (step_operation P s i a opn ty m upd extra)"
  "obeys (copying t) (createSaga_operation P f g a cur rid)"
  unfolding stateChange_operation_def limit_operation_def idempotent_operation_def step_operation_def
    createSaga_operation_def Let_def
  by (intro copy_contract.obeys_control copy_rules)+

text \<open>The committed tables keep their log.\<close>

definition logging :: "world \<Rightarrow> world \<Rightarrow> bool" where
  "logging w w' \<longleftrightarrow> appends (db w) (db w')"

interpretation log_contract: consumer_contract logging
proof unfold_locales
  fix w alerts show "logging w (w\<lparr>db := (db w)\<lparr>fraudAlerts := fraudAlerts (db w) @ alerts\<rparr>\<rparr>)"
    by (simp add: logging_def appends_def)
qed (auto simp: logging_def intro: appends_trans)

named_theorems log_rules \<open>programs that keep the log\<close>

lemma logging_tables: "obeys same_tables m \<Longrightarrow> obeys logging m"
  by (auto simp: obeys_def same_tables_def logging_def)

lemma logging_repository [log_rules]: "appending f \<Longrightarrow> obeys logging (repository_sql f)"
  unfolding repository_sql_def
  by (rule obeys_extern, erule (1) log_contract.trans) (auto simp: logging_def in_db_def appending_def split: sum.splits)

lemma transacted_appends:
  assumes "obeys (copying t) operation" "transacted P operation t r t'"
  shows "appends t t'"
  using assms(2) unfolding transacted_def
proof (elim disjE exE conjE)
  fix a s s1 t1 now assume s: "entry t s" "operation s = (Ok a, s1)" "tx s1 = Some t1" "t' = insert_outbox P (eventsToPublish s1) now t1"
  show "appends t t'"
    using obeysD[OF assms(1) s(2)] s by (simp add: copying_def invariant_step_def entry_def appends_insert_outbox)
qed simp

lemma logging_transaction:
  assumes "\<And>t. obeys (copying t) operation" "obeys inside_tx operation"
  shows "obeys logging (transaction_segment P operation)" "obeys logging (execute P operation opts)"
  using outcomesD[OF transaction_segment_transacted[OF assms(2)] refl] outcomesD[OF execute_transacted[OF assms(2)] refl]
    transacted_appends[OF assms(1)]
  unfolding logging_def by (blast intro!: obeysI)+

lemma logging_plain_transaction:
  assumes "\<And>t. obeys (copying t) operation" "obeys inside_tx operation"
  shows "obeys logging (runInTransaction operation)"
proof (rule obeysI)
  fix w r w' assume run: "runInTransaction operation w = (r, w')"
  from outcomesD[OF runInTransaction_transacted[OF assms(2)] refl run]
  show "logging w w'"
    unfolding transacted_plain_def
  proof (elim disjE exE conjE)
    fix a s s1 assume s: "db s = db w" "tx s = Some (db w)" "operation s = (Ok a, s1)" "tx s1 = Some (db w')"
    show ?thesis using obeysD[OF assms(1) s(3)] s by (simp add: copying_def invariant_step_def logging_def)
  qed (simp add: logging_def)
qed

section \<open>Activities\<close>

text \<open>Whatever comes between its segments, each of them keeps the log.\<close>

abbreviation append_only :: "unit \<Rightarrow> tables \<Rightarrow> unit \<Rightarrow> tables \<Rightarrow> bool" where
  "append_only \<equiv> \<lambda>u t u' t'. appends t t'"

interpretation log_keeping: rely_guarantee "\<lambda>_ _ _. True" "\<lambda>_. True" append_only
  by unfold_locales auto

definition keeps_log :: "'a task \<Rightarrow> bool" where
  "keeps_log m \<longleftrightarrow> conforms (\<lambda>_ _ _. True) (\<lambda>_. True) append_only (\<lambda>_ _. True) m (\<lambda>_ _ _. True)"

lemma keeps_log_Segment:
  fixes f :: "world \<Rightarrow> 'a task \<times> world"
  shows "keeps_log (Segment f) \<longleftrightarrow> (\<forall>w m w'. f w = (m, w') \<longrightarrow> appends (db w) (db w') \<and> keeps_log m)"
proof -
  have any: "abides (\<lambda>_ _ _. True) (\<lambda>_. True) append_only m u t (\<lambda>_ _ _. True) \<longleftrightarrow>
      abides (\<lambda>_ _ _. True) (\<lambda>_. True) append_only m () t' (\<lambda>_ _ _. True)" for m :: "'a task" and u t t'
    using log_keeping.abides_later[of m "()" t "\<lambda>_ _ _. True" t'] log_keeping.abides_later[of m "()" t' "\<lambda>_ _ _. True" t]
    by (auto simp: undisturbed_def)
  show ?thesis
    unfolding keeps_log_def conforms_def by (auto simp: abides_Segment) (metis any)
qed

named_theorems keeps_rules \<open>tasks that keep the log\<close>

lemma keeps_atomically: "obeys logging m \<Longrightarrow> keeps_log (atomically m)"
  unfolding keeps_log_def by (rule log_keeping.conforms_atomically) (auto simp: undisturbed_def logging_def dest: obeysD)

lemma keeps_control [keeps_rules]:
  "keeps_log (resolved a)" "keeps_log (rejected e)"
  "keeps_log m \<Longrightarrow> (\<And>a. keeps_log (k a)) \<Longrightarrow> keeps_log (and_then m k)"
  "keeps_log n \<Longrightarrow> (\<And>e. keeps_log (h e)) \<Longrightarrow> keeps_log (or_catch n h)"
  "(\<And>x. keeps_log (body x)) \<Longrightarrow> keeps_log (each_task xs body)"
proof -
  show "keeps_log (resolved a)" "keeps_log (rejected e)"
    unfolding keeps_log_def by (simp_all add: log_keeping.conforms_resolved log_keeping.conforms_rejected)
  show "keeps_log m \<Longrightarrow> (\<And>a. keeps_log (k a)) \<Longrightarrow> keeps_log (and_then m k)"
    unfolding keeps_log_def by (rule log_keeping.conforms_and_then[where M = "\<lambda>_ _ _. True"]) simp_all
  show "keeps_log n \<Longrightarrow> (\<And>e. keeps_log (h e)) \<Longrightarrow> keeps_log (or_catch n h)"
    unfolding keeps_log_def by (rule log_keeping.conforms_or_catch[where M = "\<lambda>_ _ _. True"]) simp_all
  show "(\<And>x. keeps_log (body x)) \<Longrightarrow> keeps_log (each_task xs body)"
    unfolding keeps_log_def by (rule log_keeping.conforms_each) simp
qed

lemma keeps_branches [keeps_rules]:
  "keeps_log m \<Longrightarrow> keeps_log n \<Longrightarrow> keeps_log (if b then m else n)"
  "keeps_log m \<Longrightarrow> (\<And>x. keeps_log (f x)) \<Longrightarrow> keeps_log (case z of None \<Rightarrow> m | Some x \<Rightarrow> f x)"
  by (simp, cases z, simp_all)

lemma keeps_retry [keeps_rules]: "keeps_log m \<Longrightarrow> keeps_log (retry_task P C left attempt m)"
  by (induction left arbitrary: attempt)
     (simp_all add: keeps_rules keeps_atomically logging_tables tables_backoff)

lemma keeps_execute [keeps_rules]:
  assumes "\<And>t. obeys (copying t) operation" "obeys inside_tx operation"
  shows "keeps_log (execute_task P operation opts)"
proof -
  have "keeps_log (of_sum r)" for r :: "error + 'a" by (cases r) (simp_all add: keeps_rules)
  moreover have "obeys same_tables (run_if b (redis_del k))" for b k
    by (intro tables_contract.obeys_control step_rules)
  ultimately show ?thesis
    unfolding execute_task_def
    by (intro keeps_rules keeps_atomically logging_transaction(1) assms) (simp_all add: logging_tables step_rules)
qed

text \<open>The calls that are one segment.\<close>

lemma logging_calls [log_rules]:
  "obeys logging (getOrCreate P i cur False)" "obeys logging (createSaga P f g a cur rid)"
  "obeys logging (idempotency_save k False)" "obeys logging (mark_failed P saga e)"
proof -
  show "obeys logging (getOrCreate P i cur False)"
    unfolding getOrCreate_def by (simp add: logging_plain_transaction copy_rules step_rules)
  show "obeys logging (createSaga P f g a cur rid)"
    unfolding createSaga_def by (intro logging_transaction copy_rules step_rules)
  show "obeys logging (idempotency_save k False)"
    unfolding idempotency_save_def sql_def by (simp add: logging_repository appending_statements)
  show "obeys logging (mark_failed P saga e)"
    unfolding mark_failed_def saga_save_def
    by (intro log_contract.obeys_control logging_repository appending_statements)
qed

lemma logging_served [log_rules]:
  "obeys logging (serve V P C (GetBalance i))" "obeys logging (serve V P C (GetHistory i n k))"
  "obeys logging (serve V P C RelayJob)" "obeys logging (serve V P C (FraudMessage msg))"
proof -
  show "obeys logging (serve V P C (GetBalance i))"
    unfolding serve.simps silently_def respond_def get_balance_def
    by (intro log_contract.obeys_control logging_tables tables_queries)
  show "obeys logging (serve V P C (GetHistory i n k))"
    unfolding serve.simps silently_def get_history_def Let_def
    by (intro log_contract.obeys_control logging_tables tables_queries)
  have "logging w w'" if "handleCron C w = (r, w')" for w r w'
    using outcomesD[OF handleCron_outcomes refl that] by (auto simp: relayed_def logging_def)
  then show "obeys logging (serve V P C RelayJob)" by (auto intro: obeysI)
  show "obeys logging (serve V P C (FraudMessage msg))"
    unfolding serve.simps by (rule log_contract.consumer_message) (simp add: logging_def)
qed

lemma keeps_tables: "obeys same_tables m \<Longrightarrow> keeps_log (atomically m)"
  by (intro keeps_atomically logging_tables)

lemma keeps_steps [keeps_rules]:
  "keeps_log (debit_task P C saga)" "keeps_log (credit_task P C saga recovered)" "keeps_log (compensate_task P C s i a reason)"
  unfolding debit_task_def credit_task_def compensate_task_def step_task_def
  by (intro keeps_rules keeps_tables copy_rules step_rules tables_contract.obeys_control)+

lemma keeps_transfer [keeps_rules]: "keeps_log (executeTransfer_task P C f g a rid)"
proof -
  have "keeps_log (settle_task P C saga e)" for saga e
    unfolding settle_task_def by (intro keeps_rules keeps_atomically log_rules)
  then have h: "keeps_log (handle_failure_task P C saga e)" for saga e
    unfolding handle_failure_task_def by (intro keeps_rules keeps_tables step_rules)
  have r: "keeps_log (run_saga_task P C saga f g a rid)" for saga
    unfolding run_saga_task_def Let_def by (intro keeps_rules keeps_atomically log_contract.obeys_control log_rules)
  have "keeps_log (start_transfer_task P C f g a rid)"
    unfolding start_transfer_task_def
    by (intro keeps_rules r h keeps_tables[OF tables_findById] keeps_atomically log_rules)
  then show ?thesis
    unfolding executeTransfer_task_def by (intro keeps_rules keeps_tables tables_existing)
qed

lemma keeps_worker [keeps_rules]: "keeps_log (recoverStuckSagas_task P C nodeEnv)"
proof -
  have one: "keeps_log (recoverSaga_task P C s)" for s
    unfolding recoverSaga_task_def by (intro keeps_rules keeps_tables step_rules)
  have find: "obeys same_tables (find_stuck P C)"
    unfolding find_stuck_def by (intro tables_contract.obeys_control tables_saga_find)
  have flag: "obeys same_tables (set_recovering b)" for b
    by (simp add: set_recovering_def obeys_def modify_def same_tables_def)
  have first: "obeys same_tables begin_recovery"
    unfolding begin_recovery_def by (intro tables_contract.obeys_control flag)
  show ?thesis
    unfolding recoverStuckSagas_task_def processStuckSagas_task_def recovery_body_task_def
    by (intro keeps_rules one keeps_tables find flag first)
qed

lemma keeps_wallet_service [keeps_rules]:
  "keeps_log (deposit_task P i a rid)" "keeps_log (withdraw_task P i a rid)"
  "keeps_log (freezeWallet_task P i reason actor)" "keeps_log (unfreezeWallet_task P i actor)"
  "keeps_log (closeWallet_task P i reason actor)" "keeps_log (setDailyWithdrawalLimit_task P i limit actor why)"
  unfolding deposit_task_def withdraw_task_def then_cached_def idempotent_task_def freezeWallet_task_def
    unfreezeWallet_task_def closeWallet_task_def stateChange_task_def setDailyWithdrawalLimit_task_def
  by (intro keeps_rules keeps_tables tables_existing copy_rules step_rules tables_contract.obeys_get_state)+

lemma keeps_silent [keeps_rules]:
  "keeps_log m \<Longrightarrow> keeps_log (silent_task m)" "keeps_log n \<Longrightarrow> keeps_log (respond_task n)"
  unfolding silent_task_def respond_task_def by (intro keeps_rules; assumption)+

lemma every_task_keeps_log: "keeps_log (task_of V P C a)"
  by (cases a) (auto intro!: keeps_rules keeps_atomically log_rules simp del: serve.simps)

section \<open>Runs\<close>

text \<open>C6: Nothing that was committed is ever deleted. However requests, administration, jobs and messages
  overlap, with failures and crashes anywhere, every wallet event and every alert stays in its place,
  unchanged; every wallet, saga and idempotency key stays; and every row of the outbox stays as it was but
  for being marked as published, which is never taken back.\<close>

theorem overlapping_runs_only_append:
  assumes "overlapping_run V P C w n ts w'"
  shows "prefix (walletEvents (db w)) (walletEvents (db w')) \<and> prefix (fraudAlerts (db w)) (fraudAlerts (db w')) \<and>
    dom (wallets (db w)) \<subseteq> dom (wallets (db w')) \<and> dom (sagas (db w)) \<subseteq> dom (sagas (db w')) \<and>
    dom (idempotencyKeys (db w)) \<subseteq> dom (idempotencyKeys (db w')) \<and>
    outbox_kept (outboxEvents (db w)) (outboxEvents (db w'))"
proof -
  have "appends (db w) (db w') \<and> (\<forall>k a m. ts k = Some (a, m) \<longrightarrow> keeps_log m)"
    using assms
  proof (induction rule: overlapping_run.induct)
    case (arrival w n ts w1 k a)
    then show ?case using every_task_keeps_log by auto
  next
    case (segment w n ts w1 k a f m w2)
    then have "appends (db w1) (db w2)" "keeps_log m" using keeps_log_Segment by blast+
    then show ?case using segment appends_trans by auto
  qed auto
  then show ?thesis by (simp add: appends_def)
qed

theorem overlapping_runs_only_append_witness:
  "\<exists>m w'. overlapping_run class_validators postgres default_config audited_world 0
      [0 \<mapsto> (second_transfer, m), 1 \<mapsto> (first_transfer, Finished (Ok ()))] w' \<and>
    prefix [first_event] (walletEvents (db w'))"
proof -
  have "walletEvents (db audited_world) = [first_event]"
    by (simp add: audited_world_def new_world_def)
  then show ?thesis
    using two_transfers overlapping_runs_only_append[of class_validators postgres default_config audited_world 0]
    by fastforce
qed

end
