(* ===== verification/LostIsolation.thy ===== *)
theory LostIsolation imports TransferRuns
begin

text \<open>
  What the isolation of the database does not give. The transactions run at \<open>READ COMMITTED\<close>, and
  a step locks the row of its wallet only: it reads the saga without a lock, checks its state in
  memory and saves it, and the saga's row has no version. The credit of a saga locks the receiver, its
  refund the sender, so that nothing keeps the two from running at the same time: on two instances of
  the service (the flag \<open>isRecovering\<close> is one process's own), or in a request that takes longer than
  the recovery worker waits.

  \<open>other_session\<close> is what a transaction under way sees when another session works and commits: at
  \<open>READ COMMITTED\<close> its next statement reads the newly committed rows, except for the rows it has
  itself written, here the wallet it has locked. \<open>step_around\<close> is a step with such a visit between the
  read of the saga and its save; with no visit it is the step of the code (\<open>step_undisturbed\<close>).
\<close>

section \<open>A transaction that others visit\<close>

text \<open>The session has written the row of wallet \<open>i\<close> in its transaction; the others run \<open>m\<close>.\<close>

definition other_session :: "string \<Rightarrow> 'a handler \<Rightarrow> unit handler" where
  "other_session i m = (\<lambda>w. let w' = snd (m (w\<lparr>tx := None, eventsToPublish := []\<rparr>)) in
     (Ok (), w'\<lparr>tx := map_option (\<lambda>t. (db w')\<lparr>wallets := (wallets (db w'))(i := wallets t i)\<rparr>) (tx w),
        eventsToPublish := eventsToPublish w\<rparr>))"

definition step_around ::
  "unit handler \<Rightarrow> platform \<Rightarrow> string \<Rightarrow> string \<Rightarrow> number \<Rightarrow> (int \<Rightarrow> (wallet, error, unit) program) \<Rightarrow> wallet_event_type \<Rightarrow> json \<Rightarrow>
   (transfer_saga, error, unit) program \<Rightarrow> (transfer_saga \<Rightarrow> int \<Rightarrow> outbox_event list) \<Rightarrow> unit handler" where
  "step_around visit P s i amount operation ty m upd extra =
     await (step_front P s i operation) (\<lambda>read. await visit (\<lambda>_. step_back P i amount ty m upd extra read))"

lemma step_undisturbed:
  "step_around (ret ()) P s i amount operation ty m upd extra = step_operation P s i amount operation ty m upd extra"
  by (simp add: step_around_def step_halves)

text \<open>The transaction of \<open>compensate\<close>, visited.\<close>

definition refund_around :: "unit handler \<Rightarrow> platform \<Rightarrow> string \<Rightarrow> string \<Rightarrow> number \<Rightarrow> string \<Rightarrow> unit handler" where
  "refund_around visit P sagaId from_id amount errorMessage = execute P
     (step_around visit P sagaId from_id amount (\<lambda>now. wallet_credit amount) TRANSFER_COMPENSATED
       (JObj [(''sagaId'', JStr sagaId), (''reason'', JStr errorMessage)]) (markAsCompensated errorMessage) (\<lambda>_ _. []))
     default_options"

lemma visited:
  assumes "m (w\<lparr>tx := None, eventsToPublish := []\<rparr>) = (r, w')" and "tx w = Some t"
  shows "other_session i m w = (Ok (), w'\<lparr>tx := Some ((db w')\<lparr>wallets := (wallets (db w'))(i := wallets t i)\<rparr>),
    eventsToPublish := eventsToPublish w\<rparr>)"
  using assms by (simp add: other_session_def)

section \<open>Credited and refunded\<close>

lemma refund_meets_credit:
  assumes P: "decimal_column P" and c: "calm w" "0 < maxRetries C"
    and x: "sagas (db w) s = Some x" "s \<noteq> []" "saga_fits x" "transfer_of_row x = (new_transfer f g k)\<lparr>tr_state := DEBITED\<rparr>"
    and saga: "stands_for saga s (new_transfer f g k)"
    and rf: "wallets (db w) f = Some rf" "can_receive rf k" "length f \<le> 255"
    and rg: "wallets (db w) g = Some rg" "can_receive rg k" "length g \<le> 255"
    and ne: "f \<noteq> g" and k: "0 < k" "k \<le> 10 ^ 15 - 10"
  shows "\<exists>w' rf1 rg1 x1. refund_around (other_session f (creditToReceiver P C saga recovered)) P s f (amount_of k) msg w = (Ok (), w') \<and>
    wallets (db w') = (wallets (db w))(f \<mapsto> rf1, g \<mapsto> rg1) \<and> cents (row_balance rf1) = cents (row_balance rf) + k \<and>
    cents (row_balance rg1) = cents (row_balance rg) + k \<and>
    sagas (db w') = (sagas (db w))(s \<mapsto> x1) \<and> transfer_of_row x1 = (new_transfer f g k)\<lparr>tr_state := COMPENSATED\<rparr>"
proof -
  let ?w0 = "inside_state default_options w" and ?credit = "creditToReceiver P C saga recovered"
  let ?meta = "JObj [(''sagaId'', JStr s), (''reason'', JStr msg)]"
  obtain j where j: "row_balance rf = Cents j" "j + k \<le> 10 ^ 15 - 10" and r: "sound_row rf" "row_status rf = ACTIVE"
    using rf(2) by (auto simp: can_receive_def)
  obtain v where v: "wallet_credit (amount_of k) (wallet_of_row f rf) = (Ok (), v)" "wallet_id v = f" "savable P v"
    using deposit_op_calm[OF P r rf(3) j(1) k(1) j(2)] by blast
  obtain rf1 where rf1: "stored P v rf1" and front: "step_front P s f (\<lambda>now. wallet_credit (amount_of k)) ?w0 =
      (Ok (v, saga_of_row s x), ?w0\<lparr>tx := Some ((db w)\<lparr>wallets := (wallets (db w))(f \<mapsto> rf1)\<rparr>)\<rparr>)"
    using step_front_calm[of ?w0 "db w" f rf "\<lambda>now. wallet_credit (amount_of k)" v P s x] c(1) rf(1) v x(1) by auto
  let ?w1 = "?w0\<lparr>tx := Some ((db w)\<lparr>wallets := (wallets (db w))(f \<mapsto> rf1)\<rparr>)\<rparr>"
  let ?v1 = "?w1\<lparr>tx := None, eventsToPublish := []\<rparr>"
  have "calm ?v1" "wallets (db ?v1) g = Some rg" "sagas (db ?v1) s = Some x" using c(1) rg(1) x(1) by simp_all
  then obtain rg1 x2 w2 where credit: "?credit ?v1 = (Ok (), w2)" "stepped g rg1 s x2 ?v1 w2"
      "cents (row_balance rg1) = cents (row_balance rg) + k"
    using credit_calm[OF P _ c(2) _ rg(3,2) k _ x(2-4) saga] by blast
  let ?t3 = "(db w2)\<lparr>wallets := (wallets (db w2))(f \<mapsto> rf1)\<rparr>"
  let ?w3 = "w2\<lparr>tx := Some ?t3, eventsToPublish := []\<rparr>"
  have visit: "other_session f ?credit ?w1 = (Ok (), ?w3)"
    using visited[of ?credit ?w1 "Ok ()" w2 "(db w)\<lparr>wallets := (wallets (db w))(f \<mapsto> rf1)\<rparr>" f] credit(1) by simp
  have xs: "srow_state x = DEBITED" "srow_from x = f" "srow_to x = g" "cents (srow_amount x) = k"
    using x(4) by (simp_all add: transfer_of_row_def new_transfer_def)
  let ?y = "(saga_of_row s x)\<lparr>saga_state := COMPENSATED,
    saga_metadata := spread_set (saga_metadata (saga_of_row s x)) ''compensationReason'' (JStr msg)\<rparr>"
  have y: "markAsCompensated msg (saga_of_row s x) = (Ok (), ?y)" "saga_id ?y = s"
    using xs(1) by (simp_all add: run_simps saga_of_row_def)
  obtain x1 where x1: "row_of_saga P (clock ?w3) (sagas ?t3 s) ?y = Inr x1" "srow_state x1 = COMPENSATED"
      "srow_from x1 = srow_from x" "srow_to x1 = srow_to x" "srow_amount x1 = srow_amount x"
    using saga_fits_save[OF P x(3), of ?y "clock ?w3" "sagas ?t3 s"] by (auto simp: saga_of_row_def)
  have "calm ?w3" "length (currency v) \<le> 3" "k \<le> 10 ^ 15" using credit(2) v(3) k(2) by (simp_all add: stepped_def savable_def)
  then obtain e os where last: "step_back P f (amount_of k) TRANSFER_COMPENSATED ?meta (markAsCompensated msg) (\<lambda>_ _. [])
      (v, saga_of_row s x) ?w3 =
      (Ok (), ?w3\<lparr>tx := Some (?t3\<lparr>sagas := (sagas ?t3)(s \<mapsto> x1), walletEvents := walletEvents ?t3 @ [e]\<rparr>), eventsToPublish := os\<rparr>)"
    using step_back_calm[of P "amount_of k" ?w3 ?t3 f v s "markAsCompensated msg" "saga_of_row s x" ?y x1 TRANSFER_COMPENSATED ?meta "\<lambda>_ _. []"]
      loggable_amount[of P k] P rf(3) x(2) y x1(1) k(1) by auto
  have free: "lock_free default_options w" by (simp add: lock_free_def default_options_def given_def)
  let ?step = "step_around (other_session f ?credit) P s f (amount_of k) (\<lambda>now. wallet_credit (amount_of k)) TRANSFER_COMPENSATED
      ?meta (markAsCompensated msg) (\<lambda>_ _. [])"
  have run: "?step ?w0 =
      (Ok (), ?w3\<lparr>tx := Some (?t3\<lparr>sagas := (sagas ?t3)(s \<mapsto> x1), walletEvents := walletEvents ?t3 @ [e]\<rparr>), eventsToPublish := os\<rparr>)"
    by (simp add: step_around_def await_run front visit last)
  obtain w' where w': "refund_around (other_session f ?credit) P s f (amount_of k) msg w = (Ok (), w')"
      "wallets (db w') = wallets ?t3" "sagas (db w') = (sagas ?t3)(s \<mapsto> x1)"
    using execute_calm[where operation = ?step and P = P, OF c(1) free run] \<open>calm ?w3\<close>
    by (simp add: refund_around_def calm_def)
  have "wallets ?t3 = (wallets (db w))(f \<mapsto> rf1, g \<mapsto> rg1)" "(sagas ?t3)(s \<mapsto> x1) = (sagas (db w))(s \<mapsto> x1)"
    using credit(2) ne by (auto simp: stepped_def fun_eq_iff)
  moreover have "cents (row_balance rf1) = cents (row_balance rf) + k"
    using credit_row_sound[OF P v(1) rf1 r(1) j(1) k(1) j(2)] j(1) by simp
  moreover have "transfer_of_row x1 = (new_transfer f g k)\<lparr>tr_state := COMPENSATED\<rparr>"
    using x1(2-5) xs by (simp add: transfer_of_row_def new_transfer_def)
  ultimately show ?thesis using w' credit(3) by metis
qed

text \<open>C32: The refund of a saga can meet its credit. When a credit of the saga (by the recovery worker of
  another instance, say) starts after the refund has read the saga and commits before the refund saves
  it, both promises resolve: the receiver has the money, the sender has it back, the saga is saved as
  compensated over its completion, and there is more money than before.\<close>

theorem refund_races_credit:
  assumes "decimal_column P" and "sound_tables P (db w)" and "calm w" and "0 < maxRetries C"
    and "sagas (db w) s = Some x" and "s \<noteq> []" and "saga_fits x"
    and "transfer_of_row x = (new_transfer f g k)\<lparr>tr_state := DEBITED\<rparr>" and "stands_for saga s (new_transfer f g k)"
    and "wallets (db w) f = Some rf" and "can_receive rf k" and "length f \<le> 255"
    and "wallets (db w) g = Some rg" and "can_receive rg k" and "length g \<le> 255"
    and "f \<noteq> g" and "0 < k" and "k \<le> 10 ^ 15 - 10"
  shows "\<exists>w'. refund_around (other_session f (creditToReceiver P C saga True)) P s f (amount_of k) msg w = (Ok (), w') \<and>
    balance_cents (db w') f = Some (cents (row_balance rf) + k) \<and> balance_cents (db w') g = Some (cents (row_balance rg) + k) \<and>
    map_option srow_state (sagas (db w') s) = Some COMPENSATED \<and> money (ledger_of (db w')) = money (ledger_of (db w)) + k"
proof -
  obtain w' rf1 rg1 x1 where w': "refund_around (other_session f (creditToReceiver P C saga True)) P s f (amount_of k) msg w = (Ok (), w')"
    "wallets (db w') = (wallets (db w))(f \<mapsto> rf1, g \<mapsto> rg1)" "cents (row_balance rf1) = cents (row_balance rf) + k"
    "cents (row_balance rg1) = cents (row_balance rg) + k" "sagas (db w') = (sagas (db w))(s \<mapsto> x1)"
    "transfer_of_row x1 = (new_transfer f g k)\<lparr>tr_state := COMPENSATED\<rparr>"
    using refund_meets_credit[OF assms(1,3-18)] by blast
  have l: "ledger_of (db w') = (ledger_of (db w))\<lparr>balances := (balances (ledger_of (db w)))(f \<mapsto> cents (row_balance rf) + k,
      g \<mapsto> cents (row_balance rg) + k), transfers := (transfers (ledger_of (db w)))(s \<mapsto> transfer_of_row x1)\<rparr>"
    using w'(2-5) by (auto simp: ledger_of_def balance_cents_def fun_eq_iff)
  have fin: "finite (dom (balances (ledger_of (db w))))" "finite (dom (transfers (ledger_of (db w))))"
    using assms(2) by (auto simp: sound_tables_def sound_ledger_def)
  have b: "balances (ledger_of (db w)) f = Some (cents (row_balance rf))" "balances (ledger_of (db w)) g = Some (cents (row_balance rg))"
      "transfers (ledger_of (db w)) s = Some (transfer_of_row x)"
    using assms(5,10,13) by (simp_all add: ledger_of_def balance_cents_def)
  have "money (ledger_of (db w')) = money (ledger_of (db w)) + k"
    unfolding l money_def using fin b assms(5,8,16) w'(6)
    by (simp add: total_of_update in_flight_def new_transfer_def)
  moreover have "srow_state x1 = COMPENSATED" using w'(6) by (simp add: transfer_of_row_def new_transfer_def)
  ultimately show ?thesis using w' assms(16) by (simp add: balance_cents_def)
qed

section \<open>A concrete case\<close>

theorem refund_races_credit_witness:
  "\<exists>w'. refund_around (other_session ''a'' (creditToReceiver postgres default_config (saga_of_row ''s'' debited_row) True))
      postgres ''s'' ''a'' (amount_of 100) ''timeout'' debited_world = (Ok (), w') \<and>
    money (ledger_of (db debited_world)) = 1000 \<and>
    balance_cents (db w') ''a'' = Some 1000 \<and> balance_cents (db w') ''b'' = Some 100 \<and> money (ledger_of (db w')) = 1100"
proof -
  have x: "transfer_of_row debited_row = (new_transfer ''a'' ''b'' 100)\<lparr>tr_state := DEBITED\<rparr>"
    by (simp add: transfer_of_row_def new_transfer_def)
  have m: "money (ledger_of debited_tables) = 1000"
    unfolding money_def debited_ledger by (simp add: total_of_pair) (simp add: total_of_def in_flight_def)
  have st: "stands_for (saga_of_row ''s'' debited_row) ''s'' (new_transfer ''a'' ''b'' 100)"
    by (simp add: stands_for_def saga_of_row_def new_transfer_def amount_of_def)
  have r: "sound_row (sample_row 900)" by (simp add: sound_row_def sample_row_def default_row_def)
  show ?thesis
    using refund_races_credit[of postgres debited_world default_config "''s''" debited_row "''a''" "''b''" 100
        "saga_of_row ''s'' debited_row" "sample_row 900" "sample_row 0" "''timeout''"] x st m r
    by auto
qed

end
