(* ===== verification/EventImmutability.thy ===== *)
theory EventImmutability imports CalmRuns
begin

text \<open>
  What keeps wallet events from being changed: the subscriber of
  \<open>src/infrastructure/database/wallet-event.subscriber.ts\<close>, which refuses updates and removals that
  go through the ORM, and the triggers that
  \<open>src/infrastructure/database/database-migration.service.ts\<close> installs at start-up, which refuse
  those of every other client of the database.

  A query of the migration acts on the functions and triggers of the table (\<open>schema\<close>);
  \<open>insert_events\<close>, \<open>update_events\<close>, \<open>delete_events\<close> and \<open>truncate_events\<close> are the statements of any client.
  Once the start-up hook has resolved, and as long as the triggers stay as it left them, insertions, updates and
  deletions only append to the log. That is all the triggers do: \<open>TRUNCATE\<close> does not call them, a
  client that may drop them can, and so does every start, which drops them first and is not one
  transaction, so that a start that is cut short leaves the table open.
\<close>

section \<open>The subscriber\<close>

definition beforeUpdate :: "unit handler" where
  "beforeUpdate = throw (PlainError (''WalletEvent is immutable. Updates are not allowed. '' @
     ''Events form a permanent audit trail and cannot be modified after creation.''))"

definition beforeRemove :: "unit handler" where
  "beforeRemove = throw (PlainError (''WalletEvent is immutable. Deletions are not allowed. '' @
     ''Events form a permanent audit trail and cannot be deleted.''))"

section \<open>Queries on functions and triggers\<close>

definition query :: "(schema \<Rightarrow> error + schema) \<Rightarrow> unit handler" where
  "query f = extern (\<lambda>w. case f (schema w) of Inl e \<Rightarrow> (Inl e, w) | Inr s \<Rightarrow> (Inr (), w\<lparr>schema := s\<rparr>))"

definition create_or_replace_function :: "string \<Rightarrow> (row_change \<Rightarrow> error option) \<Rightarrow> schema \<Rightarrow> error + schema" where
  "create_or_replace_function name body s = Inr (s\<lparr>trigger_functions := (trigger_functions s)(name \<mapsto> body)\<rparr>)"

definition drop_trigger_if_exists :: "string \<Rightarrow> schema \<Rightarrow> error + schema" where
  "drop_trigger_if_exists name s = Inr (s\<lparr>triggers := filter (\<lambda>g. trigger_name g \<noteq> name) (triggers s)\<rparr>)"

definition create_trigger :: "trigger \<Rightarrow> schema \<Rightarrow> error + schema" where
  "create_trigger g s =
     (if trigger_name g \<in> set (map trigger_name (triggers s))
      then Inl (DriverError ''42710'' ''QueryFailedError'' (''trigger already exists: '' @ trigger_name g))
      else if trigger_functions s (trigger_function g) = None
      then Inl (DriverError ''42883'' ''QueryFailedError'' (''function does not exist: '' @ trigger_function g))
      else Inr (s\<lparr>triggers := triggers s @ [g]\<rparr>))"

section \<open>The installation\<close>

fun row_change_text :: "row_change \<Rightarrow> string" where
  "row_change_text Updating = ''UPDATE''"
| "row_change_text Deleting = ''DELETE''"

definition immutable_error :: "row_change \<Rightarrow> error" where
  "immutable_error op = DriverError ''23506'' ''QueryFailedError'' (''wallet_events table is immutable. '' @
     row_change_text op @ '' operations are not allowed. Events form a permanent audit trail and cannot be '' @
     ''modified or deleted after creation.'')"

definition prevent_wallet_event_modification :: "row_change \<Rightarrow> error option" where
  "prevent_wallet_event_modification op = Some (immutable_error op)"

definition update_trigger :: trigger where
  "update_trigger = \<lparr>trigger_name = ''prevent_wallet_event_update'', trigger_on = Updating,
     trigger_function = ''prevent_wallet_event_modification''\<rparr>"

definition delete_trigger :: trigger where
  "delete_trigger = \<lparr>trigger_name = ''prevent_wallet_event_delete'', trigger_on = Deleting,
     trigger_function = ''prevent_wallet_event_modification''\<rparr>"

definition installEventImmutabilityTriggers :: "unit handler" where
  "installEventImmutabilityTriggers = try_catch
     (await (query (create_or_replace_function ''prevent_wallet_event_modification'' prevent_wallet_event_modification)) (\<lambda>_.
      await (query (drop_trigger_if_exists ''prevent_wallet_event_update'')) (\<lambda>_.
      await (query (drop_trigger_if_exists ''prevent_wallet_event_delete'')) (\<lambda>_.
      await (query (create_trigger update_trigger)) (\<lambda>_.
      query (create_trigger delete_trigger))))))
     (\<lambda>e. throw e)"

definition migration_onModuleInit :: "unit handler" where
  "migration_onModuleInit = installEventImmutabilityTriggers"

section \<open>Statements of any client\<close>

text \<open>The error of the first trigger that raises one.\<close>

definition fired :: "schema \<Rightarrow> row_change \<Rightarrow> error option" where
  "fired s op = (case filter (\<lambda>z. z \<noteq> None) (map (\<lambda>g. case trigger_functions s (trigger_function g) of
       Some body \<Rightarrow> body op | None \<Rightarrow> None) (filter (\<lambda>g. trigger_on g = op) (triggers s))) of
     [] \<Rightarrow> None | z # _ \<Rightarrow> z)"

text \<open>The triggers are called for each row concerned: for none, they are not called.\<close>

definition change_events :: "row_change \<Rightarrow> (event_row \<Rightarrow> bool) \<Rightarrow> (event_row list \<Rightarrow> event_row list) \<Rightarrow> unit handler" where
  "change_events op concerned change = extern (\<lambda>w.
     if \<not> list_ex concerned (walletEvents (db w)) then (Inr (), w)
     else case fired (schema w) op of
       Some e \<Rightarrow> (Inl e, w)
     | None \<Rightarrow> (Inr (), w\<lparr>db := (db w)\<lparr>walletEvents := change (walletEvents (db w))\<rparr>\<rparr>))"

definition update_events :: "(event_row \<Rightarrow> bool) \<Rightarrow> (event_row \<Rightarrow> event_row) \<Rightarrow> unit handler" where
  "update_events concerned f = change_events Updating concerned (map (\<lambda>e. if concerned e then f e else e))"

definition delete_events :: "(event_row \<Rightarrow> bool) \<Rightarrow> unit handler" where
  "delete_events concerned = change_events Deleting concerned (filter (\<lambda>e. \<not> concerned e))"

definition insert_events :: "event_row list \<Rightarrow> unit handler" where
  "insert_events es = extern (\<lambda>w. (Inr (), w\<lparr>db := (db w)\<lparr>walletEvents := walletEvents (db w) @ es\<rparr>\<rparr>))"

text \<open>\<open>TRUNCATE\<close> calls no trigger that is for each row.\<close>

definition truncate_events :: "unit handler" where
  "truncate_events = extern (\<lambda>w. (Inr (), w\<lparr>db := (db w)\<lparr>walletEvents := []\<rparr>\<rparr>))"

text \<open>Statements one after the other, each with its own replies of the database.\<close>

datatype event_statement =
    InsertEvents "event_row list"
  | UpdateEvents "event_row \<Rightarrow> bool" "event_row \<Rightarrow> event_row"
  | DeleteEvents "event_row \<Rightarrow> bool"

fun run_statement :: "event_statement \<Rightarrow> unit handler" where
  "run_statement (InsertEvents es) = insert_events es"
| "run_statement (UpdateEvents concerned f) = update_events concerned f"
| "run_statement (DeleteEvents concerned) = delete_events concerned"

fun run_statements :: "(reply list \<times> event_statement) list \<Rightarrow> world \<Rightarrow> world" where
  "run_statements [] w = w"
| "run_statements ((rs, x) # xs) w = run_statements xs (snd (run_statement x (w\<lparr>script := rs\<rparr>)))"

text \<open>Through the ORM the subscriber is asked first.\<close>

definition orm_update :: "(event_row \<Rightarrow> bool) \<Rightarrow> (event_row \<Rightarrow> event_row) \<Rightarrow> unit handler" where
  "orm_update concerned f = await beforeUpdate (\<lambda>_. update_events concerned f)"

definition orm_remove :: "(event_row \<Rightarrow> bool) \<Rightarrow> unit handler" where
  "orm_remove concerned = await beforeRemove (\<lambda>_. delete_events concerned)"

lemma orm_refuses:
  "\<exists>e. orm_update concerned f w = (Throw e, w)" "\<exists>e. orm_remove concerned w = (Throw e, w)"
  by (simp_all add: orm_update_def beforeUpdate_def orm_remove_def beforeRemove_def await_def throw_def)

section \<open>What the installation leaves\<close>

definition guarded :: "schema \<Rightarrow> bool" where
  "guarded s \<longleftrightarrow> update_trigger \<in> set (triggers s) \<and> delete_trigger \<in> set (triggers s) \<and>
     trigger_functions s ''prevent_wallet_event_modification'' = Some prevent_wallet_event_modification"

lemma query_Ok: "query f w = (Ok u, w') \<Longrightarrow> Inr (schema w') = f (schema w)"
  by (auto simp: query_def extern_def perform_def split: list.splits reply.splits sum.splits)

lemma query_calm: "calm w \<Longrightarrow> f (schema w) = Inr s \<Longrightarrow> query f w = (Ok (), w\<lparr>schema := s\<rparr>)"
  by (simp add: query_def extern_calm perform_def)

lemma tables_query [step_rules]: "obeys same_tables (query f)"
  unfolding query_def by (rule obeys_extern) (auto simp: same_tables_def split: sum.splits)

lemma tables_installation [step_rules]: "obeys same_tables migration_onModuleInit"
  unfolding migration_onModuleInit_def installEventImmutabilityTriggers_def
  by (intro tables_contract.obeys_control step_rules)

lemma installation_guards:
  assumes "migration_onModuleInit w = (Ok (), w')"
  shows "guarded (schema w')"
proof -
  obtain w1 w2 w3 w4 where q:
    "query (create_or_replace_function ''prevent_wallet_event_modification'' prevent_wallet_event_modification) w = (Ok (), w1)"
    "query (drop_trigger_if_exists ''prevent_wallet_event_update'') w1 = (Ok (), w2)"
    "query (drop_trigger_if_exists ''prevent_wallet_event_delete'') w2 = (Ok (), w3)"
    "query (create_trigger update_trigger) w3 = (Ok (), w4)" "query (create_trigger delete_trigger) w4 = (Ok (), w')"
    using assms unfolding migration_onModuleInit_def installEventImmutabilityTriggers_def
    by (auto simp: try_catch_def await_def throw_def split: prod.splits outcome.splits)
  have s1: "trigger_functions (schema w1) ''prevent_wallet_event_modification'' = Some prevent_wallet_event_modification"
    using query_Ok[OF q(1)] by (auto simp: create_or_replace_function_def)
  have s3: "trigger_functions (schema w3) = trigger_functions (schema w1)"
    using query_Ok[OF q(2)] query_Ok[OF q(3)] by (auto simp: drop_trigger_if_exists_def)
  have s4: "update_trigger \<in> set (triggers (schema w4)) \<and> trigger_functions (schema w4) = trigger_functions (schema w3)"
    using query_Ok[OF q(4)] by (auto simp: create_trigger_def split: if_splits)
  have s5: "set (triggers (schema w')) = insert delete_trigger (set (triggers (schema w4))) \<and>
      trigger_functions (schema w') = trigger_functions (schema w4)"
    using query_Ok[OF q(5)] by (auto simp: create_trigger_def split: if_splits)
  show ?thesis using s1 s3 s4 s5 by (simp add: guarded_def)
qed

lemma fired_Some: "g \<in> set (triggers s) \<Longrightarrow> trigger_functions s (trigger_function g) = Some body \<Longrightarrow>
    body (trigger_on g) = Some e \<Longrightarrow> \<exists>e'. fired s (trigger_on g) = Some e'"
proof -
  assume g: "g \<in> set (triggers s)" "trigger_functions s (trigger_function g) = Some body" "body (trigger_on g) = Some e"
  let ?zs = "filter (\<lambda>z. z \<noteq> None) (map (\<lambda>g'. case trigger_functions s (trigger_function g') of
       Some body \<Rightarrow> body (trigger_on g) | None \<Rightarrow> None) (filter (\<lambda>g'. trigger_on g' = trigger_on g) (triggers s)))"
  have "Some e \<in> set ?zs" using g by force
  then obtain z zs where z: "?zs = z # zs" by (metis empty_iff list.exhaust list.set(1))
  then have "z \<in> set ?zs" by (metis list.set_intros(1))
  then have "z \<noteq> None" by simp
  then show "\<exists>e'. fired s (trigger_on g) = Some e'" unfolding fired_def z by (cases z) simp_all
qed

lemma guarded_fires: "guarded s \<Longrightarrow> \<exists>e. fired s op = Some e"
  using fired_Some[of update_trigger s prevent_wallet_event_modification "immutable_error Updating"]
    fired_Some[of delete_trigger s prevent_wallet_event_modification "immutable_error Deleting"]
  by (cases op) (simp_all add: guarded_def update_trigger_def delete_trigger_def prevent_wallet_event_modification_def)

lemma guarded_change: "guarded (schema w) \<Longrightarrow> db (snd (change_events op concerned change w)) = db w"
  using guarded_fires[of "schema w" op]
  by (auto simp: change_events_def extern_def perform_def split: list.split reply.split)

lemma guarded_refuses:
  "guarded (schema w) \<Longrightarrow> calm w \<Longrightarrow> list_ex concerned (walletEvents (db w)) \<Longrightarrow>
   \<exists>e. change_events op concerned change w = (Throw e, w)"
  using guarded_fires[of "schema w" op] by (auto simp: change_events_def extern_calm perform_def)

lemma guarded_statement:
  assumes "guarded (schema w)"
  shows "\<exists>new. walletEvents (db (snd (run_statement x w))) = walletEvents (db w) @ new \<and> schema (snd (run_statement x w)) = schema w"
proof (cases x)
  case (InsertEvents es)
  then show ?thesis by (auto simp: insert_events_def extern_def perform_def split: list.split reply.split)
next
  case (UpdateEvents concerned f)
  have "schema (snd (change_events Updating concerned g w)) = schema w" for g
    by (auto simp: change_events_def extern_def perform_def split: list.split reply.split option.split)
  then show ?thesis using UpdateEvents guarded_change[OF assms] by (simp add: update_events_def)
next
  case (DeleteEvents concerned)
  have "schema (snd (change_events Deleting concerned g w)) = schema w" for g
    by (auto simp: change_events_def extern_def perform_def split: list.split reply.split option.split)
  then show ?thesis using DeleteEvents guarded_change[OF assms] by (simp add: delete_events_def)
qed

lemma guarded_statements:
  "guarded (schema w) \<Longrightarrow> \<exists>new. walletEvents (db (run_statements xs w)) = walletEvents (db w) @ new"
proof (induction xs arbitrary: w)
  case (Cons y xs)
  obtain rs x where y: "y = (rs, x)" by fastforce
  let ?w = "snd (run_statement x (w\<lparr>script := rs\<rparr>))"
  obtain new where new: "walletEvents (db ?w) = walletEvents (db w) @ new" "schema ?w = schema w"
    using guarded_statement[of "w\<lparr>script := rs\<rparr>" x] Cons.prems by auto
  then obtain more where "walletEvents (db (run_statements xs ?w)) = walletEvents (db ?w) @ more"
    using Cons.IH[of ?w] Cons.prems by auto
  then show ?case using new(1) y by simp
qed simp

text \<open>C14: Once the start-up hook has resolved, whatever happened to its queries, and as long as functions and
  triggers stay as it left them, no sequence of insertions, updates and deletions of any client
  changes or removes a wallet event, whatever fails: the log only grows at its end, and an update or deletion
  that concerns an event is refused. This is about those three statements only: \<open>TRUNCATE\<close>, which
  the repository's own tests run, does not call row triggers and empties the log.\<close>

theorem installed_events_are_immutable:
  assumes "migration_onModuleInit w = (Ok (), w1)" and "schema w2 = schema w1"
  shows "(\<exists>new. walletEvents (db (run_statements xs w2)) = walletEvents (db w2) @ new) \<and>
    (calm w2 \<and> list_ex concerned (walletEvents (db w2)) \<longrightarrow>
      (\<exists>e. update_events concerned f w2 = (Throw e, w2)) \<and> (\<exists>e. delete_events concerned w2 = (Throw e, w2))) \<and>
    (calm w2 \<longrightarrow> truncate_events w2 = (Ok (), w2\<lparr>db := (db w2)\<lparr>walletEvents := []\<rparr>\<rparr>))"
proof -
  have "guarded (schema w2)" using installation_guards[OF assms(1)] assms(2) by simp
  moreover have "calm w2 \<Longrightarrow> truncate_events w2 = (Ok (), w2\<lparr>db := (db w2)\<lparr>walletEvents := []\<rparr>\<rparr>)"
    by (simp add: truncate_events_def extern_calm perform_def)
  ultimately show ?thesis
    using guarded_statements guarded_refuses unfolding update_events_def delete_events_def by blast
qed

lemma installation_calm:
  assumes "calm w"
  shows "\<exists>w'. migration_onModuleInit w = (Ok (), w') \<and> calm w' \<and> guarded (schema w') \<and> db w' = db w \<and>
    filter (\<lambda>g. trigger_name g \<notin> {''prevent_wallet_event_update'', ''prevent_wallet_event_delete''}) (triggers (schema w')) =
    filter (\<lambda>g. trigger_name g \<notin> {''prevent_wallet_event_update'', ''prevent_wallet_event_delete''}) (triggers (schema w))"
proof -
  let ?kept = "filter (\<lambda>g. trigger_name g \<noteq> ''prevent_wallet_event_delete'')
    (filter (\<lambda>g. trigger_name g \<noteq> ''prevent_wallet_event_update'') (triggers (schema w)))"
  let ?s = "\<lparr>trigger_functions = (trigger_functions (schema w))(''prevent_wallet_event_modification'' \<mapsto> prevent_wallet_event_modification),
    triggers = ?kept @ [update_trigger, delete_trigger]\<rparr>"
  let ?f = "(trigger_functions (schema w))(''prevent_wallet_event_modification'' \<mapsto> prevent_wallet_event_modification)"
  have calm: "calm (w\<lparr>schema := s\<rparr>)" for s using assms by (simp add: calm_def)
  have names: "trigger_name update_trigger = ''prevent_wallet_event_update''" "trigger_name delete_trigger = ''prevent_wallet_event_delete''"
      "?f (trigger_function update_trigger) \<noteq> None" "?f (trigger_function delete_trigger) \<noteq> None"
    by (simp_all add: update_trigger_def delete_trigger_def)
  have q1: "query (create_or_replace_function ''prevent_wallet_event_modification'' prevent_wallet_event_modification) w =
      (Ok (), w\<lparr>schema := (schema w)\<lparr>trigger_functions := ?f\<rparr>\<rparr>)"
    by (rule query_calm[OF assms]) (simp add: create_or_replace_function_def)
  have drop: "query (drop_trigger_if_exists n) (w\<lparr>schema := \<lparr>trigger_functions = h, triggers = gs\<rparr>\<rparr>) =
      (Ok (), w\<lparr>schema := \<lparr>trigger_functions = h, triggers = filter (\<lambda>g. trigger_name g \<noteq> n) gs\<rparr>\<rparr>)" for n h gs
    by (subst query_calm[OF calm]) (simp_all add: drop_trigger_if_exists_def)
  have create: "query (create_trigger g) (w\<lparr>schema := \<lparr>trigger_functions = h, triggers = gs\<rparr>\<rparr>) =
      (Ok (), w\<lparr>schema := \<lparr>trigger_functions = h, triggers = gs @ [g]\<rparr>\<rparr>)"
    if "trigger_name g \<notin> set (map trigger_name gs)" "h (trigger_function g) \<noteq> None" for g h gs
    by (subst query_calm[OF calm]) (use that in \<open>auto simp: create_trigger_def\<close>)
  have "(schema w)\<lparr>trigger_functions := ?f\<rparr> = \<lparr>trigger_functions = ?f, triggers = triggers (schema w)\<rparr>" by simp
  note q1 = q1[unfolded this]
  have c1: "query (create_trigger update_trigger) (w\<lparr>schema := \<lparr>trigger_functions = ?f, triggers = ?kept\<rparr>\<rparr>) =
      (Ok (), w\<lparr>schema := \<lparr>trigger_functions = ?f, triggers = ?kept @ [update_trigger]\<rparr>\<rparr>)"
    by (rule create) (use names in auto)
  have c2: "query (create_trigger delete_trigger) (w\<lparr>schema := \<lparr>trigger_functions = ?f, triggers = ?kept @ [update_trigger]\<rparr>\<rparr>) =
      (Ok (), w\<lparr>schema := \<lparr>trigger_functions = ?f, triggers = (?kept @ [update_trigger]) @ [delete_trigger]\<rparr>\<rparr>)"
    by (rule create) (use names in auto)
  have run: "migration_onModuleInit w = (Ok (), w\<lparr>schema := ?s\<rparr>)"
    unfolding migration_onModuleInit_def installEventImmutabilityTriggers_def
    by (rule try_catch_run(1), rule trans[OF await_run(1)], rule q1, rule trans[OF await_run(1)], rule drop,
        rule trans[OF await_run(1)], rule drop, rule trans[OF await_run(1)], rule c1, rule trans[OF c2])
       (simp only: append_assoc append.simps)
  have kept: "filter (\<lambda>g. trigger_name g \<notin> {''prevent_wallet_event_update'', ''prevent_wallet_event_delete''}) (triggers ?s) =
      filter (\<lambda>g. trigger_name g \<notin> {''prevent_wallet_event_update'', ''prevent_wallet_event_delete''}) (triggers (schema w))"
    by (simp add: update_trigger_def delete_trigger_def conj_commute)
  show ?thesis
    by (rule exI[of _ "w\<lparr>schema := ?s\<rparr>"]) (use installation_guards[OF run] kept calm in \<open>simp add: run\<close>)
qed

text \<open>The installation can be repeated: from whatever functions and triggers a start finds, its own of an
  earlier start, half an installation, or those of others, it resolves when every query succeeds,
  leaves both triggers in place, touches no other trigger and no table.\<close>

theorem installation_repeats:
  assumes "calm w"
  shows "\<exists>w'. migration_onModuleInit w = (Ok (), w') \<and> guarded (schema w') \<and> db w' = db w \<and>
    filter (\<lambda>g. trigger_name g \<notin> {''prevent_wallet_event_update'', ''prevent_wallet_event_delete''}) (triggers (schema w')) =
    filter (\<lambda>g. trigger_name g \<notin> {''prevent_wallet_event_update'', ''prevent_wallet_event_delete''}) (triggers (schema w))"
  using installation_calm[OF assms] by blast

section \<open>A start that is cut short\<close>

definition own_triggers :: schema where
  "own_triggers = \<lparr>trigger_functions = [''prevent_wallet_event_modification'' \<mapsto> prevent_wallet_event_modification],
     triggers = [update_trigger, delete_trigger]\<rparr>"

text \<open>C40: The triggers are dropped before they are created again, in queries of their own. When a process dies in
  between, or is still at it, the table that an earlier start had protected is open: an update that was
  refused before goes through.\<close>

theorem interrupted_installation_unprotects:
  assumes "schema w = own_triggers" and "script w = [Ack a, Ack b, Ack c, Die False]" and "list_ex concerned (walletEvents (db w))"
  shows "\<exists>w'. migration_onModuleInit w = (Crash, w') \<and> calm w' \<and>
    (\<exists>e. update_events concerned f (w\<lparr>script := []\<rparr>) = (Throw e, w\<lparr>script := []\<rparr>)) \<and>
    update_events concerned f w' = (Ok (), w'\<lparr>db := (db w)\<lparr>walletEvents := map (\<lambda>e. if concerned e then f e else e) (walletEvents (db w))\<rparr>\<rparr>)"
proof -
  have before: "\<exists>e. update_events concerned f (w\<lparr>script := []\<rparr>) = (Throw e, w\<lparr>script := []\<rparr>)"
    unfolding update_events_def
    by (rule guarded_refuses) (use assms in \<open>auto simp: guarded_def own_triggers_def calm_def\<close>)
  let ?w = "w\<lparr>script := [], clock := clock w + int a + int b + int c, schema := own_triggers\<lparr>triggers := []\<rparr>\<rparr>"
  have "migration_onModuleInit w = (Crash, ?w)"
    unfolding migration_onModuleInit_def installEventImmutabilityTriggers_def query_def
    using assms(1,2)
    by (simp add: try_catch_def await_def extern_def perform_def create_or_replace_function_def drop_trigger_if_exists_def
        own_triggers_def update_trigger_def delete_trigger_def)
  moreover have "update_events concerned f ?w =
      (Ok (), ?w\<lparr>db := (db w)\<lparr>walletEvents := map (\<lambda>e. if concerned e then f e else e) (walletEvents (db w))\<rparr>\<rparr>)"
    using assms(3) by (simp add: update_events_def change_events_def extern_calm perform_def fired_def calm_def)
  moreover have "calm ?w" by (simp add: calm_def)
  ultimately show ?thesis using before by blast
qed

section \<open>Concrete cases\<close>

definition event_tables :: tables where
  "event_tables = empty_tables\<lparr>walletEvents := [\<lparr>log_id = 1, log_walletId = ''a'', log_type = FUNDS_DEPOSITED, log_currency = ''USD'',
     log_amount = Some (Cents 100), log_metadata = JNull, log_createdAt = 0\<rparr>]\<rparr>"

definition forged :: "event_row \<Rightarrow> event_row" where
  "forged e = e\<lparr>log_amount := Some (Cents 99900)\<rparr>"

definition starting_world :: world where
  "starting_world = new_world event_tables 0 [Ack 3, Ack 5]"

theorem installed_events_are_immutable_witness:
  "\<exists>w'. migration_onModuleInit starting_world = (Ok (), w') \<and> db w' = event_tables \<and>
    (\<exists>new. walletEvents (db (run_statements [([], UpdateEvents (\<lambda>e. log_id e = 1) forged), ([Ack 2], InsertEvents []),
       ([Die True], DeleteEvents (\<lambda>e. True))] w')) = walletEvents event_tables @ new) \<and>
    (\<exists>e. delete_events (\<lambda>e. log_walletId e = ''a'') w' = (Throw e, w'))"
proof -
  obtain w' where run: "migration_onModuleInit starting_world = (Ok (), w')"
    by (simp add: starting_world_def new_world_def no_triggers_def migration_onModuleInit_def installEventImmutabilityTriggers_def
        query_def try_catch_def await_def extern_def perform_def create_or_replace_function_def drop_trigger_if_exists_def
        create_trigger_def update_trigger_def delete_trigger_def)
  have calm: "calm w'"
    using run
    by (auto simp: starting_world_def new_world_def no_triggers_def migration_onModuleInit_def installEventImmutabilityTriggers_def
        query_def try_catch_def await_def extern_def perform_def create_or_replace_function_def drop_trigger_if_exists_def
        create_trigger_def update_trigger_def delete_trigger_def calm_def)
  have "db w' = event_tables"
    using obeysD[OF tables_installation run] by (simp add: same_tables_def starting_world_def new_world_def)
  then show ?thesis
    using installed_events_are_immutable[OF run refl, of "[([], UpdateEvents (\<lambda>e. log_id e = 1) forged), ([Ack 2], InsertEvents []),
       ([Die True], DeleteEvents (\<lambda>e. True))]" "\<lambda>e. log_walletId e = ''a''" forged] calm run
    by (simp add: event_tables_def)
qed

theorem installation_repeats_witness:
  "\<exists>w'. migration_onModuleInit (new_world event_tables 0 []\<lparr>schema := own_triggers\<lparr>triggers := [delete_trigger]\<rparr>\<rparr>) = (Ok (), w') \<and>
    guarded (schema w')"
  using installation_repeats[of "new_world event_tables 0 []\<lparr>schema := own_triggers\<lparr>triggers := [delete_trigger]\<rparr>\<rparr>"]
  by (auto simp: calm_def new_world_def)

theorem interrupted_installation_unprotects_witness:
  "\<exists>w'. migration_onModuleInit (new_world event_tables 0 [Ack 1, Ack 1, Ack 1, Die False]\<lparr>schema := own_triggers\<rparr>) = (Crash, w') \<and>
    walletEvents (db (snd (update_events (\<lambda>e. log_id e = 1) forged w'))) = map forged (walletEvents event_tables)"
proof -
  let ?w = "new_world event_tables 0 [Ack 1, Ack 1, Ack 1, Die False]\<lparr>schema := own_triggers\<rparr>"
  have "schema ?w = own_triggers" "script ?w = [Ack 1, Ack 1, Ack 1, Die False]"
      "list_ex (\<lambda>e. log_id e = 1) (walletEvents (db ?w))" and db: "db ?w = event_tables"
    by (simp_all add: new_world_def event_tables_def)
  from interrupted_installation_unprotects[OF this(1-3), of forged]
  show ?thesis unfolding db by (auto simp: event_tables_def forged_def)
qed

end
