(* ===== verification/Settings.thy ===== *)
theory Settings imports EventPublisher
begin

text \<open>
  The settings of the service: \<open>src/config/app-config.service.ts\<close> over the variables of the
  environment, what \<open>Number\<close> makes of their texts, and the options of the data source, of Redis and of
  the broker that \<open>src/app.module.ts\<close>, \<open>src/worker.module.ts\<close> and the modules of
  \<open>src/infrastructure\<close> build from them.

  The services read the settings through \<open>app_config\<close>; \<open>configures E C\<close> says that the environment
  \<open>E\<close> stands for the configuration \<open>C\<close>.
\<close>

section \<open>Reading numbers\<close>

text \<open>\<open>Number(s)\<close> for a text: spaces around it are ignored and the empty text is zero.\<close>

definition js_space :: "char \<Rightarrow> bool" where
  "js_space c \<longleftrightarrow> (of_char c :: nat) \<in> {9, 10, 11, 12, 13, 32, 160}"

definition js_trim :: "string \<Rightarrow> string" where
  "js_trim s = rev (dropWhile js_space (rev (dropWhile js_space s)))"

text \<open>The value of a digit; 16 for what is none.\<close>

definition digit_of :: "char \<Rightarrow> nat" where
  "digit_of c = (let n = of_char c in
     if 48 \<le> n \<and> n \<le> 57 then n - 48 else if 97 \<le> n \<and> n \<le> 102 then n - 87
     else if 65 \<le> n \<and> n \<le> 70 then n - 55 else 16)"

definition digits_nat :: "nat \<Rightarrow> string \<Rightarrow> nat" where
  "digits_nat radix ds = foldl (\<lambda>v c. radix * v + digit_of c) 0 ds"

definition all_digits :: "nat \<Rightarrow> string \<Rightarrow> bool" where
  "all_digits radix s \<longleftrightarrow> s \<noteq> [] \<and> list_all (\<lambda>c. digit_of c < radix) s"

definition signed :: "string \<Rightarrow> bool \<times> string" where
  "signed s = (if take 1 s = ''-'' then (True, drop 1 s) else if take 1 s = ''+'' then (False, drop 1 s) else (False, s))"

definition exponent_part :: "string \<Rightarrow> int option" where
  "exponent_part s = (case s of
     [] \<Rightarrow> Some 0
   | c # r \<Rightarrow> if c \<in> {CHR ''e'', CHR ''E''} \<and> all_digits 10 (snd (signed r))
       then Some ((if fst (signed r) then - 1 else 1) * int (digits_nat 10 (snd (signed r)))) else None)"

definition unsigned_decimal :: "string \<Rightarrow> rat option" where
  "unsigned_decimal s =
     (let whole = takeWhile (\<lambda>c. digit_of c < 10) s; rest = dropWhile (\<lambda>c. digit_of c < 10) s;
          (fraction, end_part) = (if take 1 rest = ''.''
            then (takeWhile (\<lambda>c. digit_of c < 10) (drop 1 rest), dropWhile (\<lambda>c. digit_of c < 10) (drop 1 rest))
            else ([], rest))
      in if whole = [] \<and> fraction = [] then None
         else map_option (\<lambda>e. of_nat (digits_nat 10 (whole @ fraction)) * 10 powi (e - int (length fraction)))
           (exponent_part end_part))"

definition radix_literal :: "nat \<Rightarrow> string \<Rightarrow> number" where
  "radix_literal radix s = (if all_digits radix s then to_number (of_nat (digits_nat radix s)) else NaN)"

definition js_Number :: "string \<Rightarrow> number" where
  "js_Number s =
     (let t = js_trim s in
      if t = [] then Fin 0
      else if take 2 t \<in> {''0x'', ''0X''} then radix_literal 16 (drop 2 t)
      else if take 2 t \<in> {''0o'', ''0O''} then radix_literal 8 (drop 2 t)
      else if take 2 t \<in> {''0b'', ''0B''} then radix_literal 2 (drop 2 t)
      else let (negative, u) = signed t in
        if u = ''Infinity'' then (if negative then NegInf else PosInf)
        else case unsigned_decimal u of None \<Rightarrow> NaN | Some x \<Rightarrow> to_number (if negative then - x else x))"

section \<open>The environment\<close>

type_synonym environment = "string \<Rightarrow> string option"

definition missing_setting :: "string \<Rightarrow> error" where
  "missing_setting key = PlainError (''Configuration key \"'' @ key @ ''\" does not exist'')"

definition getOrThrow :: "environment \<Rightarrow> string \<Rightarrow> error + string" where
  "getOrThrow E key = (case E key of None \<Rightarrow> Inl (missing_setting key) | Some s \<Rightarrow> Inr s)"

definition text_setting :: "environment \<Rightarrow> string \<Rightarrow> string \<Rightarrow> string" where
  "text_setting E key d = (case E key of None \<Rightarrow> d | Some s \<Rightarrow> s)"

definition number_setting :: "environment \<Rightarrow> string \<Rightarrow> nat \<Rightarrow> number" where
  "number_setting E key d = (case E key of None \<Rightarrow> Fin (of_nat d) | Some s \<Rightarrow> js_Number s)"

definition get_port :: "environment \<Rightarrow> number" where
  "get_port E = number_setting E ''PORT'' 3000"

definition get_nodeEnv :: "environment \<Rightarrow> string" where
  "get_nodeEnv E = text_setting E ''NODE_ENV'' ''development''"

definition get_databaseHost :: "environment \<Rightarrow> error + string" where
  "get_databaseHost E = getOrThrow E ''DATABASE_HOST''"

definition get_databasePort :: "environment \<Rightarrow> number" where
  "get_databasePort E = number_setting E ''DATABASE_PORT'' 5432"

definition get_databaseUser :: "environment \<Rightarrow> error + string" where
  "get_databaseUser E = getOrThrow E ''DATABASE_USER''"

definition get_databasePassword :: "environment \<Rightarrow> error + string" where
  "get_databasePassword E = getOrThrow E ''DATABASE_PASSWORD''"

definition get_databaseName :: "environment \<Rightarrow> error + string" where
  "get_databaseName E = getOrThrow E ''DATABASE_NAME''"

definition get_databaseReadHost :: "environment \<Rightarrow> string option" where
  "get_databaseReadHost E = E ''DATABASE_READ_HOST''"

definition get_rabbitMqUrl :: "environment \<Rightarrow> string" where
  "get_rabbitMqUrl E =
     (if given (E ''RABBITMQ_URL'') then the (E ''RABBITMQ_URL'')
      else ''amqp://'' @ text_setting E ''RABBITMQ_USER'' ''wallet'' @ '':'' @ text_setting E ''RABBITMQ_PASS'' ''wallet'' @
        ''@'' @ text_setting E ''RABBITMQ_HOST'' ''localhost'' @ '':'' @ number_text (number_setting E ''RABBITMQ_PORT'' 5672))"

definition get_rabbitMqExchange :: "environment \<Rightarrow> string" where
  "get_rabbitMqExchange E = text_setting E ''RABBITMQ_EXCHANGE'' ''wallet_events''"

definition get_fraudDetectionQueue :: "environment \<Rightarrow> string" where
  "get_fraudDetectionQueue E = text_setting E ''RABBITMQ_QUEUE_FRAUD_DETECTION'' ''fraud_detection''"

definition get_redisHost :: "environment \<Rightarrow> string" where
  "get_redisHost E = text_setting E ''REDIS_HOST'' ''localhost''"

definition get_redisPort :: "environment \<Rightarrow> number" where
  "get_redisPort E = number_setting E ''REDIS_PORT'' 6379"

definition get_maxRetries :: "environment \<Rightarrow> number" where
  "get_maxRetries E = number_setting E ''MAX_RETRIES'' 10"

definition get_initialBackoffMs :: "environment \<Rightarrow> number" where
  "get_initialBackoffMs E = number_setting E ''INITIAL_BACKOFF_MS'' 50"

definition get_fraudDetectionThreshold :: "environment \<Rightarrow> number" where
  "get_fraudDetectionThreshold E = number_setting E ''FRAUD_DETECTION_THRESHOLD'' 10000"

definition get_fraudDetectionMaxWithdrawals :: "environment \<Rightarrow> number" where
  "get_fraudDetectionMaxWithdrawals E = number_setting E ''FRAUD_DETECTION_MAX_WITHDRAWALS'' 3"

definition get_fraudDetectionTimeWindowMinutes :: "environment \<Rightarrow> number" where
  "get_fraudDetectionTimeWindowMinutes E = number_setting E ''FRAUD_DETECTION_TIME_WINDOW_MINUTES'' 5"

definition get_sagaStuckThreshold :: "environment \<Rightarrow> number" where
  "get_sagaStuckThreshold E = number_setting E ''SAGA_STUCK_THRESHOLD'' 60000"

definition configures :: "environment \<Rightarrow> app_config \<Rightarrow> bool" where
  "configures E C \<longleftrightarrow> get_rabbitMqExchange E = rabbitMqExchange C \<and> get_fraudDetectionQueue E = fraudDetectionQueue C \<and>
     get_maxRetries E = Fin (of_nat (maxRetries C)) \<and> get_initialBackoffMs E = Fin (of_nat (initialBackoffMs C)) \<and>
     get_sagaStuckThreshold E = Fin (of_nat (sagaStuckThreshold C)) \<and>
     get_fraudDetectionThreshold E = Fin (of_nat (fraudDetectionThreshold C)) \<and>
     get_fraudDetectionMaxWithdrawals E = Fin (of_nat (fraudDetectionMaxWithdrawals C)) \<and>
     get_fraudDetectionTimeWindowMinutes E = Fin (of_nat (fraudDetectionTimeWindowMinutes C))"

section \<open>Options of connections\<close>

record connection_options =
  host :: string
  connection_port :: number
  username :: string
  password :: string
  database :: string

datatype data_source = Single connection_options | Replication connection_options "connection_options list"

record data_source_options =
  entities :: "string list"
  synchronize :: bool
  subscribers :: "string list"
  data_source :: data_source

text \<open>The settings of one server, read in this order; the first that is missing is thrown.\<close>

definition server :: "environment \<Rightarrow> error + string \<Rightarrow> error + connection_options" where
  "server E hostname =
     check hostname (\<lambda>h. check (get_databaseUser E) (\<lambda>u. check (get_databasePassword E) (\<lambda>p. check (get_databaseName E) (\<lambda>d.
     Inr \<lparr>host = h, connection_port = get_databasePort E, username = u, password = p, database = d\<rparr>))))"

definition app_data_source :: "environment \<Rightarrow> error + data_source_options" where
  "app_data_source E =
     check (if given (get_databaseReadHost E)
       then check (server E (get_databaseHost E)) (\<lambda>master.
            check (server E (Inr (the (get_databaseReadHost E)))) (\<lambda>slave. Inr (Replication master [slave])))
       else check (server E (get_databaseHost E)) (\<lambda>s. Inr (Single s))) (\<lambda>s.
     Inr \<lparr>entities = [''Wallet'', ''WalletEvent'', ''IdempotencyKey'', ''TransferSaga'', ''FraudAlert'', ''OutboxEvent''],
       synchronize = (get_nodeEnv E \<noteq> ''production''), subscribers = [''WalletEventSubscriber''], data_source = s\<rparr>)"

definition worker_data_source :: "environment \<Rightarrow> error + data_source_options" where
  "worker_data_source E =
     check (server E (get_databaseHost E)) (\<lambda>s.
     Inr \<lparr>entities = [''Wallet'', ''WalletEvent'', ''IdempotencyKey'', ''TransferSaga'', ''FraudAlert''],
       synchronize = (get_nodeEnv E \<noteq> ''production''), subscribers = [], data_source = Single s\<rparr>)"

definition redis_options :: "environment \<Rightarrow> string \<times> number" where
  "redis_options E = (get_redisHost E, get_redisPort E)"

definition broker_urls :: "environment \<Rightarrow> string list" where
  "broker_urls E = [get_rabbitMqUrl E]"

text \<open>Where statements that write go.\<close>

fun writer :: "data_source \<Rightarrow> connection_options" where
  "writer (Single s) = s"
| "writer (Replication master slaves) = master"

section \<open>A setting is read as it was written\<close>

lemma digit_chars:
  assumes "c \<in> set ''0123456789''"
  shows "\<not> js_space c" "digit_of c < 10"
  using assms unfolding list.set by (elim insertE emptyE; simp add: js_space_def digit_of_def of_char_def)+

lemma not_digits: "10 \<le> digit_of CHR ''-''" "10 \<le> digit_of CHR ''+''" "10 \<le> digit_of CHR ''x''" "10 \<le> digit_of CHR ''X''"
  "10 \<le> digit_of CHR ''o''" "10 \<le> digit_of CHR ''O''" "10 \<le> digit_of CHR ''b''" "10 \<le> digit_of CHR ''B''"
  "10 \<le> digit_of CHR ''I''"
  by (simp_all add: digit_of_def of_char_def)

lemma digit_of_digit: "k < 10 \<Longrightarrow> digit_of (''0123456789'' ! k) = k"
proof -
  assume "k < 10"
  then have "k \<in> {0,1,2,3,4,5,6,7,8,9}" by auto
  then show ?thesis by (elim insertE emptyE) (simp_all add: digit_of_def of_char_def)
qed

lemma digits_nat_text: "digits_nat 10 (nat_text n) = n"
  by (simp add: digits_nat_def nat_text_value digit_of_digit)

lemma js_Number_digits:
  assumes "s \<noteq> []" "\<And>c. c \<in> set s \<Longrightarrow> c \<in> set ''0123456789''" "digits_nat 10 s \<le> 2 ^ 53"
  shows "js_Number s = Fin (of_nat (digits_nat 10 s))"
proof -
  have sp: "\<not> js_space x" and dig: "digit_of x < 10" if "x \<in> set s" for x
    by (rule digit_chars[OF assms(2)[OF that]])+
  have other: "x \<notin> set s" if "10 \<le> digit_of x" for x
    using dig[of x] that by auto
  have trim: "js_trim s = s"
  proof -
    have "dropWhile js_space s = s" "dropWhile js_space (rev s) = rev s"
      using sp[of "hd s"] sp[of "hd (rev s)"] hd_in_set[of s] hd_in_set[of "rev s"] assms(1)
      by (simp_all add: dropWhile_eq_self_iff)
    then show ?thesis by (simp add: js_trim_def)
  qed
  have prefix: "take 2 s \<notin> {[CHR ''0'', x], [CHR ''0'', y]}" if "x \<notin> set s" "y \<notin> set s" for x y
    using that by (cases s; cases "tl s") auto
  have radix: "take 2 s \<notin> {''0x'', ''0X''}" "take 2 s \<notin> {''0o'', ''0O''}" "take 2 s \<notin> {''0b'', ''0B''}"
    by (rule prefix; rule other, rule not_digits)+
  obtain a r where s: "s = a # r" using assms(1) by (cases s) auto
  have "a \<noteq> CHR ''-''" "a \<noteq> CHR ''+''" using other[OF not_digits(1)] other[OF not_digits(2)] s by auto
  then have sign: "signed s = (False, s)" by (simp add: s signed_def)
  have "s \<noteq> ''Infinity''" using other[OF not_digits(9)] by auto
  moreover have whole: "takeWhile (\<lambda>c. digit_of c < 10) s = s" "dropWhile (\<lambda>c. digit_of c < 10) s = []"
    using dig by (simp_all add: takeWhile_eq_all_conv)
  have "unsigned_decimal s = Some (of_nat (digits_nat 10 s))"
    using assms(1) unfolding unsigned_decimal_def whole by (simp add: exponent_part_def)
  moreover have "to_number (of_nat (digits_nat 10 s)) = Fin (of_nat (digits_nat 10 s))"
  proof (rule to_number_double)
    have i: "\<bar>int (digits_nat 10 s)\<bar> \<le> 2 ^ 53" using assms(3) by (simp add: nat_le_iff flip: of_nat_power)
    show "round_double (of_nat (digits_nat 10 s)) = of_nat (digits_nat 10 s)"
      using round_double_of_int[OF i] by simp
    have "(of_nat (digits_nat 10 s) :: rat) \<le> 2 ^ 53" using assms(3) by (simp flip: of_nat_power of_nat_le_iff)
    also have "\<dots> < 2 ^ 1024" by (rule power_strict_increasing) simp_all
    finally show "\<bar>of_nat (digits_nat 10 s) :: rat\<bar> < 2 ^ 1024" by simp
  qed
  ultimately show ?thesis
    using assms(1) radix by (simp add: js_Number_def trim sign Let_def)
qed

lemma js_Number_nat_text: "n \<le> 2 ^ 53 \<Longrightarrow> js_Number (nat_text n) = Fin (of_nat n)"
  using js_Number_digits[of "nat_text n", OF nat_text_nonempty subsetD[OF nat_text_set[of n]]] by (simp only: digits_nat_text)

definition environment_of :: "app_config \<Rightarrow> environment" where
  "environment_of C = [''RABBITMQ_EXCHANGE'' \<mapsto> rabbitMqExchange C, ''RABBITMQ_QUEUE_FRAUD_DETECTION'' \<mapsto> fraudDetectionQueue C,
     ''MAX_RETRIES'' \<mapsto> nat_text (maxRetries C), ''INITIAL_BACKOFF_MS'' \<mapsto> nat_text (initialBackoffMs C),
     ''SAGA_STUCK_THRESHOLD'' \<mapsto> nat_text (sagaStuckThreshold C),
     ''FRAUD_DETECTION_THRESHOLD'' \<mapsto> nat_text (fraudDetectionThreshold C),
     ''FRAUD_DETECTION_MAX_WITHDRAWALS'' \<mapsto> nat_text (fraudDetectionMaxWithdrawals C),
     ''FRAUD_DETECTION_TIME_WINDOW_MINUTES'' \<mapsto> nat_text (fraudDetectionTimeWindowMinutes C)]"

lemmas settings = get_rabbitMqExchange_def get_fraudDetectionQueue_def get_maxRetries_def get_initialBackoffMs_def
  get_sagaStuckThreshold_def get_fraudDetectionThreshold_def get_fraudDetectionMaxWithdrawals_def
  get_fraudDetectionTimeWindowMinutes_def text_setting_def number_setting_def

text \<open>C21: A configuration written into the environment, its numbers as decimal texts, is read back as it was; and
  the empty environment stands for the defaults.\<close>

theorem configuration_roundtrip:
  assumes "\<forall>n \<in> {maxRetries C, initialBackoffMs C, sagaStuckThreshold C, fraudDetectionThreshold C,
      fraudDetectionMaxWithdrawals C, fraudDetectionTimeWindowMinutes C}. n \<le> 2 ^ 53"
  shows "configures (environment_of C) C \<and> configures Map.empty default_config"
  using assms by (simp add: configures_def settings environment_of_def js_Number_nat_text default_config_def)

theorem configuration_roundtrip_witness:
  "configures (environment_of (default_config\<lparr>maxRetries := 3, rabbitMqExchange := ''events''\<rparr>))
     (default_config\<lparr>maxRetries := 3, rabbitMqExchange := ''events''\<rparr>)"
  using configuration_roundtrip[of "default_config\<lparr>maxRetries := 3, rabbitMqExchange := ''events''\<rparr>"]
  by (simp add: default_config_def)

section \<open>Both processes use one database\<close>

definition required :: "string set" where
  "required = {''DATABASE_HOST'', ''DATABASE_USER'', ''DATABASE_PASSWORD'', ''DATABASE_NAME''}"

lemma server_Inr: "server E (Inr h) = Inr s \<longleftrightarrow> (\<exists>u p d. E ''DATABASE_USER'' = Some u \<and> E ''DATABASE_PASSWORD'' = Some p \<and>
    E ''DATABASE_NAME'' = Some d \<and>
    s = \<lparr>host = h, connection_port = get_databasePort E, username = u, password = p, database = d\<rparr>)"
  by (auto simp: server_def get_databaseUser_def get_databasePassword_def get_databaseName_def getOrThrow_def split: option.splits)

lemma server_host: "server E (get_databaseHost E) = Inr s \<longleftrightarrow>
    (\<exists>h. E ''DATABASE_HOST'' = Some h \<and> server E (Inr h) = Inr s)"
  by (auto simp: server_def get_databaseHost_def getOrThrow_def split: option.splits)

text \<open>C22: The service and the worker start with the same settings, the four of the database that have no default,
  and then write to the same server and database under the same account, whether or not reads go to a
  replica; both change the schema by themselves unless in production.\<close>

theorem processes_share_database:
  "((\<exists>o1. app_data_source E = Inr o1) \<longleftrightarrow> required \<subseteq> dom E) \<and>
   ((\<exists>o2. worker_data_source E = Inr o2) \<longleftrightarrow> required \<subseteq> dom E) \<and>
   (\<forall>o1 o2. app_data_source E = Inr o1 \<and> worker_data_source E = Inr o2 \<longrightarrow>
     writer (data_source o1) = writer (data_source o2) \<and> synchronize o1 = synchronize o2 \<and>
     set (entities o2) \<subseteq> set (entities o1))"
proof -
  have d: "required \<subseteq> dom E \<longleftrightarrow> (\<exists>h. E ''DATABASE_HOST'' = Some h) \<and> (\<exists>h. E ''DATABASE_USER'' = Some h) \<and>
      (\<exists>h. E ''DATABASE_PASSWORD'' = Some h) \<and> (\<exists>h. E ''DATABASE_NAME'' = Some h)"
    by (auto simp: required_def domIff)
  have "(\<exists>o1. app_data_source E = Inr o1) \<longleftrightarrow> required \<subseteq> dom E"
    unfolding d app_data_source_def by (auto simp: check_Inr server_host server_Inr)
  moreover have "(\<exists>o2. worker_data_source E = Inr o2) \<longleftrightarrow> required \<subseteq> dom E"
    unfolding d worker_data_source_def by (auto simp: check_Inr server_host server_Inr)
  moreover have "\<forall>o1 o2. app_data_source E = Inr o1 \<and> worker_data_source E = Inr o2 \<longrightarrow>
     writer (data_source o1) = writer (data_source o2) \<and> synchronize o1 = synchronize o2 \<and> set (entities o2) \<subseteq> set (entities o1)"
    unfolding app_data_source_def worker_data_source_def
    by (auto simp: check_Inr server_host server_Inr split: if_splits)
  ultimately show ?thesis by blast
qed

theorem processes_share_database_witness:
  "\<exists>s. app_data_source [''DATABASE_HOST'' \<mapsto> ''db'', ''DATABASE_USER'' \<mapsto> ''u'', ''DATABASE_PASSWORD'' \<mapsto> ''p'',
      ''DATABASE_NAME'' \<mapsto> ''w'', ''DATABASE_READ_HOST'' \<mapsto> ''replica''] = Inr s \<and> host (writer (data_source s)) = ''db''"
proof -
  let ?E = "[''DATABASE_HOST'' \<mapsto> ''db'', ''DATABASE_USER'' \<mapsto> ''u'', ''DATABASE_PASSWORD'' \<mapsto> ''p'',
      ''DATABASE_NAME'' \<mapsto> ''w'', ''DATABASE_READ_HOST'' \<mapsto> ''replica'']"
  have "required \<subseteq> dom ?E" by (auto simp: required_def)
  moreover have "worker_data_source ?E = Inr o2 \<Longrightarrow> host (writer (data_source o2)) = ''db''" for o2
    by (auto simp: worker_data_source_def check_Inr server_host server_Inr)
  ultimately show ?thesis
    using processes_share_database[of ?E] by metis
qed

end
