(* ===== verification/Pipeline.thy ===== *)
theory Pipeline imports OutboxRelay FraudDetection
begin

text \<open>
  The way of an event through the system: the start of the publisher
  (\<open>onModuleInit\<close>, \<open>connect\<close> and \<open>close\<close> of
  \<open>src/infrastructure/messaging/event-publisher.service.ts\<close>), the request that commits the
  event with its outbox row, the relay that publishes it, the queue it is routed to, and the fraud
  consumer that handles it.

  A relay without a channel keeps every event (\<open>unconnected_relay_keeps_events\<close>), and a
  withdrawal above the threshold is flagged in the end (\<open>large_withdrawal_is_flagged\<close>).
\<close>

section \<open>The start of the publisher\<close>

text \<open>
  The channel wrapper is there as soon as \<open>createChannel\<close> returns; waiting for the connection
  can fail afterwards, which \<open>onModuleInit\<close> only logs. What the setup function declares once the
  broker is reached is a topology step like those of the consumer.
\<close>

definition publisher_setup :: "app_config \<Rightarrow> topology_step list" where
  "publisher_setup C = [AssertExchange (rabbitMqExchange C) ''topic'']"

definition publisher_connect :: "unit handler" where
  "publisher_connect =
     await (modify (\<lambda>w. w\<lparr>publisherConnected := True\<rparr>)) (\<lambda>_.
     extern (\<lambda>w. (Inr (), w)))"

definition publisher_onModuleInit :: "unit handler" where
  "publisher_onModuleInit = try_catch publisher_connect (\<lambda>_. ret ())"

text \<open>Closing keeps the reference to the wrapper; the connection is not the publisher's.\<close>

definition publisher_close :: "unit handler" where
  "publisher_close = await get_state (\<lambda>w. run_if (publisherConnected w) (extern (\<lambda>w. (Inr (), w))))"

lemma publisher_starts:
  "publisher_onModuleInit w = (r, w') \<Longrightarrow> publisherConnected w' \<and> (r = Ok () \<or> r = Crash) \<and>
    db w' = db w \<and> redis w' = redis w \<and> isProcessing w' = isProcessing w"
  by (auto simp: publisher_onModuleInit_def publisher_connect_def try_catch_def await_def modify_def ret_def extern_def
      perform_def split: list.splits reply.splits prod.splits if_splits)

text \<open>The exchange the publisher declares is one the consumer declares too, with the same type.\<close>

lemma publisher_setup_agrees: "set (publisher_setup C) \<subseteq> set (setupTopology C)"
  by (simp add: publisher_setup_def setupTopology_def Let_def)

section \<open>Without a channel\<close>

definition unsent :: "world \<Rightarrow> world \<Rightarrow> bool" where
  "unsent w w' \<longleftrightarrow> (\<not> publisherConnected w \<longrightarrow> \<not> publisherConnected w' \<and> db w' = db w \<and> broker w' = broker w)"

interpretation unsent_contract: step_contract unsent
  by unfold_locales (auto simp: unsent_def)

lemma unsent_extern: "(\<And>w. unsent w (snd (call w))) \<Longrightarrow> obeys unsent (extern call)"
  by (rule obeys_extern) (auto simp: unsent_def)

lemma unsent_redis: "obeys unsent (redis_set_ex_nx k v n)" "obeys unsent (redis_del k)"
  unfolding redis_set_ex_nx_def redis_del_def by (rule unsent_extern; simp add: unsent_def)+

lemma unsent_flag: "obeys unsent (set_processing b)"
  by (simp add: set_processing_def obeys_def modify_def unsent_def)

lemma unsent_publish: "\<not> publisherConnected w \<Longrightarrow> publish C e w = (Throw (PlainError ''EventPublisher not connected''), w)"
  by (simp add: publish_def run_simps)

lemma unsent_loop: "\<not> publisherConnected w \<Longrightarrow> relay_loop C events ids w = (Ok ids, w)"
  by (induction events) (simp_all add: run_simps unsent_publish)

lemma unsent_find: "obeys unsent (findUnpublished n)"
  unfolding findUnpublished_def repository_sql_def
  by (rule unsent_extern) (auto simp: unsent_def in_db_def reading_def)

lemma unsent_rest: "obeys unsent (await (relay_loop C events []) (\<lambda>ids. run_if (ids \<noteq> []) (markAsPublished ids)))"
proof -
  have "unsent w (snd (await (relay_loop C events []) (\<lambda>ids. run_if (ids \<noteq> []) (markAsPublished ids)) w))" for w
    by (cases "publisherConnected w") (simp_all add: unsent_def await_run unsent_loop run_if_def ret_run)
  then show ?thesis by (simp add: obeys_def)
qed

lemma unsent_body: "obeys unsent (relay_body C)"
  unfolding relay_body_def
  by (rule unsent_contract.obeys_await unsent_flag unsent_find unsent_contract.obeys_if unsent_contract.obeys_ret unsent_rest)+

text \<open>While the publisher has no channel, the relay changes neither the tables nor what the broker has,
  under every script: no event is marked as published, so none is lost.\<close>

theorem unconnected_relay_keeps_events:
  assumes "\<not> publisherConnected w" and "handleCron C w = (r, w')"
  shows "db w' = db w \<and> broker w' = broker w"
proof -
  have o: "obeys unsent (handleCron C)"
    unfolding handleCron_def
    by (intro unsent_contract.obeys_control unsent_body unsent_flag unsent_redis)
  show ?thesis using obeysD[OF o assms(2)] assms(1) by (simp add: unsent_def)
qed

section \<open>From a withdrawal to an alert\<close>

text \<open>What the consumer is handed of a message the broker took: the body is text on the way.\<close>

definition handed :: "string \<times> string \<times> json \<Rightarrow> amqp_message" where
  "handed m = \<lparr>content = Some (jsonb (snd (snd m))), routing_key = Some (fst (snd m)), retry_count = None\<rparr>"

text \<open>The broker copies a message to the consumer's queue when a binding of its exchange names its key.\<close>

definition reaches_consumer :: "app_config \<Rightarrow> string \<times> string \<times> json \<Rightarrow> bool" where
  "reaches_consumer C m \<longleftrightarrow> BindQueue (fraudDetectionQueue C) (fst m) (fst (snd m)) \<in> set (setupTopology C)"

definition high_value_alert :: "app_config \<Rightarrow> string \<Rightarrow> int \<Rightarrow> fraud_alert" where
  "high_value_alert C i k = \<lparr>alert_walletId = i, alertType = ''high_value_transaction'',
     alert_details = JObj [(''amount'', JNum (amount_of k)), (''threshold'', JNum (Fin (of_nat (fraudDetectionThreshold C))))]\<rparr>"

definition withdrawal_payload :: "string \<Rightarrow> int \<Rightarrow> string option \<Rightarrow> int \<Rightarrow> json" where
  "withdrawal_payload i k rid now =
     jsonb (money_payload FUNDS_WITHDRAWN i (amount_of k) (JObj [(''requestId'', js_option JStr rid)]) now)"

lemma amount_finite: "\<bar>k\<bar> \<le> 10 ^ 15 \<Longrightarrow> \<exists>x. amount_of k = Fin x"
  by (simp add: amount_of_def decimal_from_cents del: decimal_from.simps)

lemma withdrawal_payload_properties:
  assumes "\<bar>k\<bar> \<le> 10 ^ 15"
  shows "property (withdrawal_payload i k rid now) ''eventType'' = JStr ''FUNDS_WITHDRAWN''"
    "withdrawal_at i now (jsonb (withdrawal_payload i k rid now))"
    "property (jsonb (withdrawal_payload i k rid now)) ''amount'' = JNum (amount_of k)"
  using amount_finite[OF assms]
  by (auto simp: withdrawal_payload_def money_payload_def withdrawal_at_def)

lemma withdrawal_reaches_consumer:
  assumes "\<bar>k\<bar> \<le> 10 ^ 15" and "out_payload out = withdrawal_payload i k rid now"
  shows "reaches_consumer C (message C out)" "event_type_of (out_payload out) = Some ''FUNDS_WITHDRAWN''"
    "handed (message C out) = \<lparr>content = Some (jsonb (withdrawal_payload i k rid now)),
       routing_key = Some ''wallet.funds_withdrawn'', retry_count = None\<rparr>"
proof -
  show ty: "event_type_of (out_payload out) = Some ''FUNDS_WITHDRAWN''"
    using withdrawal_payload_properties(1)[OF assms(1)] assms(2) by (simp add: event_type_of_def)
  have "routingKey ''FUNDS_WITHDRAWN'' = ''wallet.funds_withdrawn''"
    by code_simp
  then have m: "message C out = (rabbitMqExchange C, ''wallet.funds_withdrawn'', out_payload out)"
    using ty by (simp add: message_def)
  show "reaches_consumer C (message C out)"
    by (simp add: m reaches_consumer_def setupTopology_def Let_def getSupportedRoutingKeys_def)
  show "handed (message C out) = \<lparr>content = Some (jsonb (withdrawal_payload i k rid now)),
       routing_key = Some ''wallet.funds_withdrawn'', retry_count = None\<rparr>"
    by (simp add: m handed_def assms(2))
qed

lemma amount_above_threshold:
  assumes "100 * int n < k" and "k \<le> 10 ^ 15"
  shows "truthy (JNum (amount_of k))" "js_less (Fin (of_nat n)) (amount_of k)"
proof -
  have "\<bar>int n\<bar> \<le> 2 ^ 53" using assms by simp
  then have "decimal_from (Cents (100 * int n)) = Fin (of_nat n)"
    using assms round_double_of_int[of "int n"] by (simp add: decimal_from_cents del: decimal_from.simps)
  then show "js_less (Fin (of_nat n)) (amount_of k)"
    using decimal_from_less[of "100 * int n" k] assms by (simp add: amount_of_def del: decimal_from.simps)
  show "truthy (JNum (amount_of k))" using amount_truthy[of k] assms by simp
qed

lemma redis_lookup_key:
  "redis w' k = redis w k \<Longrightarrow> clock w' = clock w \<Longrightarrow> redis_lookup k w' = redis_lookup k w"
  by (cases "redis w k") (simp_all add: redis_lookup_def)

lemma high_raises:
  assumes "calm w" and "property event ''walletId'' = JStr i" and "property event ''amount'' = JNum (amount_of k)"
    and "100 * int (fraudDetectionThreshold C) < k" and "k \<le> 10 ^ 15"
  shows "detectHighValueTransaction P C event w = (Ok (), w\<lparr>db := db w\<lparr>fraudAlerts := fraudAlerts (db w) @ [high_value_alert C i k]\<rparr>\<rparr>)"
proof -
  obtain x where x: "amount_of k = Fin x" using amount_finite[of k] assms(4,5) by auto
  have "truthy (property event ''amount'') \<and> js_less (Fin (of_nat (fraudDetectionThreshold C))) (as_number P (property event ''amount''))"
    using amount_above_threshold[OF assms(4,5)] assms(3) by simp
  then show ?thesis
    using assms(1,2,3) x by (simp add: detectHighValueTransaction_def Let_def run_if_def calm_runs high_value_alert_def)
qed

lemma checks_raise:
  assumes "calm w" and "0 < fraudDetectionTimeWindowMinutes C" and e: "withdrawal_at i t event"
    and "zset (withdrawals_key P (JStr i)) w \<noteq> None" and "property event ''amount'' = JNum (amount_of k)"
    and "100 * int (fraudDetectionThreshold C) < k" and "k \<le> 10 ^ 15"
  shows "\<exists>w'. processFraudChecks P C event w = (Ok (), w') \<and> high_value_alert C i k \<in> set (fraudAlerts (db w'))"
proof -
  obtain w1 where w1: "detectRapidWithdrawals P C event w = (Ok (), w1)" "calm w1"
    using rapid_calm[OF assms(1-3)] assms(4) by blast
  have "property event ''walletId'' = JStr i" "property event ''eventType'' = JStr ''FUNDS_WITHDRAWN''"
    using e by (simp_all add: withdrawal_at_def)
  then show ?thesis
    using high_raises[OF w1(2) _ assms(5-7)] w1(1) by (simp add: processFraudChecks_def run_if_def await_run)
qed

text \<open>The consumer's part: the message is acknowledged and the alert is in the table.\<close>

lemma withdrawal_flagged:
  assumes "calm w" and "0 < fraudDetectionTimeWindowMinutes C" and msg: "content msg = Some event" and e: "withdrawal_at i t event"
    and "zset (withdrawals_key P (JStr i)) w \<noteq> None" and "property event ''amount'' = JNum (amount_of k)"
    and "100 * int (fraudDetectionThreshold C) < k" and "k \<le> 10 ^ 15"
    and new: "redis_lookup (processed_event_key (generateIdempotencyKey P event)) w = None"
  shows "\<exists>w'. handleMessage P C msg w = (Ok (), w') \<and> channel w' = channel w @ [MsgAck msg] \<and>
    high_value_alert C i k \<in> set (fraudAlerts (db w'))"
proof -
  let ?k = "processed_event_key (generateIdempotencyKey P event)"
  let ?w1 = "w\<lparr>redis := (redis w)(?k \<mapsto> \<lparr>redis_value = RStr ''true'', expires = Some (clock w + 1000 * IDEMPOTENCY_TTL)\<rparr>)\<rparr>"
  have lock: "fraud_acquireLock (generateIdempotencyKey P event) w = (Ok True, ?w1)"
    using new assms(1) by (simp add: fraud_acquireLock_def redis_set_ex_nx_calm)
  have "?k \<noteq> withdrawals_key P (JStr i)" by (simp add: processed_event_key_def withdrawals_key_def)
  then have "zset (withdrawals_key P (JStr i)) ?w1 = zset (withdrawals_key P (JStr i)) w"
    using redis_lookup_key[of ?w1 "withdrawals_key P (JStr i)" w] by (simp add: zset_def)
  then obtain w2 where w2: "processFraudChecks P C event ?w1 = (Ok (), w2)" "high_value_alert C i k \<in> set (fraudAlerts (db w2))"
    using checks_raise[OF _ assms(2) e _ assms(6-8), of ?w1 P] assms(1,5) by auto
  have "channel w2 = channel w"
    using obeysD[OF channel_contract.consumer_checks w2(1)] by (simp add: same_channel_def)
  moreover have "event \<noteq> JNull" using e by (auto simp: withdrawal_at_def)
  ultimately have "handleMessage P C msg w = (Ok (), w2\<lparr>channel := channel w @ [MsgAck msg]\<rparr>)"
    using lock w2(1) msg by (simp add: handleMessage_def handle_event_def try_catch_run await_run ret_run run_simps)
  then show ?thesis using w2(2) by simp
qed

text \<open>The request's part: what the withdrawal commits is in the next batch of the relay.\<close>

lemma withdrawal_published:
  assumes "decimal_column P" and "calm w" and "fresh_request rid w"
    and "wallets (db w) i = Some r" and "sound_row r" and "row_status r = ACTIVE" and "length i \<le> 255"
    and "row_balance r = Cents j" and "0 < k" and "k \<le> j" and "j \<le> 10 ^ 15 - 10"
    and "row_total r = Cents d" and "d + k \<le> 10 ^ 15 - 10"
    and "case row_limit r of None \<Rightarrow> True | Some l \<Rightarrow> \<exists>c. l = Cents c \<and> d + k < c"
    and relay: "publisherConnected w" "\<not> isProcessing w" "redis_lookup RELAY_LOCK_KEY w = None"
    and few: "length (filter (\<lambda>row. \<not> published row) (outboxEvents (db w))) < 100"
    and typed: "\<forall>row \<in> set (outboxEvents (db w)). published row \<or> event_type_of (out_payload row) \<noteq> None"
  shows "\<exists>a w1 w2 out now. withdraw P i (amount_of k) rid w = (Ok a, w1) \<and> paid_out i k rid (db w) (db w1) \<and>
    handleCron C w1 = (Ok (), w2) \<and> message C out \<in> set (broker w2) \<and> out_payload out = withdrawal_payload i k rid now"
proof -
  obtain a w1 where run: "withdraw P i (amount_of k) rid w = (Ok a, w1)" and frame: "only_request_keys i w w1"
    using withdraw_calm[OF assms(1-14)] by blast
  have j: "0 \<le> j" using assms(5,8) by (auto simp: sound_row_def)
  then have k: "k \<le> 10 ^ 15 - 10" and ex: "exact_row 0 (db w) i"
    using assms(4,8,10,11) by (auto simp: exact_row_def)
  have paid: "paid_out i k rid (db w) (db w1)"
    using withdraw_cases[OF assms(1,9) k ex run] fresh_request_key[OF assms(3)] by auto
  then obtain out now where out: "outboxEvents (db w1) = outboxEvents (db w) @ [out]" "\<not> published out"
      "out_payload out = withdrawal_payload i k rid now"
    unfolding paid_out_def withdrawal_payload_def by blast
  let ?new = "filter (\<lambda>row. \<not> published row) (outboxEvents (db w1))"
  let ?batch = "take 100 (sort_key out_createdAt ?new)"
  have "length ?new \<le> 100" using few out(1,2) by simp
  then have batch: "set ?batch = set ?new" by simp
  have "\<forall>row \<in> set ?batch. event_type_of (out_payload row) \<noteq> None"
    unfolding batch using typed out withdrawal_reaches_consumer(2)[of k out i rid now] k assms(9) by auto
  moreover have "RELAY_LOCK_KEY \<noteq> getBalanceCacheKey i \<and> (\<forall>q. RELAY_LOCK_KEY \<noteq> ''lock:req:'' @ q)"
    by (simp add: RELAY_LOCK_KEY_def getBalanceCacheKey_def)
  then have "redis_lookup RELAY_LOCK_KEY w1 = None"
    using frame relay(3) redis_lookup_key[of w1 RELAY_LOCK_KEY w] by (simp add: only_request_keys_def)
  ultimately obtain w2 where "handleCron C w1 = (Ok (), w2)" "broker w2 = broker w1 @ map (message C) ?batch"
    using relay_drains[of w1 ?batch C] frame relay(1,2) by (auto simp: only_request_keys_def)
  moreover have "out \<in> set ?batch" unfolding batch using out(1,2) by simp
  ultimately show ?thesis using run paid out(3) by fastforce
qed

text \<open>C11: A large withdrawal is flagged in the end. The publisher has been started, even if its first
  connection attempt failed. When every later call succeeds, a withdrawal of \<open>k\<close> cents that the
  wallet allows resolves and is paid out; the next run of the relay gives the broker a message that a
  binding of the fraud queue picks up; and the consumer that is handed it, at any later time, acknowledges it and, if \<open>k\<close> is
  above the threshold, the alert with the wallet, the amount and the threshold is in the table.\<close>

theorem large_withdrawal_is_flagged:
  assumes "decimal_column P" and start: "publisher_onModuleInit w0 = (Ok (), w)" and "calm w" and "fresh_request rid w"
    and "wallets (db w) i = Some r" and "sound_row r" and "row_status r = ACTIVE" and "length i \<le> 255"
    and "row_balance r = Cents j" and "0 < k" and "k \<le> j" and "j \<le> 10 ^ 15 - 10"
    and "row_total r = Cents d" and "d + k \<le> 10 ^ 15 - 10"
    and "case row_limit r of None \<Rightarrow> True | Some l \<Rightarrow> \<exists>c. l = Cents c \<and> d + k < c"
    and "\<not> isProcessing w" and "redis_lookup RELAY_LOCK_KEY w = None"
    and "length (filter (\<lambda>row. \<not> published row) (outboxEvents (db w))) < 100"
    and "\<forall>row \<in> set (outboxEvents (db w)). published row \<or> event_type_of (out_payload row) \<noteq> None"
    and "100 * int (fraudDetectionThreshold C) < k" and "0 < fraudDetectionTimeWindowMinutes C"
  shows "\<exists>a w1 w2 m event. withdraw P i (amount_of k) rid w = (Ok a, w1) \<and> paid_out i k rid (db w) (db w1) \<and>
    handleCron C w1 = (Ok (), w2) \<and> m \<in> set (broker w2) \<and> reaches_consumer C m \<and> content (handed m) = Some event \<and>
    (\<forall>v. calm v \<and> redis_lookup (processed_event_key (generateIdempotencyKey P event)) v = None \<and>
         zset (withdrawals_key P (JStr i)) v \<noteq> None \<longrightarrow>
       (\<exists>v'. handleMessage P C (handed m) v = (Ok (), v') \<and> channel v' = channel v @ [MsgAck (handed m)] \<and>
          high_value_alert C i k \<in> set (fraudAlerts (db v'))))"
proof -
  have connected: "publisherConnected w" using publisher_starts[OF start] by simp
  obtain a w1 w2 out now where run: "withdraw P i (amount_of k) rid w = (Ok a, w1)" "paid_out i k rid (db w) (db w1)"
      "handleCron C w1 = (Ok (), w2)" "message C out \<in> set (broker w2)" and out: "out_payload out = withdrawal_payload i k rid now"
    using withdrawal_published[OF assms(1,3-15) connected assms(16-19)] by blast
  have k: "\<bar>k\<bar> \<le> 10 ^ 15" "k \<le> 10 ^ 15" using assms(10-12) by auto
  note m = withdrawal_reaches_consumer(1,3)[OF k(1) out, of C] and e = withdrawal_payload_properties(2,3)[OF k(1)]
  let ?event = "jsonb (withdrawal_payload i k rid now)"
  have "\<exists>v'. handleMessage P C (handed (message C out)) v = (Ok (), v') \<and>
      channel v' = channel v @ [MsgAck (handed (message C out))] \<and> high_value_alert C i k \<in> set (fraudAlerts (db v'))"
    if "calm v" "redis_lookup (processed_event_key (generateIdempotencyKey P ?event)) v = None"
      "zset (withdrawals_key P (JStr i)) v \<noteq> None" for v
    by (rule withdrawal_flagged[OF that(1) assms(21) _ e(1) that(3) e(2) assms(20) k(2) that(2)]) (simp add: m(2))
  then show ?thesis
    using run m by (intro exI[of _ a] exI[of _ w1] exI[of _ w2] exI[of _ "message C out"] exI[of _ ?event]) simp
qed

section \<open>Concrete runs\<close>

definition refused_start :: world where
  "refused_start = sample_world\<lparr>publisherConnected := False, script := [Fail False (PlainError ''ECONNREFUSED'')]\<rparr>"

theorem unconnected_relay_keeps_events_witness:
  "db (snd (handleCron default_config (relay_world\<lparr>publisherConnected := False\<rparr>))) = db relay_world"
  using unconnected_relay_keeps_events[of "relay_world\<lparr>publisherConnected := False\<rparr>" default_config
      "fst (handleCron default_config (relay_world\<lparr>publisherConnected := False\<rparr>))"
      "snd (handleCron default_config (relay_world\<lparr>publisherConnected := False\<rparr>))"] by simp

theorem large_withdrawal_is_flagged_witness:
  "\<exists>a w1 w2 m v'. withdraw postgres ''a'' (amount_of 600) (Some ''r'') (snd (publisher_onModuleInit refused_start)) = (Ok a, w1) \<and>
    handleCron (default_config\<lparr>fraudDetectionThreshold := 5\<rparr>) w1 = (Ok (), w2) \<and> m \<in> set (broker w2) \<and>
    handleMessage postgres (default_config\<lparr>fraudDetectionThreshold := 5\<rparr>) (handed m) (new_world empty_tables 0 []) = (Ok (), v') \<and>
    high_value_alert (default_config\<lparr>fraudDetectionThreshold := 5\<rparr>) ''a'' 600 \<in> set (fraudAlerts (db v'))"
proof -
  have s: "publisher_onModuleInit refused_start = (Ok (), sample_world)"
    by (simp add: refused_start_def sample_world_def new_world_def publisher_onModuleInit_def publisher_connect_def try_catch_def
        await_def modify_def extern_def ret_def)
  have w: "\<not> isProcessing sample_world" "redis_lookup k sample_world = None" "outboxEvents (db sample_world) = []" for k
    by (simp_all add: sample_world_def new_world_def redis_lookup_def sample_tables_def empty_tables_def)
  let ?C = "default_config\<lparr>fraudDetectionThreshold := 5\<rparr>" and ?v = "new_world empty_tables 0 []"
  have v: "calm ?v" "redis_lookup k ?v = None" "zset k ?v \<noteq> None" for k
    by (simp_all add: calm_def new_world_def redis_lookup_def zset_def)
  show ?thesis
    using large_withdrawal_is_flagged[of postgres refused_start sample_world "Some ''r''" "''a''" "sample_row 1000" 1000 600 0 ?C]
      s w v by (fastforce simp: default_config_def)
qed

end
