(* ===== verification/Startup.thy ===== *)
theory Startup imports Pipeline EventImmutability Settings WalletController "HOL-Library.Multiset"
begin

text \<open>
  The start of the two processes, \<open>src/main.ts\<close> and \<open>src/worker.ts\<close>: the connection to the database with
  the options of the settings, the start-up hooks of the providers, and then the port; and the hooks
  that close the connections when the framework closes an application.

  The framework calls the hooks before it listens, in an order that follows from its modules; the theorems are
  for every order. Whatever fails on the way, a service that listens has its triggers installed and its channels
  open (\<open>service_listens_guarded\<close>), and a service with its settings starts (\<open>service_starts\<close>).
\<close>

section \<open>Hooks\<close>

text \<open>The consumer's wrapper is there when \<open>createChannel\<close> returns; nothing waits for the connection.\<close>

definition consumer_connect :: "unit handler" where
  "consumer_connect = modify (\<lambda>w. w\<lparr>consumerConnected := True\<rparr>)"

definition consumer_onModuleInit :: "unit handler" where
  "consumer_onModuleInit = try_catch consumer_connect (\<lambda>_. ret ())"

definition consumer_onModuleDestroy :: "unit handler" where
  "consumer_onModuleDestroy = await get_state (\<lambda>w. run_if (consumerConnected w) (extern (\<lambda>w. (Inr (), w))))"

text \<open>The jobs only log that they are there.\<close>

definition relay_onModuleInit :: "unit handler" where
  "relay_onModuleInit = ret ()"

definition recovery_onModuleInit :: "unit handler" where
  "recovery_onModuleInit = ret ()"

definition redis_onModuleDestroy :: "unit handler" where
  "redis_onModuleDestroy = extern (\<lambda>w. (Inr (), w))"

definition rabbitmq_onModuleDestroy :: "unit handler" where
  "rabbitmq_onModuleDestroy = extern (\<lambda>w. (Inr (), w))"

datatype hook = PublisherHook | ConsumerHook | RelayHook | RecoveryHook | MigrationHook

fun run_hook :: "hook \<Rightarrow> unit handler" where
  "run_hook PublisherHook = publisher_onModuleInit"
| "run_hook ConsumerHook = consumer_onModuleInit"
| "run_hook RelayHook = relay_onModuleInit"
| "run_hook RecoveryHook = recovery_onModuleInit"
| "run_hook MigrationHook = migration_onModuleInit"

definition app_hooks :: "hook list" where
  "app_hooks = [PublisherHook, ConsumerHook, RelayHook, RecoveryHook, MigrationHook]"

section \<open>The processes\<close>

text \<open>Creating an application connects it to the database of its options.\<close>

definition create_application :: "error + data_source_options \<Rightarrow> unit handler" where
  "create_application options = (case options of Inl e \<Rightarrow> throw e | Inr _ \<Rightarrow> extern (\<lambda>w. (Inr (), w)))"

definition bootstrap :: "environment \<Rightarrow> hook list \<Rightarrow> number handler" where
  "bootstrap E order =
     await (create_application (app_data_source E)) (\<lambda>_.
     let port = get_port E in
     await (await (for_each order run_hook) (\<lambda>_. extern (\<lambda>w. (Inr (), w)))) (\<lambda>_.
     ret port))"

definition worker_bootstrap :: "environment \<Rightarrow> unit handler" where
  "worker_bootstrap E = await (create_application (worker_data_source E)) (\<lambda>_. run_hook ConsumerHook)"

text \<open>On \<open>SIGTERM\<close> the worker closes its application; the service has no such handler.\<close>

definition worker_sigterm :: "unit handler" where
  "worker_sigterm = await consumer_onModuleDestroy (\<lambda>_. await redis_onModuleDestroy (\<lambda>_. rabbitmq_onModuleDestroy))"

section \<open>Health\<close>

text \<open>The framework answers with what its indicators say: 200, or 503 when one of them rejects. The bodies it
  builds are the parameter \<open>B\<close>. The only indicator asks the database; the liveness probe asks nothing.\<close>

definition pingCheck :: "unit handler" where
  "pingCheck = extern (\<lambda>w. (Inr (), w))"

definition health_check :: "(bool \<Rightarrow> json) \<Rightarrow> response handler" where
  "health_check B = try_catch (await pingCheck (\<lambda>_. ret (Response 200 (B True)))) (\<lambda>_. ret (Response 503 (B False)))"

definition liveness :: "response handler" where
  "liveness = ret (Response 200 (JObj [(''status'', JStr ''ok'')]))"

definition readiness :: "(bool \<Rightarrow> json) \<Rightarrow> response handler" where
  "readiness B = try_catch (await pingCheck (\<lambda>_. ret (Response 200 (B True)))) (\<lambda>_. ret (Response 503 (B False)))"

text \<open>A probe is answered, and answering it changes no table, whatever the database does short of killing the process.\<close>

lemma readiness_outcomes:
  "readiness B w = (r, w') \<Longrightarrow> db w' = db w \<and> (r = Ok (Response 200 (B True)) \<or> r = Ok (Response 503 (B False)) \<or> r = Crash)"
  by (auto simp: readiness_def pingCheck_def try_catch_def await_def extern_def perform_def ret_def
      split: list.splits reply.splits if_splits)

section \<open>What a hook establishes, and no other takes back\<close>

fun established :: "hook \<Rightarrow> world \<Rightarrow> bool" where
  "established PublisherHook w \<longleftrightarrow> publisherConnected w"
| "established ConsumerHook w \<longleftrightarrow> consumerConnected w"
| "established MigrationHook w \<longleftrightarrow> guarded (schema w)"
| "established _ w \<longleftrightarrow> True"

definition same_flags :: "world \<Rightarrow> world \<Rightarrow> bool" where
  "same_flags w w' \<longleftrightarrow> publisherConnected w' = publisherConnected w \<and> consumerConnected w' = consumerConnected w"

interpretation flag_contract: step_contract same_flags
  by unfold_locales (auto simp: same_flags_def)

lemma flags_query: "obeys same_flags (query f)"
  unfolding query_def by (rule obeys_extern) (auto simp: same_flags_def split: sum.splits)

lemma flags_migration: "obeys same_flags migration_onModuleInit"
  unfolding migration_onModuleInit_def installEventImmutabilityTriggers_def
  by (intro flag_contract.obeys_control flags_query)

lemma publisher_hook:
  "publisher_onModuleInit w = (r, w') \<Longrightarrow> publisherConnected w' \<and> schema w' = schema w \<and>
   consumerConnected w' = consumerConnected w \<and> db w' = db w"
  by (auto simp: publisher_onModuleInit_def publisher_connect_def try_catch_def await_def modify_def ret_def extern_def
      perform_def split: list.splits reply.splits prod.splits if_splits)

lemma consumer_hook: "consumer_onModuleInit w = (Ok (), w\<lparr>consumerConnected := True\<rparr>)"
  by (simp add: consumer_onModuleInit_def consumer_connect_def try_catch_run modify_run)

lemma hook_establishes:
  assumes "run_hook h w = (Ok (), w')"
  shows "established h w' \<and> (\<forall>g. established g w \<longrightarrow> established g w') \<and> db w' = db w"
proof (cases h)
  case MigrationHook
  then have run: "migration_onModuleInit w = (Ok (), w')" using assms by simp
  have "same_flags w w'" "same_tables w w'"
    using obeysD[OF flags_migration run] obeysD[OF tables_installation run] .
  moreover have "established g w'" if "established g w" for g
    using that installation_guards[OF run] calculation by (cases g) (auto simp: same_flags_def)
  ultimately show ?thesis using installation_guards[OF run] MigrationHook by (simp add: same_tables_def)
next
  case PublisherHook
  then have p: "publisher_onModuleInit w = (Ok (), w')" using assms by simp
  have "established g w'" if "established g w" for g
    using that publisher_hook[OF p] by (cases g) auto
  then show ?thesis using publisher_hook[OF p] PublisherHook by simp
next
  case ConsumerHook
  have "established g (w\<lparr>consumerConnected := True\<rparr>)" if "established g w" for g
    using that by (cases g) auto
  then show ?thesis using assms ConsumerHook by (auto simp: consumer_hook)
qed (use assms in \<open>auto simp: relay_onModuleInit_def recovery_onModuleInit_def ret_def\<close>)

lemma hooks_establish:
  "for_each order run_hook w = (Ok (), w') \<Longrightarrow> db w' = db w \<and>
   (\<forall>h. h \<in> set order \<or> established h w \<longrightarrow> established h w')"
proof (induction order arbitrary: w)
  case (Cons h hs)
  obtain w1 where w1: "run_hook h w = (Ok (), w1)" "for_each hs run_hook w1 = (Ok (), w')"
    using Cons.prems by (auto simp: run_inv)
  then show ?case using hook_establishes[OF w1(1)] Cons.IH[OF w1(2)] by auto
qed (auto simp: run_inv)

lemma connection_Ok: "extern (\<lambda>w. (Inr (), w)) w = (Ok u, w') \<Longrightarrow> \<exists>rs now. w' = w\<lparr>script := rs, clock := now\<rparr>"
proof -
  assume "extern (\<lambda>w. (Inr (), w)) w = (Ok u, w')"
  then have "w' = w\<lparr>script := script w', clock := clock w'\<rparr>"
    by (auto simp: extern_def perform_def split: list.splits reply.splits)
  then show ?thesis by blast
qed

lemma established_frame [simp]: "established h (w\<lparr>script := rs, clock := now\<rparr>) = established h w"
  by (cases h) simp_all

lemma app_data_source_required: "(\<exists>s. app_data_source E = Inr s) \<longleftrightarrow> required \<subseteq> dom E"
  unfolding app_data_source_def required_def
  by (auto simp: check_Inr server_host server_Inr domIff)

lemma create_application_Ok:
  "create_application z w = (Ok u, w') \<Longrightarrow> (\<exists>s. z = Inr s) \<and> (\<exists>rs now. w' = w\<lparr>script := rs, clock := now\<rparr>)"
  by (cases z) (auto simp: create_application_def throw_def dest: connection_Ok)

section \<open>The properties\<close>

text \<open>C15: A service that listens is ready: in whatever order the hooks run and whatever fails on the way, if the
  start resolves, then every setting without a default was there, the port is that of the settings, both
  triggers that guard the event log are installed, the publisher and the consumer have their channels, and
  no table was touched.\<close>

theorem service_listens_guarded:
  assumes "bootstrap E order w = (Ok port, w')" and "mset order = mset app_hooks"
  shows "required \<subseteq> dom E \<and> port = get_port E \<and> guarded (schema w') \<and> publisherConnected w' \<and>
    consumerConnected w' \<and> db w' = db w"
proof -
  obtain w1 w2 u where w1: "create_application (app_data_source E) w = (Ok u, w1)"
      and w2: "for_each order run_hook w1 = (Ok (), w2)"
      and w': "extern (\<lambda>w. (Inr (), w)) w2 = (Ok (), w')" and p: "port = get_port E"
    using assms(1) unfolding bootstrap_def Let_def by (auto simp: run_inv)
  have hooks: "h \<in> set order" for h
    using mset_eq_setD[OF assms(2)] by (cases h) (auto simp: app_hooks_def)
  have e: "established h w2" for h using hooks_establish[OF w2] hooks by blast
  have d: "db w2 = db w1" using hooks_establish[OF w2] by blast
  obtain rs now where "w' = w2\<lparr>script := rs, clock := now\<rparr>" using connection_Ok[OF w'] by blast
  moreover have "db w1 = db w" "required \<subseteq> dom E"
    using create_application_Ok[OF w1] app_data_source_required by auto
  ultimately show ?thesis
    using e[of PublisherHook] e[of ConsumerHook] e[of MigrationHook] d p by simp
qed

lemma run_hook_calm: "calm w \<Longrightarrow> \<exists>w'. run_hook h w = (Ok (), w') \<and> calm w'"
proof (cases h)
  case MigrationHook
  assume "calm w"
  then obtain w' where run: "migration_onModuleInit w = (Ok (), w')" using installation_calm by blast
  then show ?thesis using MigrationHook installation_calm[OF \<open>calm w\<close>] by auto
qed (auto simp: publisher_onModuleInit_def publisher_connect_def consumer_hook relay_onModuleInit_def recovery_onModuleInit_def
    try_catch_def await_def modify_def ret_def extern_def perform_def calm_def)

lemma hooks_calm: "calm w \<Longrightarrow> \<exists>w'. for_each order run_hook w = (Ok (), w') \<and> calm w'"
proof (induction order arbitrary: w)
  case (Cons h hs)
  then obtain w1 where "run_hook h w = (Ok (), w1)" "calm w1" using run_hook_calm by blast
  then show ?case using Cons.IH[of w1] by (auto simp: await_run)
qed (simp add: ret_run)

text \<open>C26: When every call succeeds, a service starts exactly if the settings without a default are there: it
  listens on the port of the settings, whatever the order of its hooks and whatever an earlier start left in the
  database, and its readiness probe answers 200; and a start without them is refused before anything is called.\<close>

theorem service_starts:
  assumes "calm w"
  shows "(required \<subseteq> dom E \<longrightarrow> (\<exists>w'. bootstrap E order w = (Ok (get_port E), w') \<and>
      readiness B w' = (Ok (Response 200 (B True)), w'))) \<and>
    (\<not> required \<subseteq> dom E \<longrightarrow> (\<exists>e. bootstrap E order w = (Throw e, w)))"
proof (cases "app_data_source E")
  case (Inl e)
  then have "bootstrap E order w = (Throw e, w)"
    by (simp add: bootstrap_def create_application_def await_def throw_def)
  then show ?thesis using Inl app_data_source_required[of E] by auto
next
  case (Inr s)
  obtain w1 where h: "for_each order run_hook w = (Ok (), w1)" "calm w1" using hooks_calm[OF assms] by blast
  have "create_application (app_data_source E) w = (Ok (), w)"
    using assms by (simp add: create_application_def Inr extern_calm perform_def)
  moreover have "extern (\<lambda>w. (Inr (), w)) w1 = (Ok (), w1)" using h(2) by (simp add: extern_calm perform_def)
  ultimately have "bootstrap E order w = (Ok (get_port E), w1)"
    using h(1) by (simp add: bootstrap_def Let_def await_run ret_run)
  moreover have "readiness B w1 = (Ok (Response 200 (B True)), w1)"
    using h(2) by (simp add: readiness_def pingCheck_def extern_calm perform_def await_run ret_run try_catch_run)
  ultimately show ?thesis using Inr app_data_source_required[of E] by auto
qed

section \<open>Concrete runs\<close>

definition sample_environment :: environment where
  "sample_environment = [''DATABASE_HOST'' \<mapsto> ''db'', ''DATABASE_USER'' \<mapsto> ''u'', ''DATABASE_PASSWORD'' \<mapsto> ''p'',
     ''DATABASE_NAME'' \<mapsto> ''w'', ''PORT'' \<mapsto> ''8080'']"

lemma sample_environment_required: "required \<subseteq> dom sample_environment"
  by (auto simp: sample_environment_def required_def)

theorem service_starts_witness:
  "(\<exists>w'. bootstrap sample_environment app_hooks (new_world empty_tables 0 []) = (Ok (get_port sample_environment), w')) \<and>
   (\<exists>e. bootstrap Map.empty app_hooks (new_world empty_tables 0 []) = (Throw e, new_world empty_tables 0 []))"
proof -
  have "calm (new_world empty_tables 0 [])" by (simp add: calm_def new_world_def)
  moreover have "\<not> required \<subseteq> dom Map.empty" by (simp add: required_def)
  ultimately show ?thesis
    using service_starts[of "new_world empty_tables 0 []" sample_environment app_hooks "\<lambda>_. JNull"]
      service_starts[of "new_world empty_tables 0 []" Map.empty app_hooks "\<lambda>_. JNull"] sample_environment_required by blast
qed

text \<open>The migration first, and a broker that refuses the connection.\<close>

theorem service_listens_guarded_witness:
  "\<exists>w'. bootstrap sample_environment [MigrationHook, PublisherHook, ConsumerHook, RecoveryHook, RelayHook]
      (new_world empty_tables 0 [Ack 1, Ack 1, Ack 1, Ack 1, Ack 1, Ack 1, Fail False (PlainError ''ECONNREFUSED'')]) =
      (Ok (get_port sample_environment), w') \<and> guarded (schema w') \<and> publisherConnected w'"
proof -
  let ?order = "[MigrationHook, PublisherHook, ConsumerHook, RecoveryHook, RelayHook]"
  let ?w = "new_world empty_tables 0 [Ack 1, Ack 1, Ack 1, Ack 1, Ack 1, Ack 1, Fail False (PlainError ''ECONNREFUSED'')]"
  obtain s where s: "app_data_source sample_environment = Inr s"
    using app_data_source_required[of sample_environment] sample_environment_required by blast
  obtain w' where run: "bootstrap sample_environment ?order ?w = (Ok (get_port sample_environment), w')"
    unfolding bootstrap_def s
    by (simp add: create_application_def new_world_def no_triggers_def migration_onModuleInit_def installEventImmutabilityTriggers_def
        query_def try_catch_def await_def extern_def perform_def create_or_replace_function_def drop_trigger_if_exists_def
        create_trigger_def update_trigger_def delete_trigger_def publisher_onModuleInit_def publisher_connect_def modify_def ret_def
        consumer_hook relay_onModuleInit_def recovery_onModuleInit_def)
  moreover have "mset ?order = mset app_hooks" by (simp add: app_hooks_def)
  ultimately show ?thesis using service_listens_guarded by blast
qed

end
