(* ===== verification/Replica.thy ===== *)
theory Replica imports TransferRuns ReplayHazards Settings
begin

text \<open>
  The service with a read replica. When \<open>DATABASE_READ_HOST\<close> is set, \<open>src/app.module.ts\<close> configures the data
  source with a master and a slave, and TypeORM sends every \<open>find\<close> outside a transaction to the slave: not only the
  balance and the history, but also the look-up of an idempotency key, of a saga in the failure handler and in the
  recovery. Writes, and whatever a transaction reads, stay on the master.

  What the slave answers is a parameter: \<open>T w\<close> are the tables it has when the master's are \<open>db w\<close>. A slave that is
  never behind is invisible, and a recovery that reads from one that is behind still settles a transfer only once; but
  a request is applied a second time, and a failed transfer loses its money.
\<close>

section \<open>Reads from the replica\<close>

definition on_replica :: "(world \<Rightarrow> tables) \<Rightarrow> 'a handler \<Rightarrow> 'a handler" where
  "on_replica T m = (\<lambda>w. case m (w\<lparr>db := T w\<rparr>) of (r, w') \<Rightarrow> (r, w'\<lparr>db := db w\<rparr>))"

text \<open>Where the service reads, by its settings.\<close>

definition app_reads :: "environment \<Rightarrow> (world \<Rightarrow> tables) \<Rightarrow> world \<Rightarrow> tables" where
  "app_reads E replica = (case app_data_source E of
     Inr options \<Rightarrow> (case data_source options of Replication master slaves \<Rightarrow> replica | Single s \<Rightarrow> db)
   | Inl e \<Rightarrow> db)"

definition getBalance_replicated :: "(world \<Rightarrow> tables) \<Rightarrow> platform \<Rightarrow> string \<Rightarrow> json handler" where
  "getBalance_replicated T P walletId =
     await (redis_get (getBalanceCacheKey walletId)) (\<lambda>cachedBalance.
     case cachedBalance of
       Some v \<Rightarrow> ret (balance_result (JNum (cached_number v)) walletId)
     | None \<Rightarrow>
         await (on_replica T (findById walletId)) (\<lambda>found.
         case found of
           None \<Rightarrow> ret (balance_result (JNum (Fin 0)) walletId)
         | Some wallet \<Rightarrow>
             await (setBalanceCache P walletId (JNum (balance wallet))) (\<lambda>_.
             ret (balance_result (JNum (balance wallet)) (wallet_id wallet)))))"

definition getHistory_replicated :: "(world \<Rightarrow> tables) \<Rightarrow> string \<Rightarrow> nat \<Rightarrow> nat \<Rightarrow> (event_row \<times> number option) list handler" where
  "getHistory_replicated T walletId limit offset =
     await (on_replica T (getEventHistory walletId limit offset)) (\<lambda>es. ret (map history_entry es))"

definition executeIdempotentTransaction_replicated ::
  "(world \<Rightarrow> tables) \<Rightarrow> platform \<Rightarrow> string \<Rightarrow> number \<Rightarrow> wallet_event_type \<Rightarrow> (int \<Rightarrow> (wallet, error, unit) program) \<Rightarrow>
   string option \<Rightarrow> bool \<Rightarrow> json handler" where
  "executeIdempotentTransaction_replicated T P walletId amount eventType operation requestId autoCreateWallet =
     await (if given requestId then on_replica T (findByRequestId (the requestId)) else ret None) (\<lambda>existing.
     case existing of
       Some key \<Rightarrow> ret (key_response key)
     | None \<Rightarrow> execute P
         (idempotent_operation P walletId amount eventType operation requestId autoCreateWallet)
         \<lparr>lockKey = (if given requestId then Some (''lock:req:'' @ the requestId) else None), lockTtl = 60\<rparr>)"

definition deposit_replicated :: "(world \<Rightarrow> tables) \<Rightarrow> platform \<Rightarrow> string \<Rightarrow> number \<Rightarrow> string option \<Rightarrow> json handler" where
  "deposit_replicated T P walletId amount requestId =
     await (executeIdempotentTransaction_replicated T P walletId amount FUNDS_DEPOSITED (\<lambda>now. wallet_deposit amount)
       requestId True) (\<lambda>result.
     await (setBalanceCache P walletId (property result ''balance'')) (\<lambda>_.
     ret result))"

definition withdraw_replicated :: "(world \<Rightarrow> tables) \<Rightarrow> platform \<Rightarrow> string \<Rightarrow> number \<Rightarrow> string option \<Rightarrow> json handler" where
  "withdraw_replicated T P walletId amount requestId =
     await (executeIdempotentTransaction_replicated T P walletId amount FUNDS_WITHDRAWN
       (\<lambda>now. wallet_withdraw now now amount) requestId False) (\<lambda>result.
     await (setBalanceCache P walletId (property result ''balance'')) (\<lambda>_.
     ret result))"

text \<open>In a transfer: the key, the sender's currency, and the saga when the transfer has failed.\<close>

definition handle_failure_replicated :: "(world \<Rightarrow> tables) \<Rightarrow> platform \<Rightarrow> app_config \<Rightarrow> transfer_saga \<Rightarrow> error \<Rightarrow> json handler" where
  "handle_failure_replicated T P C saga e =
     await (on_replica T (saga_findById (saga_id saga))) (\<lambda>found.
     case found of
       None \<Rightarrow> throw (PlainError (''Saga '' @ saga_id saga @ '' not found during error handling''))
     | Some currentSaga \<Rightarrow>
         await (if saga_state currentSaga = DEBITED
             then compensate P C (saga_id currentSaga) (fromWalletId currentSaga) (saga_amount currentSaga) (error_message e)
             else if saga_state currentSaga \<noteq> COMPLETED \<and> saga_state currentSaga \<noteq> COMPENSATED \<and>
                     saga_state currentSaga \<noteq> FAILED
             then await (call_method (markAsFailed (error_message e)) currentSaga) (\<lambda>currentSaga.
                  await (saga_save P currentSaga) (\<lambda>_. ret ()))
             else ret ()) (\<lambda>_.
         throw e))"

definition start_transfer_replicated ::
  "(world \<Rightarrow> tables) \<Rightarrow> platform \<Rightarrow> app_config \<Rightarrow> string \<Rightarrow> string \<Rightarrow> number \<Rightarrow> string option \<Rightarrow> json handler" where
  "start_transfer_replicated T P C from_id to_id amount requestId =
     (if from_id = to_id then throw (BadRequestException ''Cannot transfer to the same wallet'')
      else await (on_replica T (findById from_id)) (\<lambda>found.
      case found of
        None \<Rightarrow> throw (wallet_not_found from_id)
      | Some fromWallet \<Rightarrow>
          await (getOrCreate P to_id (currency fromWallet) False) (\<lambda>toWallet.
          if currency toWallet \<noteq> currency fromWallet
          then throw (CurrencyMismatchError (currency fromWallet) (currency toWallet) from_id to_id)
          else await (createSaga P from_id to_id amount (currency fromWallet) requestId) (\<lambda>saga.
            try_catch (run_saga P C saga from_id to_id amount requestId) (handle_failure_replicated T P C saga)))))"

definition executeTransfer_replicated ::
  "(world \<Rightarrow> tables) \<Rightarrow> platform \<Rightarrow> app_config \<Rightarrow> string \<Rightarrow> string \<Rightarrow> number \<Rightarrow> string option \<Rightarrow> json handler" where
  "executeTransfer_replicated T P C from_id to_id amount requestId =
     await (if given requestId then on_replica T (findByRequestId (the requestId)) else ret None) (\<lambda>existing.
     case existing of
       Some key \<Rightarrow> ret (key_response key)
     | None \<Rightarrow> start_transfer_replicated T P C from_id to_id amount requestId)"

definition recoverSaga_replicated :: "(world \<Rightarrow> tables) \<Rightarrow> platform \<Rightarrow> app_config \<Rightarrow> string \<Rightarrow> unit handler" where
  "recoverSaga_replicated T P C sagaId =
     await (on_replica T (saga_findById sagaId)) (\<lambda>found.
     case found of
       None \<Rightarrow> ret ()
     | Some saga \<Rightarrow>
         run_if (saga_state saga = DEBITED)
           (try_catch (creditToReceiver P C saga True) (\<lambda>e.
              compensate P C (saga_id saga) (fromWalletId saga) (saga_amount saga)
                (''Recovery failed: '' @ error_message e))))"

section \<open>A replica that is never behind\<close>

lemma on_replica_primary: "obeys same_tables m \<Longrightarrow> on_replica db m = m"
  by (auto simp: on_replica_def fun_eq_iff same_tables_def dest: obeysD split: prod.split)

lemma tables_getEventHistory: "obeys same_tables (getEventHistory i n m)"
  by (simp add: getEventHistory_def step_rules)

lemma app_reads_primary: "\<not> given (get_databaseReadHost E) \<or> T = db \<Longrightarrow> app_reads E T = db"
  by (auto simp: app_reads_def app_data_source_def check_Inr split: sum.split data_source.split)

lemmas replicated_defs = getBalance_replicated_def getHistory_replicated_def executeIdempotentTransaction_replicated_def
  deposit_replicated_def withdraw_replicated_def handle_failure_replicated_def start_transfer_replicated_def
  executeTransfer_replicated_def recoverSaga_replicated_def

lemmas primary_finds = on_replica_primary[OF tables_findById] on_replica_primary[OF tables_findByRequestId]
  on_replica_primary[OF tables_saga_findById] on_replica_primary[OF tables_getEventHistory]

lemma primary_reads:
  "getBalance_replicated db = getBalance" "getHistory_replicated db = getHistory"
  "executeIdempotentTransaction_replicated db = executeIdempotentTransaction"
  "handle_failure_replicated db = handle_failure" "recoverSaga_replicated db = recoverSaga"
  unfolding fun_eq_iff replicated_defs primary_finds getBalance_def getHistory_def executeIdempotentTransaction_def
    handle_failure_def recoverSaga_def by (intro allI refl)+

lemma primary_requests:
  "deposit_replicated db = deposit" "withdraw_replicated db = withdraw"
  "start_transfer_replicated db = start_transfer" "executeTransfer_replicated db = executeTransfer"
proof -
  show s: "start_transfer_replicated db = start_transfer"
    unfolding fun_eq_iff start_transfer_replicated_def start_transfer_def primary_finds primary_reads by (intro allI refl)
  show "deposit_replicated db = deposit" "withdraw_replicated db = withdraw" "executeTransfer_replicated db = executeTransfer"
    unfolding fun_eq_iff deposit_replicated_def deposit_def withdraw_replicated_def withdraw_def primary_reads
      executeTransfer_replicated_def executeTransfer_def primary_finds s by (intro allI refl)+
qed

text \<open>Without a read host, or with a replica that is never behind, the service with a replica is the service
  without one: every request and the recovery do the same.\<close>

theorem synchronous_replica_is_invisible:
  assumes "\<not> given (get_databaseReadHost E) \<or> T = db"
  shows "deposit_replicated (app_reads E T) = deposit \<and> withdraw_replicated (app_reads E T) = withdraw \<and>
    getBalance_replicated (app_reads E T) = getBalance \<and> getHistory_replicated (app_reads E T) = getHistory \<and>
    executeTransfer_replicated (app_reads E T) = executeTransfer \<and> recoverSaga_replicated (app_reads E T) = recoverSaga"
  by (simp add: app_reads_primary[OF assms] primary_reads primary_requests)

theorem synchronous_replica_is_invisible_witness:
  "\<not> given (get_databaseReadHost Map.empty) \<and> deposit_replicated (app_reads Map.empty (\<lambda>_. empty_tables)) = deposit"
proof -
  have "\<not> given (get_databaseReadHost Map.empty)" by (simp add: get_databaseReadHost_def given_def)
  then show ?thesis using synchronous_replica_is_invisible[of Map.empty "\<lambda>_. empty_tables"] by simp
qed

section \<open>A recovery that reads an old state\<close>

text \<open>The saga a recovery finds is that of the replica; the tables are those of the master.\<close>

lemma replica_saga:
  assumes "on_replica T (saga_findById s) w = (r, w')"
  shows "db w' = db w \<and> (\<forall>z. r = Ok z \<longrightarrow> z = map_option (saga_of_row s) (sagas (T w) s))"
proof -
  obtain w1 where w1: "saga_findById s (w\<lparr>db := T w\<rparr>) = (r, w1)" "w' = w1\<lparr>db := db w\<rparr>"
    using assms by (auto simp: on_replica_def split: prod.splits)
  have "outcomes (\<lambda>v. db v = T w) (saga_findById s)
      (\<lambda>r v. db v = T w \<and> (\<forall>z. r = Ok z \<longrightarrow> z = map_option (saga_of_row s) (sagas (db v) s)))"
    using saga_findById_outcomes[where J = "\<lambda>t. t = T w"] by simp
  from outcomesD[OF this _ w1(1)] w1(2) show ?thesis by auto
qed

lemma settled_same: "transfers l s = Some x \<Longrightarrow> settled l s x l' \<Longrightarrow> l' = l"
  by (auto simp: settled_def fun_upd_idem option.map_ident intro!: ledger.equality ext)

lemma final_state_stays: "saga_moves\<^sup>*\<^sup>* st st' \<Longrightarrow> st \<in> {COMPLETED, COMPENSATED, FAILED} \<Longrightarrow> st' = st"
  by (induction rule: converse_rtranclp_induct) (auto elim: saga_moves.cases)

lemma after_debited: "saga_moves\<^sup>*\<^sup>* DEBITED st \<Longrightarrow> st \<in> {DEBITED, COMPLETED, COMPENSATED}"
  by (induction rule: rtranclp_induct) (auto elim: saga_moves.cases)

text \<open>Either nothing happens, or the transfer of an old saga that is debited is carried on.\<close>

lemma lagging_recovery:
  assumes "recoverSaga_replicated T P C s w = (r, w')" and "decimal_column P" and "s \<noteq> []"
    and "carries P (db w) s x (db w)"
    and "\<And>x0. sagas (T w) s = Some x0 \<Longrightarrow> stands_for (saga_of_row s x0) s x"
  shows "db w' = db w \<or> (carries P (db w) s x (db w') \<and> map_option srow_state (sagas (T w) s) = Some DEBITED)"
proof -
  obtain r1 w1 where find: "on_replica T (saga_findById s) w = (r1, w1)" by fastforce
  note f = replica_saga[OF find]
  show ?thesis
  proof (cases "\<exists>x0. r1 = Ok (Some (saga_of_row s x0)) \<and> sagas (T w) s = Some x0 \<and> srow_state x0 = DEBITED")
    case False
    then have "db w' = db w"
      using assms(1) f find unfolding recoverSaga_replicated_def
      by (cases r1) (auto simp: await_run ret_def saga_of_row_def split: option.splits)
    then show ?thesis by simp
  next
    case True
    then obtain x0 where x0: "r1 = Ok (Some (saga_of_row s x0))" "sagas (T w) s = Some x0" "srow_state x0 = DEBITED" by blast
    have "try_catch (creditToReceiver P C (saga_of_row s x0) True) (\<lambda>e. compensate P C (saga_id (saga_of_row s x0))
        (fromWalletId (saga_of_row s x0)) (saga_amount (saga_of_row s x0)) (''Recovery failed: '' @ error_message e)) w1 = (r, w')"
      using assms(1) find x0(1,3) by (simp add: recoverSaga_replicated_def await_run saga_of_row_def)
    from outcomesD[OF recovered_outcomes[OF assms(2,3) assms(5)[OF x0(2)]] _ this] assms(4) f
    show ?thesis using x0(2,3) by simp
  qed
qed

text \<open>C17: A recovery may find a state of the saga that it had some time ago. Whatever it does then, under every
  behaviour of the environment, only that transfer gets on, along the state machine and with the balances of
  its new state; and if the transfer was settled already, nothing is moved a second time.\<close>

theorem lagging_recovery_settles_once:
  assumes "decimal_column P" and "distinct_uuids P" and "sound_tables P (db w)" and "sagas (db w) s = Some x"
    and "\<And>x0. sagas (T w) s = Some x0 \<Longrightarrow> srow_from x0 = srow_from x \<and> srow_to x0 = srow_to x \<and>
      srow_amount x0 = srow_amount x \<and> saga_moves\<^sup>*\<^sup>* (srow_state x0) (srow_state x)"
    and "recoverSaga_replicated T P C s w = (r, w')"
  shows "(\<exists>st. saga_moves\<^sup>*\<^sup>* (srow_state x) st \<and>
      settled (ledger_of (db w)) s ((transfer_of_row x)\<lparr>tr_state := st\<rparr>) (ledger_of (db w'))) \<and>
    (srow_state x \<noteq> DEBITED \<longrightarrow> ledger_of (db w') = ledger_of (db w))"
proof -
  let ?x = "transfer_of_row x"
  have s: "s \<noteq> []" using assms(2,3,4) unfolding sound_tables_def distinct_uuids_def by metis
  have tx: "transfers (ledger_of (db w)) s = Some ?x" using assms(4) by simp
  have start: "carries P (db w) s ?x (db w)" by (rule stage_carries, rule stage_start[OF assms(3) tx])
  have st: "stands_for (saga_of_row s x0) s ?x" if "sagas (T w) s = Some x0" for x0
    using row_stands_for[OF start assms(4)] assms(5)[OF that] by (simp add: stands_for_def saga_of_row_def)
  from lagging_recovery[OF assms(6,1) s start st] show ?thesis
  proof
    assume "db w' = db w"
    then show ?thesis using settled_refl[OF tx] by (intro conjI exI[of _ "srow_state x"]) (auto simp: transfer_of_row_def)
  next
    assume c: "carries P (db w) s ?x (db w') \<and> map_option srow_state (sagas (T w) s) = Some DEBITED"
    then obtain st where stage: "stage P (db w) s ?x st (db w')" by (auto simp: carries_def)
    have moves: "saga_moves\<^sup>*\<^sup>* (srow_state x) st"
      using run_transfer[of "ledger_of (db w)" "ledger_of (db w')" s ?x] stage tx stage_transfer[OF stage]
      by (auto simp: stage_def follows_def transfer_of_row_def simp del: ledger_of_simps)
    have "srow_state x \<in> {DEBITED, COMPLETED, COMPENSATED}" using c assms(5) after_debited by fastforce
    then have "ledger_of (db w') = ledger_of (db w)" if "srow_state x \<noteq> DEBITED"
      using final_state_stays[OF moves] that stage settled_same[OF tx] by (auto simp: stage_def transfer_of_row_def)
    then show ?thesis using stage moves by (auto simp: stage_def)
  qed
qed

section \<open>A key the replica does not have yet\<close>

text \<open>C36: A request that is repeated before the key of the first has reached the replica is applied again: the deposit
  goes through, with its key, although the master has the response of the first under it.\<close>

theorem lagging_replica_applies_again:
  assumes "decimal_column P" and "calm w" and "given (Some q)" and "length q \<le> 255"
    and "idempotencyKeys (db w) q = Some response" and "idempotencyKeys (T w) q = None"
    and "redis_lookup (''lock:req:'' @ q) w = None"
    and "wallets (db w) i = Some r" and "sound_row r" and "row_status r = ACTIVE" and "length i \<le> 255"
    and "row_balance r = Cents j" and "0 < k" and "j + k \<le> 10 ^ 15 - 10"
  shows "\<exists>a w'. deposit_replicated T P i (amount_of k) (Some q) w = (Ok a, w') \<and>
    deposited i k (Some q) (db w) (db w') \<and> balance_cents (db w') i = Some (j + k)"
proof -
  let ?a = "balance_result (JNum (js_add (amount_of j) (amount_of k))) i"
  obtain w1 where w1: "execute P (idempotent_operation P i (amount_of k) FUNDS_DEPOSITED (\<lambda>now. wallet_deposit (amount_of k)) (Some q) True)
      \<lparr>lockKey = Some (''lock:req:'' @ q), lockTtl = 60\<rparr> w = (Ok ?a, w1)" "calm w1"
      "deposited i k (Some q) (db w) (db w1)" "balance_cents (db w1) i = Some (j + k)"
    using transaction_applies[OF assms(1,2,4,7-14)] by blast
  have find: "on_replica T (findByRequestId q) w = (Ok None, w)"
    using assms(2,6) findByRequestId_calm[of "w\<lparr>db := T w\<rparr>" q] by (simp add: on_replica_def)
  have call: "executeIdempotentTransaction_replicated T P i (amount_of k) FUNDS_DEPOSITED (\<lambda>now. wallet_deposit (amount_of k)) (Some q) True w
      = (Ok ?a, w1)"
    using assms(3) w1(1) by (simp add: executeIdempotentTransaction_replicated_def await_run find)
  obtain w2 where w2: "setBalanceCache P i (property ?a ''balance'') w1 = (Ok (), w2)" "db w2 = db w1"
    using w1(2) by (simp add: setBalanceCache_def redis_set_ex_calm)
  have "deposit_replicated T P i (amount_of k) (Some q) w = (Ok ?a, w2)"
    by (simp add: deposit_replicated_def await_run call w2(1) ret_run)
  then show ?thesis using w1(3,4) w2(2) by auto
qed

section \<open>A failed transfer whose debit the replica does not have yet\<close>

lemma execute_throws_calm:
  assumes "calm w" "lock_free opts w" "operation (inside_state opts w) = (Throw e, w1)" "calm w1"
  shows "execute P operation opts w = (Throw e, unlocked opts (w1\<lparr>tx := None\<rparr>))"
proof -
  have body: "try_catch (await operation (\<lambda>result. await get_state (\<lambda>w.
      await (run_if (eventsToPublish w \<noteq> []) (outbox_saveAll P (eventsToPublish w) True)) (\<lambda>_.
      await commitTransaction (\<lambda>_. ret result))))) (\<lambda>e. await rollbackTransaction (\<lambda>_. throw e)) (inside_state opts w)
      = (Throw e, w1\<lparr>tx := None\<rparr>)"
    using assms(4) by (simp add: try_catch_def await_run assms(3) throw_def calm_runs)
  have finish: "await release (\<lambda>_. run_if (given (lockKey opts)) (redis_del (the (lockKey opts)))) (w1\<lparr>tx := None\<rparr>) =
      (Ok (), unlocked opts (w1\<lparr>tx := None\<rparr>))"
    using assms(4) by (simp add: run_simps calm_runs unlocked_def)
  have "try_finally (try_catch (await operation (\<lambda>result. await get_state (\<lambda>w.
      await (run_if (eventsToPublish w \<noteq> []) (outbox_saveAll P (eventsToPublish w) True)) (\<lambda>_.
      await commitTransaction (\<lambda>_. ret result))))) (\<lambda>e. await rollbackTransaction (\<lambda>_. throw e)))
      (await release (\<lambda>_. run_if (given (lockKey opts)) (redis_del (the (lockKey opts))))) (inside_state opts w) =
      (Throw e, unlocked opts (w1\<lparr>tx := None\<rparr>))"
    by (rule try_finally_run(2), rule body, rule finish)
  then show ?thesis
    using acquireLock_calm[OF assms(1,2)] assms(1)
    by (cases "given (lockKey opts)") (simp_all add: execute_def run_simps calm_runs inside_state_def locked_def)
qed

text \<open>Crediting a wallet that is not active is rejected, at once and without a trace in the tables.\<close>

lemma credit_inactive_calm:
  assumes c: "calm w" "0 < maxRetries C" and row: "wallets (db w) g = Some r" "row_status r \<noteq> ACTIVE"
    and k: "0 < k" "k \<le> 10 ^ 15" and saga: "stands_for saga s (new_transfer f g k)"
  shows "\<exists>w'. creditToReceiver P C saga recovered w = (Throw (WalletNotActiveError (status_text (row_status r))), w') \<and>
    calm w' \<and> db w' = db w \<and> clock w' = clock w"
proof -
  let ?e = "WalletNotActiveError (status_text (row_status r))" and ?w0 = "inside_state default_options w"
  obtain n where n: "maxRetries C = Suc n" using c(2) by (cases "maxRetries C") auto
  have ids: "toWalletId saga = g" "saga_amount saga = amount_of k"
    using saga by (simp_all add: stands_for_def new_transfer_def)
  have find: "sql True (find_wallet g) ?w0 = (Ok (Some (wallet_of_row g r)), ?w0)"
    using sql_calm[of ?w0 "db w" "find_wallet g" "Some (wallet_of_row g r)" "db w"] c(1) row(1) by simp
  have credit: "wallet_credit (amount_of k) (wallet_of_row g r) = (Throw ?e, wallet_of_row g r)"
    using k row(2) by (simp add: wallet_credit_run wallet_of_row_def amount_not_less_eq_zero)
  let ?op = "\<lambda>m x. step_operation P (saga_id saga) g (amount_of k) (\<lambda>now. wallet_credit (amount_of k)) FUNDS_DEPOSITED m markAsCompleted x"
  have op: "?op m x ?w0 = (Throw ?e, ?w0)" for m x
    by (simp add: step_operation_def await_run find get_state_run call_method_def credit)
  have free: "lock_free default_options w" by (simp add: lock_free_def default_options_def given_def)
  have "execute P (?op m x) default_options w = (Throw ?e, unlocked default_options (?w0\<lparr>tx := None\<rparr>))" for m x
    using execute_throws_calm[where operation = "?op m x" and P = P, OF c(1) free op] c(1) by simp
  then have "creditToReceiver P C saga recovered w = (Throw ?e, unlocked default_options (?w0\<lparr>tx := None\<rparr>))"
    unfolding creditToReceiver_def ids executeTransactionalStep_def executeWithRetry_def n
    by (simp add: await_run try_catch_def throw_def)
  then show ?thesis using c(1) by simp
qed

text \<open>The failure handler finds the saga as it was created and marks it failed.\<close>

lemma handle_failure_pending:
  assumes P: "decimal_column P" and c: "calm w" and s: "s \<noteq> []" "saga_id saga = s"
    and x: "sagas (T w) s = Some x" "srow_state x = PENDING" "saga_fits x"
  shows "\<exists>x1 w'. handle_failure_replicated T P C saga e w = (Throw e, w') \<and> calm w' \<and>
    srow_state x1 = FAILED \<and> db w' = (db w)\<lparr>sagas := (sagas (db w))(s \<mapsto> x1)\<rparr>"
proof -
  have find: "on_replica T (saga_findById s) w = (Ok (Some (saga_of_row s x)), w)"
    using repository_calm[of "w\<lparr>db := T w\<rparr>" "find_saga s" "Some (saga_of_row s x)" "T w"] c x(1)
    by (simp add: on_replica_def saga_findById_def)
  obtain y where y: "markAsFailed (error_message e) (saga_of_row s x) = (Ok (), y)" "saga_id y = s" "saga_state y = FAILED"
      "fromWalletId y = srow_from x" "toWalletId y = srow_to x" "saga_amount y = decimal_from (srow_amount x)"
      "saga_currency y = srow_currency x"
    by (simp add: run_simps saga_of_row_def)
  obtain x1 where x1: "row_of_saga P (clock w) (sagas (db w) s) y = Inr x1" "srow_state x1 = FAILED"
    using saga_fits_save[OF P x(3) y(4-7), of "clock w" "sagas (db w) s"] y(3) by auto
  have save: "saga_save P y w = (Ok (y\<lparr>saga_updatedAt := Some (clock w)\<rparr>), w\<lparr>db := (db w)\<lparr>sagas := (sagas (db w))(s \<mapsto> x1)\<rparr>\<rparr>)"
    using repository_calm[of w "save_saga P y" _ "(db w)\<lparr>sagas := (sagas (db w))(s \<mapsto> x1)\<rparr>"] c x1(1) y(2) s(1)
    by (simp add: saga_save_def save_saga_def)
  have pending: "saga_state (saga_of_row s x) = PENDING" using x(2) by (simp add: saga_of_row_def)
  have marked: "call_method (markAsFailed (error_message e)) (saga_of_row s x) v = (Ok y, v)" for v :: world
    by (simp add: call_method_def y(1))
  have "handle_failure_replicated T P C saga e w = (Throw e, w\<lparr>db := (db w)\<lparr>sagas := (sagas (db w))(s \<mapsto> x1)\<rparr>\<rparr>)"
    unfolding handle_failure_replicated_def s(2) by (simp add: await_run find pending marked save ret_run throw_def)
  then show ?thesis using x1(2) c by auto
qed

text \<open>A saga that was debited and cannot be credited, when the replica still has it pending.\<close>

lemma debited_then_failed:
  assumes "decimal_column P" and "calm w" and "0 < maxRetries C"
    and "wallets (db w) f = Some rf" and "can_pay rf k" and "length f \<le> 255"
    and "wallets (db w) g = Some rg" and "row_status rg \<noteq> ACTIVE" and "f \<noteq> g" and "0 < k" and "k \<le> 10 ^ 15"
    and "stands_for saga (saga_id saga) (new_transfer f g k)" and "saga_id saga \<noteq> []" and "saga_fits x"
    and "transfer_of_row x = new_transfer f g k" and "sagas (db w) (saga_id saga) = Some x"
    and "\<And>v. T v = (if wallets (db v) = wallets (db w) then db v else db w)"
  shows "\<exists>x1 w'. try_catch (run_saga P C saga f g a rid) (handle_failure_replicated T P C saga) w =
      (Throw (WalletNotActiveError (status_text (row_status rg))), w') \<and> calm w' \<and>
    balance_cents (db w') = (balance_cents (db w))(f \<mapsto> cents (row_balance rf) - k) \<and>
    sagas (db w') (saga_id saga) = Some x1 \<and> srow_state x1 = FAILED"
proof -
  let ?s = "saga_id saga" and ?e = "WalletNotActiveError (status_text (row_status rg))"
  obtain r1 x1 w2 where w2: "debitFromSender P C saga w = (Ok (), w2)" "stepped f r1 ?s x1 w w2"
      "cents (row_balance r1) = cents (row_balance rf) - k"
    using debit_calm[OF assms(1-4,6,5,10,16,13,14,15,12)] by blast
  have c2: "calm w2" "wallets (db w2) = (wallets (db w))(f \<mapsto> r1)" "wallets (db w2) g = Some rg"
    using w2(2) assms(7,9) by (auto simp: stepped_def)
  obtain w3 where w3: "creditToReceiver P C saga False w2 = (Throw ?e, w3)" "calm w3" "db w3 = db w2"
    using credit_inactive_calm[OF c2(1) assms(3) c2(3) assms(8,10,11,12), of P False] by blast
  have "r1 \<noteq> rf" using w2(3) assms(10) by auto
  then have "wallets (db w3) \<noteq> wallets (db w)" using w3(3) c2(2) assms(4) by (metis fun_upd_same option.inject)
  then have old: "T w3 = db w" using assms(17)[of w3] by simp
  have "srow_state x = PENDING" using assms(15) by (simp add: transfer_of_row_def new_transfer_def)
  then obtain x2 w4 where w4: "handle_failure_replicated T P C saga ?e w3 = (Throw ?e, w4)" "calm w4" "srow_state x2 = FAILED"
      "db w4 = (db w3)\<lparr>sagas := (sagas (db w3))(?s \<mapsto> x2)\<rparr>"
    using handle_failure_pending[OF assms(1) w3(2) assms(13) refl, of T x C ?e] old assms(14,16) by auto
  have "run_saga P C saga f g a rid w = (Throw ?e, w3)"
    unfolding run_saga_def by (simp add: await_run w2(1) w3(1))
  then have "try_catch (run_saga P C saga f g a rid) (handle_failure_replicated T P C saga) w = (Throw ?e, w4)"
    by (simp add: try_catch_def w4(1))
  moreover have "balance_cents (db w4) = (balance_cents (db w))(f \<mapsto> cents (row_balance rf) - k)"
    using w4(4) w3(3) c2(2) w2(3) by (auto simp: balance_cents_def fun_eq_iff)
  ultimately show ?thesis using w4 by auto
qed

text \<open>C33: A transfer to a wallet that is not active, when everything works and the replica is up to date but for the
  debit: the failure handler finds the saga still pending and marks it failed, over the debited one. The sender has
  lost \<open>k\<close> cents, nobody has got them, and the recovery does nothing about it.\<close>

theorem lagging_replica_loses_money:
  assumes "decimal_column P" and "distinct_uuids P" and "calm w" and "0 < maxRetries C"
    and "stored_response rid (db w) = None"
    and "wallets (db w) f = Some rf" and "can_pay rf k" and "length f \<le> 255"
    and "wallets (db w) g = Some rg" and "row_status rg \<noteq> ACTIVE" and "length g \<le> 255"
    and "f \<noteq> g" and "row_currency rg = row_currency rf" and "0 < k" and "k \<le> 10 ^ 15 - 10"
    and "createSaga P f g (amount_of k) (row_currency rf) rid (w\<lparr>tx := None\<rparr>) = (Ok saga, w1)"
    and "\<And>v. T v = (if wallets (db v) = wallets (db w) then db v else db w1)"
  shows "\<exists>w'. executeTransfer_replicated T P C f g (amount_of k) rid w =
      (Throw (WalletNotActiveError (status_text (row_status rg))), w') \<and>
    balance_cents (db w') = (balance_cents (db w))(f \<mapsto> cents (row_balance rf) - k) \<and>
    map_option srow_state (sagas (db w') (saga_id saga)) = Some FAILED \<and>
    recoverSaga P C (saga_id saga) w' = (Ok (), w')"
proof -
  let ?s = "saga_id saga" and ?e = "WalletNotActiveError (status_text (row_status rg))"
  have now: "T w = db w" using assms(17)[of w] by simp
  have cur: "length (row_currency rf) \<le> 3" using assms(7) by (auto simp: can_pay_def sound_row_def)
  obtain x where x: "calm w1" "stands_for saga ?s (new_transfer f g k)" "?s \<noteq> []" "saga_fits x"
      "transfer_of_row x = new_transfer f g k" "wallets (db w1) = wallets (db w)" "sagas (db w1) ?s = Some x"
    using createSaga_calm[OF assms(1,2) _ assms(8,11) cur assms(14,15), of "w\<lparr>tx := None\<rparr>" rid] assms(3,16) by auto
  have row: "wallets (db w1) f = Some rf" "wallets (db w1) g = Some rg" "k \<le> 10 ^ 15" using assms(6,9,15) x(6) by simp_all
  have lag: "T v = (if wallets (db v) = wallets (db w1) then db v else db w1)" for v using assms(17) x(6) by simp
  obtain x1 w' where failed: "try_catch (run_saga P C saga f g (amount_of k) rid) (handle_failure_replicated T P C saga) w1 = (Throw ?e, w')"
      "calm w'" "balance_cents (db w') = (balance_cents (db w1))(f \<mapsto> cents (row_balance rf) - k)"
      "sagas (db w') ?s = Some x1" "srow_state x1 = FAILED"
    using debited_then_failed[OF assms(1) x(1) assms(4) row(1) assms(7,8) row(2) assms(10,12,14) row(3) x(2,3,4,5,7) lag] by blast
  have find: "on_replica T (findById f) w = (Ok (Some (wallet_of_row f rf)), w)"
    using findById_calm[of w f] assms(3,6) now by (simp add: on_replica_def)
  have "start_transfer_replicated T P C f g (amount_of k) rid w = (Throw ?e, w')"
    using assms(12,13,16) find getOrCreate_existing_calm[OF assms(3,9), of P "row_currency rf"] failed(1)
    by (simp add: start_transfer_replicated_def await_run wallet_of_row_def)
  moreover have "(if given rid then on_replica T (findByRequestId (the rid)) else ret None) w = (Ok None, w)"
    using assms(3,5) findByRequestId_calm[of w "the rid"] now by (auto simp: stored_response_def on_replica_def ret_run)
  ultimately have "executeTransfer_replicated T P C f g (amount_of k) rid w = (Throw ?e, w')"
    by (auto simp: executeTransfer_replicated_def await_run simp del: if_split_asm)
  moreover have "saga_findById ?s w' = (Ok (Some (saga_of_row ?s x1)), w')"
    using repository_calm[of w' "find_saga ?s" "Some (saga_of_row ?s x1)" "db w'"] failed(2,4) by (simp add: saga_findById_def)
  then have "recoverSaga P C ?s w' = (Ok (), w')"
    using failed(5) by (simp add: recoverSaga_def await_run ret_run saga_of_row_def)
  moreover have "balance_cents (db w1) = balance_cents (db w)" using x(6) by (simp add: balance_cents_def fun_eq_iff)
  ultimately show ?thesis using failed(3,4,5) by auto
qed

section \<open>Concrete cases\<close>

text \<open>The transfer of \<open>debited_tables\<close>, completed; the replica still has it debited.\<close>

definition completed_tables :: tables where
  "completed_tables = debited_tables\<lparr>wallets := [''a'' \<mapsto> sample_row 900, ''b'' \<mapsto> sample_row 100],
     sagas := [''s'' \<mapsto> debited_row\<lparr>srow_state := COMPLETED\<rparr>]\<rparr>"

lemma completed_sound: "sound_tables postgres completed_tables"
proof -
  have l: "ledger_of completed_tables = \<lparr>balances = [''a'' \<mapsto> 900, ''b'' \<mapsto> 100],
      transfers = [''s'' \<mapsto> \<lparr>tr_from = ''a'', tr_to = ''b'', tr_cents = 100, tr_state = COMPLETED\<rparr>]\<rparr>"
    by (auto simp: ledger_of_def balance_cents_def completed_tables_def fun_eq_iff transfer_of_row_def)
  have "total_of in_flight [''s'' \<mapsto> \<lparr>tr_from = ''a'', tr_to = ''b'', tr_cents = 100, tr_state = COMPLETED\<rparr>] = 0"
    by (simp add: total_of_def in_flight_def)
  then show ?thesis
    unfolding sound_tables_def sound_ledger_def money_def l
    by (auto simp: total_of_pair completed_tables_def debited_tables_def postgres_def split: if_splits)
qed

theorem lagging_recovery_settles_once_witness:
  "ledger_of (db (snd (recoverSaga_replicated (\<lambda>_. debited_tables) postgres default_config ''s'' (new_world completed_tables 0 [])))) =
    ledger_of completed_tables"
proof -
  let ?w = "new_world completed_tables 0 []" and ?T = "\<lambda>_. debited_tables"
  have "saga_moves\<^sup>*\<^sup>* DEBITED COMPLETED" by (rule r_into_rtranclp) (rule saga_moves.intros)
  then show ?thesis
    using lagging_recovery_settles_once[of postgres ?w "''s''" "debited_row\<lparr>srow_state := COMPLETED\<rparr>" ?T default_config,
        OF _ _ _ _ _ surjective_pairing] completed_sound
    by (simp add: new_world_def completed_tables_def)
qed

theorem lagging_replica_applies_again_witness:
  "\<exists>a w'. deposit_replicated (\<lambda>_. sample_tables) postgres ''a'' (amount_of 100) (Some ''r'') answered_world = (Ok a, w') \<and>
    balance_cents (db w') ''a'' = Some 1100"
  using lagging_replica_applies_again[of postgres answered_world "''r''" "balance_result (JNum (Fin 7)) ''a''" "\<lambda>_. sample_tables"
      "''a''" "sample_row 1000" 1000 100] answered_facts
  by (fastforce simp: given_def sample_tables_def empty_tables_def)

definition frozen_world :: world where
  "frozen_world = new_world (sample_tables\<lparr>wallets := [''a'' \<mapsto> sample_row 1000, ''b'' \<mapsto> (sample_row 0)\<lparr>row_status := FROZEN\<rparr>]\<rparr>) 0 []"

lemma frozen_facts:
  "calm frozen_world" "wallets (db frozen_world) ''a'' = Some (sample_row 1000)"
  "wallets (db frozen_world) ''b'' = Some ((sample_row 0)\<lparr>row_status := FROZEN\<rparr>)"
  "balance_cents (db frozen_world) ''a'' = Some 1000" "balance_cents (db frozen_world) ''b'' = Some 0"
  by (simp_all add: frozen_world_def new_world_def calm_def balance_cents_def)

theorem lagging_replica_loses_money_witness:
  "\<exists>T s w'. executeTransfer_replicated T postgres default_config ''a'' ''b'' (amount_of 100) None frozen_world =
      (Throw (WalletNotActiveError ''FROZEN''), w') \<and>
    balance_cents (db w') ''a'' = Some 900 \<and> balance_cents (db w') ''b'' = Some 0 \<and>
    map_option srow_state (sagas (db w') s) = Some FAILED \<and> recoverSaga postgres default_config s w' = (Ok (), w')"
proof -
  obtain saga w1 where new: "createSaga postgres ''a'' ''b'' (amount_of 100) ''USD'' None (frozen_world\<lparr>tx := None\<rparr>) = (Ok saga, w1)"
    using createSaga_calm[of postgres "frozen_world\<lparr>tx := None\<rparr>" "''a''" "''b''" "''USD''" 100 None] frozen_facts by auto
  let ?T = "\<lambda>v :: world. if wallets (db v) = wallets (db frozen_world) then db v else db w1"
  show ?thesis
    using lagging_replica_loses_money[of postgres frozen_world default_config None "''a''" "sample_row 1000" 100 "''b''"
        "(sample_row 0)\<lparr>row_status := FROZEN\<rparr>" saga w1 ?T] frozen_facts new
    by (intro exI[of _ ?T] exI[of _ "saga_id saga"]) (auto simp: stored_response_def given_def)
qed

end
