(* ===== verification/ReplicaJobs.thy ===== *)
theory ReplicaJobs imports Replica SagaRecovery OutboxRelay
begin

text \<open>
  The background jobs of a service with a read replica: the relay and the recovery worker also look for their
  rows there. A replica that has old versions of the rows of the master makes the relay publish an event again and
  the worker look at a saga in vain; it does not make the relay mark what was not delivered
  (\<open>lagging_relay_marks_only_delivered\<close>), nor the worker move money twice (\<open>lagging_worker_conserves_money\<close>).
\<close>

section \<open>The jobs\<close>

definition relay_body_replicated :: "(world \<Rightarrow> tables) \<Rightarrow> app_config \<Rightarrow> unit handler" where
  "relay_body_replicated T C =
     await (set_processing True) (\<lambda>_.
     await (on_replica T (findUnpublished 100)) (\<lambda>events.
     if events = [] then ret ()
     else await (relay_loop C events []) (\<lambda>publishedIds.
          run_if (publishedIds \<noteq> []) (markAsPublished publishedIds))))"

definition handleCron_replicated :: "(world \<Rightarrow> tables) \<Rightarrow> app_config \<Rightarrow> unit handler" where
  "handleCron_replicated T C = await get_state (\<lambda>w.
     if isProcessing w then ret ()
     else await (try_catch (redis_set_ex_nx RELAY_LOCK_KEY (RStr ''PROCESSING'') 30) (\<lambda>_. ret False)) (\<lambda>lockAcquired.
       await (if lockAcquired then try_catch (relay_body_replicated T C) (\<lambda>_. ret ()) else ret ()) (\<lambda>_.
       await (set_processing False) (\<lambda>_.
       if lockAcquired then try_catch (redis_del RELAY_LOCK_KEY) (\<lambda>_. ret ()) else ret ()))))"

definition recover_one_replicated :: "(world \<Rightarrow> tables) \<Rightarrow> platform \<Rightarrow> app_config \<Rightarrow> transfer_saga \<Rightarrow> unit handler" where
  "recover_one_replicated T P C saga = try_catch (recoverSaga_replicated T P C (saga_id saga)) (\<lambda>_. ret ())"

definition recovery_body_replicated :: "(world \<Rightarrow> tables) \<Rightarrow> platform \<Rightarrow> app_config \<Rightarrow> unit handler" where
  "recovery_body_replicated T P C = await get_state (\<lambda>w.
     await (on_replica T (saga_find P (is_stuck C (clock w)) 10)) (\<lambda>stuckSagas.
     if stuckSagas = [] then ret () else for_each stuckSagas (recover_one_replicated T P C)))"

definition processStuckSagas_replicated :: "(world \<Rightarrow> tables) \<Rightarrow> platform \<Rightarrow> app_config \<Rightarrow> unit handler" where
  "processStuckSagas_replicated T P C = await get_state (\<lambda>w.
     if isRecovering w then ret ()
     else await (set_recovering True) (\<lambda>_.
       try_finally (try_catch (recovery_body_replicated T P C) (\<lambda>_. ret ())) (set_recovering False)))"

section \<open>The relay\<close>

text \<open>The replica has no event that the master has not.\<close>

definition lagging_outbox :: "(world \<Rightarrow> tables) \<Rightarrow> bool" where
  "lagging_outbox T \<longleftrightarrow> (\<forall>w. events_of (db w) (outboxEvents (T w)))"

lemma replica_events:
  assumes "lagging_outbox T"
  shows "outcomes (\<lambda>w. db w = t) (on_replica T (findUnpublished n))
    (\<lambda>r w. db w = t \<and> (\<forall>events. r = Ok events \<longrightarrow> events_of t events))"
proof (rule outcomesI)
  fix w r w' assume w: "db w = t" and run: "on_replica T (findUnpublished n) w = (r, w')"
  obtain w1 where w1: "findUnpublished n (w\<lparr>db := T w\<rparr>) = (r, w1)" "w' = w1\<lparr>db := db w\<rparr>"
    using run by (auto simp: on_replica_def split: prod.splits)
  then have "set events \<subseteq> set (outboxEvents (T w))" if "r = Ok events" for events
    using that unfolding findUnpublished_def repository_sql_def extern_def perform_def in_db_def reading_def
    by (auto split: list.splits reply.splits if_splits dest!: in_set_takeD)
  moreover have "events_of t (outboxEvents (T w))" using assms w by (auto simp: lagging_outbox_def)
  ultimately have "events_of t events" if "r = Ok events" for events
    using that unfolding events_of_def by blast
  then show "db w' = t \<and> (\<forall>events. r = Ok events \<longrightarrow> events_of t events)" using w w1(2) by simp
qed

lemma relay_body_replicated_outcomes:
  "lagging_outbox T \<Longrightarrow> outcomes (\<lambda>w. db w = t) (relay_body_replicated T C) (\<lambda>r. relayed C t)"
  unfolding relay_body_replicated_def by (rule relay_body_outcomes_of[OF replica_events])

text \<open>The relay of a service with a replica marks no event that the broker has not taken either, and never rejects.\<close>

theorem lagging_relay_marks_only_delivered:
  assumes "lagging_outbox T" and "distinct (map out_id (outboxEvents (db w)))" and "handleCron_replicated T C w = (r, w')"
  shows "(r = Ok () \<or> r = Crash) \<and> (\<exists>ids. db w' = set_published ids (db w) \<and>
    (\<forall>row \<in> set (outboxEvents (db w)). out_id row \<in> set ids \<longrightarrow> delivered C w' row))"
proof -
  have "outcomes (\<lambda>v. db v = db w) (handleCron_replicated T C) (\<lambda>r v. relayed C (db w) v \<and> (r = Ok () \<or> r = Crash))"
    unfolding handleCron_replicated_def by (rule relay_job_outcomes[OF relay_body_replicated_outcomes[OF assms(1)]])
  from outcomesD[OF this refl assms(3)] show ?thesis using relayed_delivered[OF _ assms(2)] by blast
qed

section \<open>The recovery worker\<close>

text \<open>The replica has old versions of the sagas of the master.\<close>

definition lagging_sagas :: "(world \<Rightarrow> tables) \<Rightarrow> bool" where
  "lagging_sagas T \<longleftrightarrow> (\<forall>w s x0. sagas (T w) s = Some x0 \<longrightarrow> (\<exists>x. sagas (db w) s = Some x \<and>
     srow_from x0 = srow_from x \<and> srow_to x0 = srow_to x \<and> srow_amount x0 = srow_amount x \<and>
     saga_moves\<^sup>*\<^sup>* (srow_state x0) (srow_state x)))"

lemma tables_on_replica: "obeys same_tables (on_replica T m)"
  by (auto simp: obeys_def on_replica_def same_tables_def split: prod.split)

lemma lagging_recovery_follows:
  assumes "decimal_column P \<and> distinct_uuids P \<and> lagging_sagas T" and "sound_tables P (db w)"
    and "recoverSaga_replicated T P C s w = (r, w')"
  shows "follows P (db w) (db w')"
proof (cases "sagas (T w) s")
  case None
  have "db w' = db w"
  proof -
    obtain r1 w1 where find: "on_replica T (saga_findById s) w = (r1, w1)" by fastforce
    show ?thesis
      using assms(3) replica_saga[OF find] find None unfolding recoverSaga_replicated_def
      by (cases r1) (auto simp: await_run ret_def)
  qed
  then show ?thesis using assms(2) by (simp add: follows_def run_refl)
next
  case (Some x0)
  then obtain x where x: "sagas (db w) s = Some x" "srow_from x0 = srow_from x" "srow_to x0 = srow_to x" "srow_amount x0 = srow_amount x"
    using assms(1) unfolding lagging_sagas_def by metis
  have s: "s \<noteq> []" using assms(1,2) x(1) unfolding sound_tables_def distinct_uuids_def by metis
  have start: "carries P (db w) s (transfer_of_row x) (db w)"
    by (rule stage_carries, rule stage_start[OF assms(2)]) (simp add: x(1))
  have st: "stands_for (saga_of_row s y) s (transfer_of_row x)" if "sagas (T w) s = Some y" for y
    using row_stands_for[OF start x(1)] x(2-4) that Some by (simp add: stands_for_def saga_of_row_def)
  show ?thesis
    using lagging_recovery[OF assms(3) _ s start st] assms(1,2) by (auto simp: follows_def run_refl dest: carries_follows)
qed

interpretation lagging_worker: recovery_job P "decimal_column P \<and> distinct_uuids P \<and> lagging_sagas T"
  "\<lambda>w. on_replica T (saga_find P (is_stuck C (clock w)) 10)" "recoverSaga_replicated T P C"
  by unfold_locales (auto intro: tables_on_replica lagging_recovery_follows)

text \<open>C18: The recovery worker of a service with a replica keeps to the transfer protocol although it looks for its
  sagas, and for the state of each, in old versions of them: whatever fails, it neither creates nor destroys a
  cent, never rejects and clears its flag.\<close>

theorem lagging_worker_conserves_money:
  assumes "decimal_column P" and "distinct_uuids P" and "sound_tables P (db w)" and "\<not> isRecovering w"
    and "lagging_sagas T" and "processStuckSagas_replicated T P C w = (r, w')"
  shows "(r = Crash \<or> r = Ok () \<and> \<not> isRecovering w') \<and>
    ledger_run (ledger_of (db w)) (ledger_of (db w')) \<and> money (ledger_of (db w')) = money (ledger_of (db w))"
proof -
  have one: "recover_one_replicated T P C = (\<lambda>saga. try_catch (recoverSaga_replicated T P C (saga_id saga)) (\<lambda>_. ret ()))"
    by (simp add: recover_one_replicated_def fun_eq_iff)
  have "follows P (db w) (db w') \<and> (r = Crash \<or> r = Ok () \<and> \<not> isRecovering w')"
    using lagging_worker.job_follows[OF _ assms(3,4) assms(6)[unfolded processStuckSagas_replicated_def recovery_body_replicated_def one]]
      assms(1,2,5) by blast
  then show ?thesis using assms(3) run_sound by (auto simp: follows_def sound_tables_def)
qed

text \<open>A worker that finds a saga debited which has been completed in the meantime.\<close>

theorem lagging_worker_conserves_money_witness:
  "\<exists>T. sagas (T (new_world completed_tables 20000 [])) ''s'' = Some debited_row \<and>
    money (ledger_of (db (snd (processStuckSagas_replicated T postgres default_config (new_world completed_tables 20000 []))))) =
    money (ledger_of completed_tables)"
proof -
  let ?T = "\<lambda>w. if db w = completed_tables then debited_tables else db w" and ?w = "new_world completed_tables 20000 []"
  have "saga_moves\<^sup>*\<^sup>* DEBITED COMPLETED" by (rule r_into_rtranclp) (rule saga_moves.intros)
  then have "lagging_sagas ?T"
    by (auto simp: lagging_sagas_def completed_tables_def debited_tables_def debited_row_def split: if_splits)
  moreover have "db ?w = completed_tables" "\<not> isRecovering ?w" by (simp_all add: new_world_def)
  ultimately show ?thesis
    using lagging_worker_conserves_money[of postgres ?w ?T default_config, OF _ _ _ _ _ surjective_pairing] completed_sound
    by (intro exI[of _ ?T]) simp
qed

end
