(* ===== verification/WithdrawalLimits.thy ===== *)
theory WithdrawalLimits imports WalletGuarantees
begin

text \<open>
  The withdrawal of the wallet entity (\<open>src/modules/wallet/entities/wallet.entity.ts\<close>) in whole
  cents, from the row a wallet was loaded from to the row it is saved to, and what floating point
  does to the daily limit.

  The entity adds and compares doubles. Within ten trillion, a sum of cents is off by less than
  half a cent (\<open>decimal_sum\<close>), so that a withdrawal that exceeds the limit by a cent is
  refused and one that stays below it by a cent is not. Of the amount that exactly reaches the limit
  neither can be said: \<open>limit_refuses_exact_amount\<close> is a withdrawal of it that is refused.
\<close>

section \<open>The row before and the row after\<close>

text \<open>What was withdrawn today, in cents, and whether an amount fits what is left of the limit, or
  leaves a cent of it.\<close>

definition total_today :: "int \<Rightarrow> wallet_row \<Rightarrow> int" where
  "total_today now r = (if row_lastDate r = Some (getTodayDate now) then cents (row_total r) else 0)"

definition within_limit :: "wallet_row \<Rightarrow> int \<Rightarrow> bool" where
  "within_limit r n \<longleftrightarrow> (\<forall>l. row_limit r = Some l \<longrightarrow> n \<le> cents l)"

definition below_limit :: "wallet_row \<Rightarrow> int \<Rightarrow> bool" where
  "below_limit r n \<longleftrightarrow> (\<forall>l. row_limit r = Some l \<longrightarrow> n < cents l)"

definition withdrawn_row :: "platform \<Rightarrow> int \<Rightarrow> int \<Rightarrow> int \<Rightarrow> wallet_row \<Rightarrow> wallet_row \<Rightarrow> bool" where
  "withdrawn_row P today now k r r' \<longleftrightarrow> row_balance r' = Cents (cents (row_balance r) - k) \<and>
     row_total r' = Cents (total_today today r + k) \<and> row_lastDate r' = Some (dateColumn P now) \<and>
     row_limit r' = row_limit r \<and> row_currency r' = row_currency r \<and> row_status r' = row_status r"

lemma on_day_total:
  assumes "sound_row r"
  shows "dailyWithdrawalTotal (on_day now (wallet_of_row i r)) = decimal_from (Cents (total_today now r))"
    and "0 \<le> total_today now r" and "total_today now r \<le> cents (row_total r)"
  using assms
  by (auto simp: total_today_def wallet_of_row_def date_from_def sound_row_def split: option.splits
      simp del: decimal_from.simps)

lemma limit_of_row:
  assumes "sound_row r" and "0 < k" and "total_today now r + k \<le> 10 ^ 15" and "dailyWithdrawalLimit (wallet_of_row i r) = Some l"
  shows "js_less l (js_add (decimal_from (Cents (total_today now r))) (amount_of k)) \<Longrightarrow> \<not> below_limit r (total_today now r + k)"
    and "\<not> js_less l (js_add (decimal_from (Cents (total_today now r))) (amount_of k)) \<Longrightarrow> within_limit r (total_today now r + k)"
proof -
  obtain c where c: "row_limit r = Some (Cents c)" "l = decimal_from (Cents c)" "0 \<le> c" "c \<le> 10 ^ 15"
    using assms(1,4) by (auto simp: sound_row_def wallet_of_row_def simp del: decimal_from.simps)
  note d = on_day_total(2)[OF assms(1), of now]
  show "\<not> below_limit r (total_today now r + k)"
    if "js_less l (js_add (decimal_from (Cents (total_today now r))) (amount_of k))"
    using that decimal_sum_below[of "total_today now r" k c] d c assms(2) by (auto simp: below_limit_def amount_of_def)
  show "within_limit r (total_today now r + k)"
    if "\<not> js_less l (js_add (decimal_from (Cents (total_today now r))) (amount_of k))"
    using that decimal_sum_above[of "total_today now r" k c] d c assms(2,3) by (force simp: within_limit_def amount_of_def)
qed

lemma limit_column:
  assumes "decimal_column P" and "sound_row r"
  shows "decimal_to_nullable P (map_option decimal_from (row_limit r)) = Inr (row_limit r)"
  using assms(2) decimal_roundtrip[OF assms(1)]
  by (cases "row_limit r") (auto simp: decimal_to_nullable_def sound_row_def simp del: decimal_from.simps)

lemma saved_withdrawal:
  assumes P: "decimal_column P" and r: "sound_row r" and "length i \<le> 255" and k: "0 < k" "k \<le> cents (row_balance r)"
    and "cents (row_balance r) \<le> 10 ^ 15 - 10" and t: "total_today today r + k \<le> 10 ^ 15 - 10"
  shows "\<exists>r'. row_of_wallet P saved (Some r) ((on_day today (wallet_of_row i r))\<lparr>
      balance := js_sub (balance (wallet_of_row i r)) (amount_of k),
      dailyWithdrawalTotal := js_add (decimal_from (Cents (total_today today r))) (amount_of k),
      lastWithdrawalDate := DateObject now\<rparr>) = Inr r' \<and> withdrawn_row P today now k r r'"
proof -
  obtain j where j: "row_balance r = Cents j" "0 \<le> j" "j \<le> 10 ^ 15" using r by (auto simp: sound_row_def)
  have "decimal_to P (js_sub (decimal_from (Cents j)) (amount_of k)) = Inr (Cents (j - k))"
    unfolding amount_of_def by (rule decimal_sub[OF P]) (use k j assms(6) in auto)
  moreover have "decimal_to P (js_add (decimal_from (Cents (total_today today r))) (amount_of k)) = Inr (Cents (total_today today r + k))"
    unfolding amount_of_def by (rule decimal_add[OF P]) (use k t on_day_total(2)[OF r, of today] in auto)
  ultimately show ?thesis
    using limit_column[OF P r] assms(3) r j(1)
    by (simp add: row_of_wallet_def withdrawn_row_def wallet_of_row_def varchar_def sound_row_def date_to_def
        del: decimal_from.simps)
qed

section \<open>When a withdrawal goes through\<close>

text \<open>C28: A withdrawal from an active wallet, in whole cents, as the row the wallet was loaded from has
  it. If it goes through, the balance covered the amount, what was withdrawn today with the amount
  is within the limit, and the row that is saved has exactly the amount less on its balance and exactly
  the amount more on today's total, which started at zero if the last withdrawal was on another
  UTC day. It goes through if the balance covers the amount and a cent of the limit is left. If the
  limit is exceeded it is refused for that reason, and if only the balance is short, for that.\<close>

theorem withdraw_in_whole_cents:
  assumes "decimal_column P" and "sound_row r" and "row_status r = ACTIVE" and "length i \<le> 255" and "0 < k"
    and "cents (row_balance r) \<le> 10 ^ 15 - 10" and "total_today today r + k \<le> 10 ^ 15 - 10"
    and "wallet_withdraw today now (amount_of k) (wallet_of_row i r) = (outcome, v)"
  shows "(outcome = Ok () \<longrightarrow> k \<le> cents (row_balance r) \<and> within_limit r (total_today today r + k) \<and>
      (\<exists>r'. row_of_wallet P saved (Some r) v = Inr r' \<and> withdrawn_row P today now k r r')) \<and>
    (k \<le> cents (row_balance r) \<and> below_limit r (total_today today r + k) \<longrightarrow> outcome = Ok ()) \<and>
    (\<not> within_limit r (total_today today r + k) \<longrightarrow> (\<exists>l. outcome = Throw (WithdrawalLimitExceededError (amount_of k) l))) \<and>
    (cents (row_balance r) < k \<and> below_limit r (total_today today r + k) \<longrightarrow>
      outcome = Throw (InsufficientFundsError (decimal_from (row_balance r)) (amount_of k)))"
proof -
  let ?w = "wallet_of_row i r" and ?t = "total_today today r"
  let ?sum = "js_add (decimal_from (Cents ?t)) (amount_of k)"
  have k: "k \<le> 10 ^ 15" and sum: "?t + k \<le> 10 ^ 15" using assms(5,7) on_day_total(2)[OF assms(2), of today] by auto
  obtain j where j: "row_balance r = Cents j" "0 \<le> j" "j \<le> 10 ^ 15" using assms(2) by (auto simp: sound_row_def)
  have w: "status ?w = ACTIVE" "balance ?w = decimal_from (Cents j)"
    using assms(3) j(1) by (simp_all add: wallet_of_row_def del: decimal_from.simps)
  have short: "js_less (decimal_from (Cents j)) (amount_of k) \<longleftrightarrow> j < k"
    unfolding amount_of_def by (rule decimal_from_less) (use j k assms(5) in auto)
  let ?refused = "case dailyWithdrawalLimit ?w of None \<Rightarrow> False | Some l \<Rightarrow> js_less l ?sum"
  have run: "wallet_withdraw today now (amount_of k) ?w =
      (if ?refused then (Throw (WithdrawalLimitExceededError (amount_of k) (the (dailyWithdrawalLimit ?w))), on_day today ?w)
       else if j < k then (Throw (InsufficientFundsError (decimal_from (Cents j)) (amount_of k)), on_day today ?w)
       else (Ok (), (on_day today ?w)\<lparr>balance := js_sub (balance ?w) (amount_of k), dailyWithdrawalTotal := ?sum,
         lastWithdrawalDate := DateObject now\<rparr>))"
    using amount_not_less_eq_zero[OF assms(5) k] w short
    unfolding wallet_withdraw_run on_day_total(1)[OF assms(2)] w(2)
    by (cases "dailyWithdrawalLimit ?w") (simp_all del: if_split cong: if_cong)
  have "?refused \<longrightarrow> \<not> below_limit r (?t + k)" "\<not> ?refused \<longrightarrow> within_limit r (?t + k)"
    using limit_of_row[OF assms(2,5) sum, of i]
    by (auto simp: within_limit_def wallet_of_row_def split: option.splits simp del: decimal_from.simps)
  moreover have "\<exists>r'. row_of_wallet P saved (Some r) ((on_day today ?w)\<lparr>balance := js_sub (balance ?w) (amount_of k),
      dailyWithdrawalTotal := ?sum, lastWithdrawalDate := DateObject now\<rparr>) = Inr r' \<and> withdrawn_row P today now k r r'" if "k \<le> j"
    using saved_withdrawal[OF assms(1,2,4,5) _ assms(6,7)] that j(1) by simp
  ultimately show ?thesis
    using assms(8) j(1) unfolding run by (cases ?refused) (auto simp del: decimal_from.simps split: if_splits)
qed

text \<open>Eight dollars of a balance of ten and of a limit of nine, when fifty cents were withdrawn before.\<close>

definition limited_row :: wallet_row where
  "limited_row = (sample_row 1000)\<lparr>row_limit := Some (Cents 900), row_total := Cents 50, row_lastDate := Some 0\<rparr>"

theorem withdraw_in_whole_cents_witness:
  "\<exists>v r'. wallet_withdraw 5 5 (amount_of 800) (wallet_of_row ''a'' limited_row) = (Ok (), v) \<and>
    row_of_wallet postgres 5 (Some limited_row) v = Inr r' \<and> row_balance r' = Cents 200 \<and> row_total r' = Cents 850"
proof -
  obtain outcome v where run: "wallet_withdraw 5 5 (amount_of 800) (wallet_of_row ''a'' limited_row) = (outcome, v)" by fastforce
  have r: "sound_row limited_row" "row_status limited_row = ACTIVE" "row_balance limited_row = Cents 1000"
      "total_today 5 limited_row = 50" "row_limit limited_row = Some (Cents 900)"
    by (simp_all add: limited_row_def sample_row_def default_row_def sound_row_def total_today_def getTodayDate_def ms_per_day_def)
  show ?thesis
    using withdraw_in_whole_cents[of postgres limited_row "''a''" 800 5 5 outcome v 5] run r
    by (auto simp: below_limit_def withdrawn_row_def)
qed

section \<open>The last cents of a limit\<close>

text \<open>Ten and twenty cents are not thirty cents in floating point: the sum of the doubles next to 0.10 and
  0.20 lies between two doubles, and the tie is rounded away from the double next to 0.30.\<close>

lemma round_thirty: "round_double (30 / 100) = 5404319552844595 / 2 ^ 54"
proof -
  have l: "ilog 2 (3 / 10) = - 2" by (rule ilog_eqI) (simp_all add: power_int_minus)
  have "round_half_even (3 / 10 / 2 powi (- 54)) = 5404319552844595"
    by (rule round_half_even_unique) (simp add: power_int_minus)
  then show ?thesis by (simp add: round_double_def ulp_exp_def l power_int_minus)
qed

lemma round_ten_twenty: "round_double (10 / 100) = 3602879701896397 / 2 ^ 55" "round_double (20 / 100) = 3602879701896397 / 2 ^ 54"
proof -
  have l: "ilog 2 (1 / 10) = - 4" "ilog 2 (1 / 5) = - 3" by (rule ilog_eqI; simp add: power_int_minus)+
  have "round_half_even (1 / 10 / 2 powi (- 56)) = 7205759403792794" "round_half_even (1 / 5 / 2 powi (- 55)) = 7205759403792794"
    by (rule round_half_even_unique; simp add: power_int_minus)+
  then show "round_double (10 / 100) = 3602879701896397 / 2 ^ 55" "round_double (20 / 100) = 3602879701896397 / 2 ^ 54"
    by (simp_all add: round_double_def ulp_exp_def l power_int_minus)
qed

lemma round_sum: "round_double (10808639105689191 / 36028797018963968) = 5404319552844596 / 2 ^ 54"
proof -
  have l: "ilog 2 (10808639105689191 / 36028797018963968) = - 2" by (rule ilog_eqI) (simp_all add: power_int_minus)
  have "round_half_even (10808639105689191 / 2) = 5404319552844596"
    by (simp add: round_half_even_def Let_def)
  then show ?thesis by (simp add: round_double_def ulp_exp_def l power_int_minus)
qed

lemma thirty_below_sum: "js_less (amount_of 30) (js_add (amount_of 10) (amount_of 20))"
proof -
  have "amount_of 10 = Fin (3602879701896397 / 2 ^ 55)" "amount_of 20 = Fin (3602879701896397 / 2 ^ 54)"
      "amount_of 30 = Fin (5404319552844595 / 2 ^ 54)"
    using decimal_from_cents[of 10] decimal_from_cents[of 20] decimal_from_cents[of 30] round_thirty round_ten_twenty
    by (simp_all add: amount_of_def)
  moreover have "to_number (3602879701896397 / 2 ^ 55 + 3602879701896397 / 2 ^ 54) = Fin (5404319552844596 / 2 ^ 54)"
    using to_number_small[of "10808639105689191 / 36028797018963968"] round_sum by simp
  ultimately show ?thesis by simp
qed

text \<open>After ten cents of a limit of thirty, the remaining twenty are refused: the limit is said to be exceeded
  by an amount that it covers. Nothing is withdrawn.\<close>

theorem limit_refuses_exact_amount:
  assumes "row_status r = ACTIVE" and "row_limit r = Some (Cents 30)" and "row_total r = Cents 10"
    and "row_lastDate r = Some (getTodayDate today)"
  shows "within_limit r (total_today today r + 20) \<and>
    wallet_withdraw today now (amount_of 20) (wallet_of_row i r) =
      (Throw (WithdrawalLimitExceededError (amount_of 20) (amount_of 30)), wallet_of_row i r)"
proof -
  have w: "status (wallet_of_row i r) = ACTIVE" "dailyWithdrawalLimit (wallet_of_row i r) = Some (amount_of 30)"
      "on_day today (wallet_of_row i r) = wallet_of_row i r" "dailyWithdrawalTotal (wallet_of_row i r) = amount_of 10"
    using assms by (simp_all add: wallet_of_row_def date_from_def amount_of_def del: decimal_from.simps)
  show ?thesis
    using thirty_below_sum amount_not_less_eq_zero[of 20] assms
    by (simp only: wallet_withdraw_run w) (simp add: within_limit_def total_today_def)
qed

theorem limit_refuses_exact_amount_witness:
  "fst (wallet_withdraw 5 5 (amount_of 20) (wallet_of_row ''a'' ((sample_row 1000)\<lparr>row_limit := Some (Cents 30),
     row_total := Cents 10, row_lastDate := Some 0\<rparr>))) = Throw (WithdrawalLimitExceededError (amount_of 20) (amount_of 30))"
  using limit_refuses_exact_amount[of "(sample_row 1000)\<lparr>row_limit := Some (Cents 30), row_total := Cents 10, row_lastDate := Some 0\<rparr>" 5 5 "''a''"]
  by (simp add: getTodayDate_def ms_per_day_def)

end
