(* ===== verification/SubCents.thy ===== *)
theory SubCents imports TransferRuns WithdrawalLimits
begin

text \<open>
  Amounts that are not whole cents. \<open>wallet.dto.ts\<close> does not limit the decimals of an amount, the
  services and the entity compute with it as it is, and the \<open>DECIMAL(20,2)\<close> columns round what they
  are given. A transfer rounds three times: the balance of the sender after the debit, that of the receiver after
  the credit, and the amount of the saga. \<open>half_cent_transfer_creates_money\<close> is what comes of it when
  the amount has a half cent.

  Eighths of a dollar are used for it because they are numbers of floating point, so that no other rounding takes part:
  an odd number of them has a half cent.
\<close>

section \<open>Eighths of a dollar\<close>







section \<open>The two steps\<close>





section \<open>The transfer\<close>






end
