(* ===== verification/Spec2Isabelle.thy ===== *)
theory Spec2Isabelle imports SystemRuns RetryLoop RoundTrips ReplayHazards OverlappingRuns AppendOnly LostIsolation EventImmutability Settings Pipeline Startup ReplicaJobs WithdrawalLimits SubCents
begin

text \<open>
  A verification development for an event-driven wallet service: deposits, withdrawals and transfers
  between wallets, over PostgreSQL (TypeORM), Redis and RabbitMQ. All sources are under
  \<open>src/src\<close>; the paths below are relative to it.

  \<^bold>\<open>The program and its parts.\<close> A client posts a deposit, a withdrawal or a transfer
  (\<open>modules/wallet/controllers\<close>, bodies in \<open>modules/wallet/dtos\<close>, errors through
  \<open>common/filters\<close>). The wallet service (\<open>modules/wallet/services\<close>) runs a deposit or withdrawal as
  one transaction of \<open>infrastructure/database/transaction-manager.service.ts\<close>: the wallet entity
  changes its balance, an event is logged, the response is stored under the idempotency key, and an
  event is put into the outbox. The transfer service (\<open>modules/transfer/services\<close>) runs a transfer
  as a saga of three transactions (create, debit, credit), each step with retries, and compensates
  a saga that was debited but not credited. Two background jobs finish what others left: the relay
  (\<open>infrastructure/messaging/outbox-relay.service.ts\<close>) publishes the outbox, the recovery worker
  (\<open>workers/saga-recovery.service.ts\<close>) resumes debited sagas. A consumer
  (\<open>modules/fraud/consumers\<close>) reads the published events and raises fraud alerts.

  \<^bold>\<open>The model.\<close> An asynchronous function is a program (\<open>Prelude\<close>): a function from the state to an
  outcome (\<open>Ok\<close>, \<open>Throw\<close>, \<open>Crash\<close>) and a state. The state is the \<open>world\<close> (\<open>World\<close>):
  the committed tables, the working copy of the open transaction, Redis, the broker, the clock, the flags of
  the jobs, and a script of replies. Each call to a service takes the next reply: it succeeds, or
  fails, or is the last thing the process does, in the latter two cases with or without effect on
  the server. A theorem about all scripts is about all failures and crashes at every call; a
  \<open>calm\<close> world is one in which every call succeeds. Numbers are IEEE doubles and are rounded as
  the language does (\<open>JsNumber\<close>).

  \<^item> \<open>Prelude\<close>, \<open>JsNumber\<close>, \<open>JsText\<close>, \<open>Json\<close>: programs and the two ways to reason about them
    (\<open>step_contract\<close>, \<open>outcomes\<close>); doubles, decimal text, JSON.
  \<^item> \<open>DomainExceptions\<close>, \<open>Wallet\<close>, \<open>TransferSaga\<close>: exceptions and the two entities, every method;
    what each operation does on every branch, limits, terminal states, the saga's state machine.
  \<^item> \<open>Persistence\<close>, \<open>World\<close>, \<open>Transaction\<close>, \<open>Repositories\<close>: tables and columns, services,
    \<open>TransactionManager.execute\<close>, repositories. \<open>atomic_operation\<close> is the contract between the
    transaction manager and the body of a transaction: all of it is committed with its outbox rows, or
    nothing; \<open>wallet_repository\<close> is that between the repository and the services.
  \<^item> \<open>WalletService\<close>, \<open>CalmRuns\<close>, \<open>WalletGuarantees\<close>: the wallet service; deposits and
    withdrawals are all or nothing and applied once however often they are attempted one after the other, and succeed
    when they should (\<open>idempotent_request\<close> has the law of idempotency).
  \<^item> \<open>WithdrawalLimits\<close>: a withdrawal in whole cents from row to row, with the balance, the total of the day and the
    limit; and that floating point refuses the amount that exactly reaches the limit.
    \<open>SubCents\<close>: amounts with a fraction of a cent, which the bodies of requests may have; a transfer
    of one creates money.
  \<^item> \<open>EventPublisher\<close>, \<open>OutboxRelay\<close>: publisher and relay; no event is marked as
    published before the broker took it, and the outbox drains.
  \<^item> \<open>Settings\<close>: the settings as texts of the environment (\<open>config/app-config.service.ts\<close>) and the options
    of the data sources, Redis and the broker built from them (\<open>app.module.ts\<close>,
    \<open>worker.module.ts\<close>); a configuration is read back as it was written, and both processes write to
    one database. The services read the settings through the record \<open>app_config\<close>.
  \<^item> \<open>TransferService\<close>, \<open>RetryLoop\<close>: the transfer service and its retry loop (\<open>retry_contract\<close>).
  \<^item> \<open>TransferProtocol\<close>, \<open>Books\<close>, \<open>TransferRefinement\<close>, \<open>TransferSimulation\<close>,
    \<open>TransferGuarantees\<close>, \<open>TransferRuns\<close>: an abstract protocol on a ledger of balances and
    transfers, which conserves money; the tables stand for a ledger (\<open>ledger_of\<close>), and whatever the
    service commits is a run of the protocol, recorded in the event log to the cent; what a transfer
    and a recovery do under every script; and that they complete when every call succeeds.
  \<^item> \<open>SagaRecovery\<close>, \<open>FraudDetection\<close>, \<open>WalletController\<close>: the worker (\<open>recovery_job\<close> is what it relies on),
    the consumer (with \<open>consumer_contract\<close> for its checks) and the HTTP surface.
  \<^item> \<open>Pipeline\<close>: the start of the publisher, and the way of a large withdrawal from the request through
    outbox, relay and queue to the alert.
  \<^item> \<open>SystemRuns\<close>: all activities one after the other. In any order of requests, administration, jobs
    and messages, with any failures and crashes, money is conserved to the cent, no balance is negative,
    and the event log accounts for every balance.
  \<^item> \<open>Tasks\<close>: activities that overlap. An activity is a tree of segments between its suspension points
    (\<open>task\<close>): a segment is one transaction, one statement outside of one, or one other call, and between
    two segments anything else may happen. Run alone it is the activity of \<open>SystemRuns\<close>
    (\<open>alone_as_served\<close>).
  \<^item> \<open>RelyGuarantee\<close>, \<open>Overlap\<close>, \<open>OverlappingTransfers\<close>, \<open>OverlappingRuns\<close>: what every segment guarantees and
    what an activity may rely on of the others (\<open>rely_guarantee\<close>); therefore money is conserved, sagas keep
    to their state machine and the log accounts for the balances in every interleaving.
    \<open>AppendOnly\<close>: in every interleaving, nothing that was committed is deleted.
  \<^item> \<open>LostIsolation\<close>: what the serialisation of transactions hides. A step of a saga is opened between
    its read and its save of the saga, as READ COMMITTED allows, and a refund that meets a credit there
    creates money.
  \<^item> \<open>EventImmutability\<close>: the subscriber and the installation of the database triggers
    (\<open>infrastructure/database\<close>); once installed, and as long as they stay, insertions, updates and deletions of any
    client only append to the event log, which \<open>TRUNCATE\<close> empties all the same; and a start that is
    cut short leaves it open.
  \<^item> \<open>Startup\<close>: the start and the stop of the service and the worker (\<open>main.ts\<close>, \<open>worker.ts\<close>) with the hooks of
    their providers, and the health checks (\<open>health\<close>); a service that listens has its settings, its triggers and its channels.
  \<^item> \<open>Replica\<close>, \<open>ReplicaJobs\<close>: the service with \<open>DATABASE_READ_HOST\<close>, whose finds outside a transaction go to a replica. What
    the replica answers is a parameter: one that is never behind is invisible (the two renderings of each activity
    agree), and a recovery that reads from one
    that is behind settles a transfer only once, but requests are applied again and a failed transfer loses its money. The relay and the recovery worker stay
    correct with old versions of their rows.
  \<^item> \<open>RoundTrips\<close>, \<open>ReplayHazards\<close>: a saved wallet is found as it was; and where idempotency ends, with the
    clean-up of old keys.

  \<^bold>\<open>Bounds and fuel.\<close> Theorems about cents are for amounts of whole cents and for no more than
  \<open>10 ^ 15 - 10\<close> cents in all, ten trillion dollars: below this, sums of doubles of cents round to the
  right cent in the column (\<open>decimal_add\<close>); above it they need not. Amounts of a fraction of a cent are only in
  \<open>SubCents\<close>. The retry loop is recursion on the
  attempts left, starting from the configured number, and needs no other fuel. Everything is executable but the
  specifications.

  \<^bold>\<open>Parameters.\<close> Code of packages and servers is a parameter: \<open>platform\<close> (decimal columns,
  identifiers, random jitter, dates, digests) with the hypotheses \<open>decimal_column\<close>,
  \<open>distinct_uuids\<close> and \<open>random_jitter\<close>, which its instance \<open>postgres\<close> satisfies; and \<open>validators\<close> with
  \<open>documented_validators\<close>, satisfied by \<open>class_validators\<close>.

  \<^bold>\<open>Not modelled.\<close> Transactions are serialised: two that overlap have no effect on each other before they
  commit, which row locks give for a wallet and READ COMMITTED does not give for a saga; only
  \<open>LostIsolation\<close> looks into a transaction. Reads come from a replica only in
  \<open>Replica\<close> and \<open>ReplicaJobs\<close>, for one activity at a time. Saving an entity that does not differ from its row is
  an update like any other. The numbers of \<open>app_config\<close> are natural numbers; what the getters make of other texts is
  in \<open>Settings\<close>. Times are points in time, and the local offset of the clean-up of keys is constant. The consumer's calls on
  its channel do not fail. The broker delivers what it
  took, in \<open>Pipeline\<close> by the bindings the consumer declares. The hooks of a start run one after the other; they
  share nothing. Log lines, the wiring of modules, throttling and the API documentation are the
  framework's and have no definitions. Of
  statements on the event table other than \<open>INSERT\<close>, \<open>UPDATE\<close>, \<open>DELETE\<close>, \<open>TRUNCATE\<close> and \<open>SELECT\<close>, those that drop or disable
  triggers among them, nothing is said.
\<close>

end
